(* ===== verification/Prelude.thy ===== *)
theory Prelude
  imports Main "HOL-Library.Word" "HOL-Library.Monad_Syntax"
begin

text \<open>
  The vocabulary every component shares: the machine integers of the source, byte
  strings and their little-endian encoding, the result type of fallible code, the
  effect of a panicking thread, and the third-party functions the sources call.

  \<^item> \<open>u8\<close> \<dots> \<open>u128\<close> are words of that width. \<open>usize\<close> is a \<open>nat\<close> (a 64-bit target);
    an addition on it that can exceed 64 bits goes through \<open>usize_add\<close>.
  \<^item> \<open>('a, 'e) result\<close> is Rust's \<open>Result\<close>. A computation that may panic has type
    \<open>'a run\<close>, an option whose \<open>None\<close> is the panic; the \<open>do\<close> notation of
    \<open>Monad_Syntax\<close> sequences it.
  \<^item> \<open>ext\<close> is the record of the third-party functions the modelled code calls (the byte
    conversions and the hexadecimal rendering of \<open>dashu_int::UBig\<close>, \<open>hex::decode\<close>,
    \<open>xxhash_rust::xxh64\<close>). They are parameters: a definition that needs one takes
    the record, and what a theorem relies on is a named predicate on it.
\<close>

section \<open>Machine integers and byte strings\<close>

type_synonym u8 = "8 word"
type_synonym u16 = "16 word"
type_synonym u32 = "32 word"
type_synonym u64 = "64 word"
type_synonym u128 = "128 word"
type_synonym usize = nat
type_synonym bytes = "8 word list"

named_theorems word_nat_simps \<open>rules that move word operations to \<open>nat\<close>\<close>

lemma unat_ucast_up [word_nat_simps]:
  "LENGTH('a) \<le> LENGTH('b) \<Longrightarrow> unat (ucast (w :: 'a::len word) :: 'b::len word) = unat w"
  by (simp add: unsigned_ucast_eq take_bit_nat_eq_self_iff)
     (meson le_less_trans less_le_trans one_le_numeral power_increasing unsigned_less order_less_le_trans)

lemma unat_ucast_down [word_nat_simps]:
  "unat w < 2 ^ LENGTH('b) \<Longrightarrow> unat (ucast (w :: 'a::len word) :: 'b::len word) = unat w"
  by (simp add: unsigned_ucast_eq take_bit_nat_eq_self_iff)

lemma unat_word_add_small [word_nat_simps]:
  "unat a + unat b < 2 ^ LENGTH('a) \<Longrightarrow> unat (a + b) = unat a + unat (b :: 'a::len word)"
  by (simp add: unat_word_ariths)

lemma unat_lt2p: "unat (w :: 'a::len word) < 2 ^ LENGTH('a)"
  by (rule unsigned_less)

lemma unat_add_widen [word_nat_simps]:
  assumes "LENGTH('a) < LENGTH('b)"
  shows "unat (ucast a + ucast b :: 'b::len word) = unat (a :: 'a::len word) + unat (b :: 'a word)"
proof -
  have "unat a + unat b < 2 * 2 ^ LENGTH('a)"
    using unat_lt2p [of a] unat_lt2p [of b] by linarith
  also have "\<dots> \<le> 2 ^ LENGTH('b)"
    using assms power_increasing [of "Suc LENGTH('a)" "LENGTH('b)" "2::nat"] by simp
  finally show ?thesis
    using assms by (simp add: unat_word_ariths unat_ucast_up)
qed

lemma unat_word_sub_le [word_nat_simps]:
  "b \<le> a \<Longrightarrow> unat (a - b) = unat a - unat (b :: 'a::len word)"
  by (simp add: unat_sub)

lemma unat_of_nat_word [word_nat_simps]:
  "n < 2 ^ LENGTH('a) \<Longrightarrow> unat (of_nat n :: 'a::len word) = n"
  by (simp add: unat_of_nat)

lemma unat_bound_8: "unat (w :: u8) < 256"
  using unsigned_less [of w] by simp

lemma unat_bound_16: "unat (w :: u16) < 65536"
  using unsigned_less [of w] by simp

lemma unat_bound_32: "unat (w :: u32) < 4294967296"
  using unsigned_less [of w] by simp

lemma unat_bound_64: "unat (w :: u64) < 18446744073709551616"
  using unsigned_less [of w] by simp

lemma unat_bound_128: "unat (w :: u128) < 340282366920938463463374607431768211456"
  using unsigned_less [of w] by simp

lemmas unat_bounds = unat_bound_8 unat_bound_16 unat_bound_32 unat_bound_64 unat_bound_128

text \<open>Rust's \<open>checked_add\<close>, and the subtraction that panics when it would underflow.\<close>

definition checked_add :: "'a::len word \<Rightarrow> 'a word \<Rightarrow> 'a word option" where
  "checked_add a b = (if unat a + unat b < 2 ^ LENGTH('a) then Some (a + b) else None)"

lemma checked_add_Some [simp]:
  "checked_add a b = Some c \<longleftrightarrow> unat a + unat b < 2 ^ LENGTH('a) \<and> c = a + (b :: 'a::len word)"
  by (auto simp: checked_add_def)

lemma checked_add_None [simp]:
  "checked_add a b = None \<longleftrightarrow> 2 ^ LENGTH('a) \<le> unat a + unat (b :: 'a::len word)"
  by (auto simp: checked_add_def)

section \<open>Results, panics\<close>

datatype ('a, 'e) result = Ok 'a | Err 'e

primrec is_ok :: "('a, 'e) result \<Rightarrow> bool" where
  "is_ok (Ok _) = True"
| "is_ok (Err _) = False"

primrec map_err :: "('e \<Rightarrow> 'f) \<Rightarrow> ('a, 'e) result \<Rightarrow> ('a, 'f) result" where
  "map_err f (Ok a) = Ok a"
| "map_err f (Err e) = Err (f e)"

primrec ok_opt :: "('a, 'e) result \<Rightarrow> 'a option" where
  "ok_opt (Ok a) = Some a"
| "ok_opt (Err _) = None"

primrec unwrap_or :: "('a, 'e) result \<Rightarrow> 'a \<Rightarrow> 'a" where
  "unwrap_or (Ok a) _ = a"
| "unwrap_or (Err _) d = d"

lemma is_ok_iff: "is_ok r \<longleftrightarrow> (\<exists>a. r = Ok a)"
  by (cases r) auto

type_synonym 'a run = "'a option"

abbreviation Ret :: "'a \<Rightarrow> 'a run" where "Ret \<equiv> Some"
abbreviation Panic :: "'a run" where "Panic \<equiv> None"

definition word_sub_run :: "'a::len word \<Rightarrow> 'a word \<Rightarrow> 'a word run" where
  "word_sub_run a b = (if b \<le> a then Ret (a - b) else Panic)"

definition usize_add :: "usize \<Rightarrow> usize \<Rightarrow> usize run" where
  "usize_add a b = (if a + b < 2 ^ 64 then Ret (a + b) else Panic)"

text \<open>\<open>vec![0; n]\<close>: panics when the capacity exceeds \<open>isize::MAX\<close>.\<close>

definition vec_alloc :: "usize \<Rightarrow> unit run" where
  "vec_alloc n = (if n < 2 ^ 63 then Ret () else Panic)"

text \<open>\<open>&data[a..b]\<close>: panics unless \<open>a \<le> b \<le> data.len()\<close>.\<close>

definition slice :: "'a list \<Rightarrow> nat \<Rightarrow> nat \<Rightarrow> 'a list run" where
  "slice xs a b = (if a \<le> b \<and> b \<le> length xs then Ret (take (b - a) (drop a xs)) else Panic)"

lemma slice_Some [simp]:
  "slice xs a b = Some ys \<longleftrightarrow> a \<le> b \<and> b \<le> length xs \<and> ys = take (b - a) (drop a xs)"
  by (auto simp: slice_def)

section \<open>Little-endian encodings\<close>

text \<open>
  \<open>le_bytes n v\<close> are the \<open>n\<close> low bytes of \<open>v\<close>, least significant first
  (\<open>to_le_bytes\<close> of an integer of \<open>n\<close> bytes); \<open>le_nat\<close> is the value of such a string
  (\<open>from_le_bytes\<close>).
\<close>

primrec le_bytes :: "nat \<Rightarrow> nat \<Rightarrow> bytes" where
  "le_bytes 0 v = []"
| "le_bytes (Suc n) v = of_nat (v mod 256) # le_bytes n (v div 256)"

primrec le_nat :: "bytes \<Rightarrow> nat" where
  "le_nat [] = 0"
| "le_nat (b # bs) = unat b + 256 * le_nat bs"

lemma le_bytes_numeral:
  "le_bytes (numeral n) v = of_nat (v mod 256) # le_bytes (pred_numeral n) (v div 256)"
  unfolding numeral_eq_Suc [of n] by simp

lemma length_le_bytes [simp]: "length (le_bytes n v) = n"
  by (induction n arbitrary: v) auto

lemma le_nat_bound: "le_nat bs < 256 ^ length bs"
proof (induction bs)
  case (Cons b bs)
  then have "unat b + 256 * le_nat bs < 256 + 256 * (256 ^ length bs - 1)"
    using unat_bound_8 [of b] by (intro add_less_le_mono) auto
  also have "\<dots> = 256 ^ length (b # bs)"
    by (simp add: diff_mult_distrib2)
  finally show ?case by simp
qed simp

lemma le_nat_le_bytes: "le_nat (le_bytes n v) = v mod 256 ^ n"
proof (induction n arbitrary: v)
  case (Suc n)
  have "le_nat (le_bytes (Suc n) v) = v mod 256 + 256 * (v div 256 mod 256 ^ n)"
    by (simp add: Suc unat_of_nat_word)
  also have "\<dots> = v mod 256 ^ Suc n"
    by (simp add: mod_mult2_eq)
  finally show ?case .
qed simp

lemma le_nat_le_bytes_id [simp]: "v < 256 ^ n \<Longrightarrow> le_nat (le_bytes n v) = v"
  by (simp add: le_nat_le_bytes)

lemma le_bytes_le_nat [simp]: "le_bytes (length bs) (le_nat bs) = bs"
  by (induction bs) (auto simp: unat_bound_8)

lemma le_nat_inject: "length as = length bs \<Longrightarrow> le_nat as = le_nat bs \<longleftrightarrow> as = bs"
  by (metis le_bytes_le_nat)

lemma le_nat_append: "le_nat (as @ bs) = le_nat as + 256 ^ length as * le_nat bs"
  by (induction as) (auto simp: algebra_simps)

lemma le_nat_replicate_0 [simp]: "le_nat (replicate n 0) = 0"
  by (induction n) auto

definition u64_to_le_bytes :: "u64 \<Rightarrow> bytes" where
  "u64_to_le_bytes w = le_bytes 8 (unat w)"

definition u64_from_le_bytes :: "bytes \<Rightarrow> u64" where
  "u64_from_le_bytes bs = of_nat (le_nat bs)"

lemma length_u64_to_le_bytes [simp]: "length (u64_to_le_bytes w) = 8"
  by (simp add: u64_to_le_bytes_def)

lemma u64_from_to_le_bytes [simp]: "u64_from_le_bytes (u64_to_le_bytes w) = w"
  using unat_bound_64 [of w] by (simp add: u64_from_le_bytes_def u64_to_le_bytes_def)

lemma u64_to_from_le_bytes [simp]:
  "length bs = 8 \<Longrightarrow> u64_to_le_bytes (u64_from_le_bytes bs) = bs"
  using le_nat_bound [of bs] le_bytes_le_nat [of bs]
  by (simp add: u64_from_le_bytes_def u64_to_le_bytes_def unat_of_nat_word)

section \<open>Third-party functions\<close>

record ext =
  ubig_to_le_bytes :: "nat \<Rightarrow> bytes"
  ubig_to_be_bytes :: "nat \<Rightarrow> bytes"
  ubig_from_le_bytes :: "bytes \<Rightarrow> nat"
  ubig_from_be_bytes :: "bytes \<Rightarrow> nat"
  ubig_lower_hex :: "nat \<Rightarrow> string"
  hex_decode :: "string \<Rightarrow> bytes option"
  xxh64 :: "bytes \<Rightarrow> u64"

end
