(* ===== verification/UintN.thy ===== *)
theory UintN
  imports Prelude
begin

text \<open>
  The variable-width unsigned integer of \<open>uintn-rs/src/lib.rs\<close>: the representation
  (\<open>uintn\<close>), equality and ordering across widths, the widening arithmetic, and the
  narrowing conversions. Entry identifiers, file identifiers and counters of every
  other component are values of this type.

  \<open>Big\<close> holds a \<open>dashu_int::UBig\<close>, an arbitrary-precision unsigned integer; it is
  represented by its value, a \<open>nat\<close>, with the exact arithmetic and comparison the crate
  documents (its byte conversions are parameters, see \<open>Prelude\<close>).

  \<open>uval\<close> is the abstraction: every operation is shown to be the corresponding operation
  on \<open>nat\<close>. \<open>uintn_ok\<close> is the representation invariant that the constructors of the
  crate establish (a fixed-width value is never stored wider than it needs), and
  \<open>canonical\<close> its strengthening that also bounds \<open>Big\<close> from below; on canonical values
  the abstraction is injective.
\<close>

section \<open>Representation\<close>

datatype uintn = U8 u8 | U16 u16 | U32 u32 | U64 u64 | U128 u128 | Big nat

datatype uintn_type = U8_type | U16_type | U32_type | U64_type | U128_type | Big_type

datatype uintn_error =
    ValueTooLarge
  | DecrementUnderflow
  | SliceTooShort
  | InvalidUintNSize
  | InvalidHexString
  | Io string

datatype ordering = Less | Equal | Greater

definition cmp :: "'a::linorder \<Rightarrow> 'a \<Rightarrow> ordering" where
  "cmp a b = (if a < b then Less else if a = b then Equal else Greater)"

primrec uval :: "uintn \<Rightarrow> nat" where
  "uval (U8 v) = unat v"
| "uval (U16 v) = unat v"
| "uval (U32 v) = unat v"
| "uval (U64 v) = unat v"
| "uval (U128 v) = unat v"
| "uval (Big v) = v"

primrec uintn_ok :: "uintn \<Rightarrow> bool" where
  "uintn_ok (U8 v) = True"
| "uintn_ok (U16 v) = (2 ^ 8 \<le> unat v)"
| "uintn_ok (U32 v) = (2 ^ 16 \<le> unat v)"
| "uintn_ok (U64 v) = (2 ^ 32 \<le> unat v)"
| "uintn_ok (U128 v) = (2 ^ 64 \<le> unat v)"
| "uintn_ok (Big v) = True"

definition canonical :: "uintn \<Rightarrow> bool" where
  "canonical u \<longleftrightarrow> uintn_ok u \<and> (case u of Big v \<Rightarrow> 2 ^ 128 \<le> v | _ \<Rightarrow> True)"

section \<open>Construction and conversion\<close>

definition uintn_default :: uintn where
  "uintn_default = U8 0"

definition uintn_zero :: uintn where
  "uintn_zero = U8 0"

definition uintn_one :: uintn where
  "uintn_one = U8 1"

definition uintn_from_u8 :: "u8 \<Rightarrow> uintn" where
  "uintn_from_u8 value = U8 value"

definition uintn_from_u16 :: "u16 \<Rightarrow> uintn" where
  "uintn_from_u16 value =
     (if value \<le> 0xFF then U8 (ucast value) else U16 value)"

definition uintn_from_u32 :: "u32 \<Rightarrow> uintn" where
  "uintn_from_u32 value =
     (if value \<le> 0xFF then U8 (ucast value)
      else if value \<le> 0xFFFF then U16 (ucast value)
      else U32 value)"

definition uintn_from_u64 :: "u64 \<Rightarrow> uintn" where
  "uintn_from_u64 value =
     (if value \<le> 0xFF then U8 (ucast value)
      else if value \<le> 0xFFFF then U16 (ucast value)
      else if value \<le> 0xFFFFFFFF then U32 (ucast value)
      else U64 value)"

definition uintn_from_u128 :: "u128 \<Rightarrow> uintn" where
  "uintn_from_u128 value =
     (if value \<le> 0xFF then U8 (ucast value)
      else if value \<le> 0xFFFF then U16 (ucast value)
      else if value \<le> 0xFFFFFFFF then U32 (ucast value)
      else if value \<le> 0xFFFFFFFFFFFFFFFF then U64 (ucast value)
      else U128 value)"

text \<open>\<open>TryFrom<UBig>\<close> of the fixed-width types: the value when it fits.\<close>

definition ubig_try_into :: "nat \<Rightarrow> 'a::len word option" where
  "ubig_try_into v = (if v < 2 ^ LENGTH('a) then Some (of_nat v) else None)"

definition uintn_from_ubig :: "nat \<Rightarrow> uintn" where
  "uintn_from_ubig value =
     (case ubig_try_into value of
        Some v \<Rightarrow> uintn_from_u128 v
      | None \<Rightarrow> Big value)"

primrec uintn_get_type :: "uintn \<Rightarrow> uintn_type" where
  "uintn_get_type (U8 _) = U8_type"
| "uintn_get_type (U16 _) = U16_type"
| "uintn_get_type (U32 _) = U32_type"
| "uintn_get_type (U64 _) = U64_type"
| "uintn_get_type (U128 _) = U128_type"
| "uintn_get_type (Big _) = Big_type"

primrec uintn_is_zero :: "uintn \<Rightarrow> bool" where
  "uintn_is_zero (U8 v) = (v = 0)"
| "uintn_is_zero (U16 v) = (v = 0)"
| "uintn_is_zero (U32 v) = (v = 0)"
| "uintn_is_zero (U64 v) = (v = 0)"
| "uintn_is_zero (U128 v) = (v = 0)"
| "uintn_is_zero (Big v) = (v = 0)"

primrec uintn_to_u64 :: "uintn \<Rightarrow> (u64, uintn_error) result" where
  "uintn_to_u64 (U8 v) = Ok (ucast v)"
| "uintn_to_u64 (U16 v) = Ok (ucast v)"
| "uintn_to_u64 (U32 v) = Ok (ucast v)"
| "uintn_to_u64 (U64 v) = Ok v"
| "uintn_to_u64 (U128 v) =
     (if v \<le> 0xFFFFFFFFFFFFFFFF then Ok (ucast v) else Err ValueTooLarge)"
| "uintn_to_u64 (Big v) =
     (case ubig_try_into v of Some w \<Rightarrow> Ok w | None \<Rightarrow> Err ValueTooLarge)"

primrec uintn_to_u128 :: "uintn \<Rightarrow> (u128, uintn_error) result" where
  "uintn_to_u128 (U8 v) = Ok (ucast v)"
| "uintn_to_u128 (U16 v) = Ok (ucast v)"
| "uintn_to_u128 (U32 v) = Ok (ucast v)"
| "uintn_to_u128 (U64 v) = Ok (ucast v)"
| "uintn_to_u128 (U128 v) = Ok v"
| "uintn_to_u128 (Big v) =
     (case ubig_try_into v of Some w \<Rightarrow> Ok w | None \<Rightarrow> Err ValueTooLarge)"

primrec uintn_to_ubig :: "uintn \<Rightarrow> nat" where
  "uintn_to_ubig (U8 v) = unat v"
| "uintn_to_ubig (U16 v) = unat v"
| "uintn_to_ubig (U32 v) = unat v"
| "uintn_to_ubig (U64 v) = unat v"
| "uintn_to_ubig (U128 v) = unat v"
| "uintn_to_ubig (Big v) = v"

section \<open>Equality and ordering\<close>

fun uintn_eq :: "uintn \<Rightarrow> uintn \<Rightarrow> bool" where
  "uintn_eq (U8 a) (U8 b) = (a = b)"
| "uintn_eq (U16 a) (U16 b) = (a = b)"
| "uintn_eq (U32 a) (U32 b) = (a = b)"
| "uintn_eq (U64 a) (U64 b) = (a = b)"
| "uintn_eq (U128 a) (U128 b) = (a = b)"
| "uintn_eq (Big a) (Big b) = (a = b)"
| "uintn_eq (U8 a) (U16 b) = (ucast a = b)"
| "uintn_eq (U8 a) (U32 b) = (ucast a = b)"
| "uintn_eq (U8 a) (U64 b) = (ucast a = b)"
| "uintn_eq (U8 a) (U128 b) = (ucast a = b)"
| "uintn_eq (U16 a) (U8 b) = (a = ucast b)"
| "uintn_eq (U16 a) (U32 b) = (ucast a = b)"
| "uintn_eq (U16 a) (U64 b) = (ucast a = b)"
| "uintn_eq (U16 a) (U128 b) = (ucast a = b)"
| "uintn_eq (U32 a) (U8 b) = (a = ucast b)"
| "uintn_eq (U32 a) (U16 b) = (a = ucast b)"
| "uintn_eq (U32 a) (U64 b) = (ucast a = b)"
| "uintn_eq (U32 a) (U128 b) = (ucast a = b)"
| "uintn_eq (U64 a) (U8 b) = (a = ucast b)"
| "uintn_eq (U64 a) (U16 b) = (a = ucast b)"
| "uintn_eq (U64 a) (U32 b) = (a = ucast b)"
| "uintn_eq (U64 a) (U128 b) = (ucast a = b)"
| "uintn_eq (U128 a) (U8 b) = (a = ucast b)"
| "uintn_eq (U128 a) (U16 b) = (a = ucast b)"
| "uintn_eq (U128 a) (U32 b) = (a = ucast b)"
| "uintn_eq (U128 a) (U64 b) = (a = ucast b)"
| "uintn_eq self other =
     (case uintn_to_u128 other of
        Ok b_val \<Rightarrow> (case uintn_to_u128 self of Ok a_val \<Rightarrow> a_val = b_val | Err _ \<Rightarrow> False)
      | Err _ \<Rightarrow> False)"

fun uintn_cmp :: "uintn \<Rightarrow> uintn \<Rightarrow> ordering" where
  "uintn_cmp (U8 a) (U8 b) = cmp a b"
| "uintn_cmp (U8 a) (U16 b) = cmp (ucast a) b"
| "uintn_cmp (U8 a) (U32 b) = cmp (ucast a) b"
| "uintn_cmp (U8 a) (U64 b) = cmp (ucast a) b"
| "uintn_cmp (U8 a) (U128 b) = cmp (ucast a) b"
| "uintn_cmp (U16 a) (U8 b) = cmp a (ucast b)"
| "uintn_cmp (U16 a) (U16 b) = cmp a b"
| "uintn_cmp (U16 a) (U32 b) = cmp (ucast a) b"
| "uintn_cmp (U16 a) (U64 b) = cmp (ucast a) b"
| "uintn_cmp (U16 a) (U128 b) = cmp (ucast a) b"
| "uintn_cmp (U32 a) (U8 b) = cmp a (ucast b)"
| "uintn_cmp (U32 a) (U16 b) = cmp a (ucast b)"
| "uintn_cmp (U32 a) (U32 b) = cmp a b"
| "uintn_cmp (U32 a) (U64 b) = cmp (ucast a) b"
| "uintn_cmp (U32 a) (U128 b) = cmp (ucast a) b"
| "uintn_cmp (U64 a) (U8 b) = cmp a (ucast b)"
| "uintn_cmp (U64 a) (U16 b) = cmp a (ucast b)"
| "uintn_cmp (U64 a) (U32 b) = cmp a (ucast b)"
| "uintn_cmp (U64 a) (U64 b) = cmp a b"
| "uintn_cmp (U64 a) (U128 b) = cmp (ucast a) b"
| "uintn_cmp (U128 a) (U8 b) = cmp a (ucast b)"
| "uintn_cmp (U128 a) (U16 b) = cmp a (ucast b)"
| "uintn_cmp (U128 a) (U32 b) = cmp a (ucast b)"
| "uintn_cmp (U128 a) (U64 b) = cmp a (ucast b)"
| "uintn_cmp (U128 a) (U128 b) = cmp a b"
| "uintn_cmp self other = cmp (uintn_to_ubig self) (uintn_to_ubig other)"

definition uintn_partial_cmp :: "uintn \<Rightarrow> uintn \<Rightarrow> ordering option" where
  "uintn_partial_cmp self other = Some (uintn_cmp self other)"

lemma uintn_to_ubig_uval [simp]: "uintn_to_ubig u = uval u"
  by (cases u) auto

lemma ucast_eq_iff_unat:
  "LENGTH('a) \<le> LENGTH('b) \<Longrightarrow> ucast (a :: 'a::len word) = (b :: 'b::len word) \<longleftrightarrow> unat a = unat b"
  by (simp add: word_unat_eq_iff unat_ucast_up)

lemma eq_ucast_iff_unat:
  "LENGTH('a) \<le> LENGTH('b) \<Longrightarrow> (b :: 'b::len word) = ucast (a :: 'a::len word) \<longleftrightarrow> unat b = unat a"
  by (simp add: word_unat_eq_iff unat_ucast_up)

lemma cmp_unat: "cmp (a :: 'a::len word) b = cmp (unat a) (unat b)"
  by (simp add: cmp_def word_less_nat_alt word_unat_eq_iff)

lemma cmp_simps [simp]:
  "cmp a b = Less \<longleftrightarrow> a < b"
  "cmp a b = Equal \<longleftrightarrow> a = b"
  "cmp a b = Greater \<longleftrightarrow> b < a"
  for a b :: "'a::linorder"
  by (auto simp: cmp_def)

lemma uintn_cmp_uval: "uintn_cmp a b = cmp (uval a) (uval b)"
  by (cases a; cases b) (simp_all add: cmp_unat word_nat_simps)

text \<open>
  The comparison operators Rust derives from \<open>partial_cmp\<close>, as the order of a
  \<open>preorder\<close> instance (two representations of one value are equivalent, not equal).
\<close>

instantiation uintn :: preorder
begin

definition less_eq_uintn :: "uintn \<Rightarrow> uintn \<Rightarrow> bool" where
  "less_eq_uintn a b = (uintn_partial_cmp a b \<in> {Some Less, Some Equal})"

definition less_uintn :: "uintn \<Rightarrow> uintn \<Rightarrow> bool" where
  "less_uintn a b = (uintn_partial_cmp a b = Some Less)"

instance
  by standard (auto simp: less_eq_uintn_def less_uintn_def uintn_partial_cmp_def uintn_cmp_uval)

end

lemma less_eq_uintn_uval [simp]: "a \<le> b \<longleftrightarrow> uval a \<le> uval (b :: uintn)"
  by (auto simp: less_eq_uintn_def uintn_partial_cmp_def uintn_cmp_uval)

lemma less_uintn_uval [simp]: "a < b \<longleftrightarrow> uval a < uval (b :: uintn)"
  by (auto simp: less_uintn_def uintn_partial_cmp_def uintn_cmp_uval)

section \<open>Arithmetic\<close>

primrec uintn_increment :: "uintn \<Rightarrow> uintn" where
  "uintn_increment (U8 v) = (if v = 0xFF then U16 256 else U8 (v + 1))"
| "uintn_increment (U16 v) = (if v = 0xFFFF then U32 65536 else U16 (v + 1))"
| "uintn_increment (U32 v) = (if v = 0xFFFFFFFF then U64 4294967296 else U32 (v + 1))"
| "uintn_increment (U64 v) =
     (if v = 0xFFFFFFFFFFFFFFFF then U128 18446744073709551616 else U64 (v + 1))"
| "uintn_increment (U128 v) =
     (if v = 0xFFFFFFFFFFFFFFFFFFFFFFFFFFFFFFFF then Big (unat v + 1) else U128 (v + 1))"
| "uintn_increment (Big v) = Big (v + 1)"

definition uintn_decrement :: "uintn \<Rightarrow> (uintn, uintn_error) result" where
  "uintn_decrement self =
     (if uintn_is_zero self then Err DecrementUnderflow
      else case self of
          U8 v \<Rightarrow> Ok (uintn_from_u8 (v - 1))
        | U16 v \<Rightarrow> Ok (uintn_from_u16 (v - 1))
        | U32 v \<Rightarrow> Ok (uintn_from_u32 (v - 1))
        | U64 v \<Rightarrow> Ok (uintn_from_u64 (v - 1))
        | U128 v \<Rightarrow> Ok (uintn_from_u128 (v - 1))
        | Big v \<Rightarrow> Ok (uintn_from_ubig (v - 1)))"

text \<open>
  \<open>add\<close>: the operands are brought to the wider of the two widths; a sum that does not
  fit is computed in the next width. \<open>add_in_u16\<close> \<dots> \<open>add_in_u128\<close> are the arms of the
  match at each width (the arm for two \<open>u8\<close> keeps the sum as it is).
\<close>

definition add_in_u8 :: "u8 \<Rightarrow> u8 \<Rightarrow> uintn" where
  "add_in_u8 a b =
     (case checked_add a b of Some result \<Rightarrow> U8 result | None \<Rightarrow> U16 (ucast a + ucast b))"

definition add_in_u16 :: "u16 \<Rightarrow> u16 \<Rightarrow> uintn" where
  "add_in_u16 a b =
     (case checked_add a b of Some result \<Rightarrow> uintn_from_u16 result
      | None \<Rightarrow> U32 (ucast a + ucast b))"

definition add_in_u32 :: "u32 \<Rightarrow> u32 \<Rightarrow> uintn" where
  "add_in_u32 a b =
     (case checked_add a b of Some result \<Rightarrow> uintn_from_u32 result
      | None \<Rightarrow> U64 (ucast a + ucast b))"

definition add_in_u64 :: "u64 \<Rightarrow> u64 \<Rightarrow> uintn" where
  "add_in_u64 a b =
     (case checked_add a b of Some result \<Rightarrow> uintn_from_u64 result
      | None \<Rightarrow> U128 (ucast a + ucast b))"

definition add_in_u128 :: "u128 \<Rightarrow> u128 \<Rightarrow> uintn" where
  "add_in_u128 a b =
     (case checked_add a b of Some result \<Rightarrow> uintn_from_u128 result
      | None \<Rightarrow> Big (unat a + unat b))"

fun uintn_add_match :: "uintn \<Rightarrow> uintn \<Rightarrow> uintn" where
  "uintn_add_match (U8 a) (U8 b) = add_in_u8 a b"
| "uintn_add_match (U8 a) (U16 b) = add_in_u16 (ucast a) b"
| "uintn_add_match (U8 a) (U32 b) = add_in_u32 (ucast a) b"
| "uintn_add_match (U8 a) (U64 b) = add_in_u64 (ucast a) b"
| "uintn_add_match (U8 a) (U128 b) = add_in_u128 (ucast a) b"
| "uintn_add_match (U16 b) (U8 a) = add_in_u16 (ucast a) b"
| "uintn_add_match (U16 a) (U16 b) = add_in_u16 a b"
| "uintn_add_match (U16 a) (U32 b) = add_in_u32 (ucast a) b"
| "uintn_add_match (U16 a) (U64 b) = add_in_u64 (ucast a) b"
| "uintn_add_match (U16 a) (U128 b) = add_in_u128 (ucast a) b"
| "uintn_add_match (U32 b) (U8 a) = add_in_u32 (ucast a) b"
| "uintn_add_match (U32 b) (U16 a) = add_in_u32 (ucast a) b"
| "uintn_add_match (U32 a) (U32 b) = add_in_u32 a b"
| "uintn_add_match (U32 a) (U64 b) = add_in_u64 (ucast a) b"
| "uintn_add_match (U32 a) (U128 b) = add_in_u128 (ucast a) b"
| "uintn_add_match (U64 b) (U8 a) = add_in_u64 (ucast a) b"
| "uintn_add_match (U64 b) (U16 a) = add_in_u64 (ucast a) b"
| "uintn_add_match (U64 b) (U32 a) = add_in_u64 (ucast a) b"
| "uintn_add_match (U64 a) (U64 b) = add_in_u64 a b"
| "uintn_add_match (U64 a) (U128 b) = add_in_u128 (ucast a) b"
| "uintn_add_match (U128 b) (U8 a) = add_in_u128 (ucast a) b"
| "uintn_add_match (U128 b) (U16 a) = add_in_u128 (ucast a) b"
| "uintn_add_match (U128 b) (U32 a) = add_in_u128 (ucast a) b"
| "uintn_add_match (U128 b) (U64 a) = add_in_u128 (ucast a) b"
| "uintn_add_match (U128 a) (U128 b) = add_in_u128 a b"
| "uintn_add_match self other = Big (uintn_to_ubig self + uintn_to_ubig other)"

definition uintn_add :: "uintn \<Rightarrow> uintn \<Rightarrow> uintn" where
  "uintn_add self other = (if uintn_is_zero other then self else uintn_add_match self other)"

text \<open>
  \<open>sub\<close>: on two values of one width the operands are compared first; a wider minus a
  narrower value is subtracted at once, which panics on underflow. Everything else goes
  through \<open>UBig\<close>.
\<close>

fun uintn_sub_match :: "uintn \<Rightarrow> uintn \<Rightarrow> (uintn, uintn_error) result run" where
  "uintn_sub_match (U8 a) (U8 b) =
     Ret (if b \<le> a then Ok (uintn_from_u8 (a - b)) else Err DecrementUnderflow)"
| "uintn_sub_match (U16 a) (U8 b) =
     map_option (\<lambda>d. Ok (uintn_from_u16 d)) (word_sub_run a (ucast b))"
| "uintn_sub_match (U16 a) (U16 b) =
     Ret (if b \<le> a then Ok (uintn_from_u16 (a - b)) else Err DecrementUnderflow)"
| "uintn_sub_match (U32 a) (U8 b) =
     map_option (\<lambda>d. Ok (uintn_from_u32 d)) (word_sub_run a (ucast b))"
| "uintn_sub_match (U32 a) (U16 b) =
     map_option (\<lambda>d. Ok (uintn_from_u32 d)) (word_sub_run a (ucast b))"
| "uintn_sub_match (U32 a) (U32 b) =
     Ret (if b \<le> a then Ok (uintn_from_u32 (a - b)) else Err DecrementUnderflow)"
| "uintn_sub_match (U64 a) (U8 b) =
     map_option (\<lambda>d. Ok (uintn_from_u64 d)) (word_sub_run a (ucast b))"
| "uintn_sub_match (U64 a) (U16 b) =
     map_option (\<lambda>d. Ok (uintn_from_u64 d)) (word_sub_run a (ucast b))"
| "uintn_sub_match (U64 a) (U32 b) =
     map_option (\<lambda>d. Ok (uintn_from_u64 d)) (word_sub_run a (ucast b))"
| "uintn_sub_match (U64 a) (U64 b) =
     Ret (if b \<le> a then Ok (uintn_from_u64 (a - b)) else Err DecrementUnderflow)"
| "uintn_sub_match (U128 a) (U8 b) =
     map_option (\<lambda>d. Ok (uintn_from_u128 d)) (word_sub_run a (ucast b))"
| "uintn_sub_match (U128 a) (U16 b) =
     map_option (\<lambda>d. Ok (uintn_from_u128 d)) (word_sub_run a (ucast b))"
| "uintn_sub_match (U128 a) (U32 b) =
     map_option (\<lambda>d. Ok (uintn_from_u128 d)) (word_sub_run a (ucast b))"
| "uintn_sub_match (U128 a) (U64 b) =
     map_option (\<lambda>d. Ok (uintn_from_u128 d)) (word_sub_run a (ucast b))"
| "uintn_sub_match (U128 a) (U128 b) =
     Ret (if b \<le> a then Ok (uintn_from_u128 (a - b)) else Err DecrementUnderflow)"
| "uintn_sub_match self other =
     Ret (if self < other then Err DecrementUnderflow
          else Ok (uintn_from_ubig (uintn_to_ubig self - uintn_to_ubig other)))"

definition uintn_sub :: "uintn \<Rightarrow> uintn \<Rightarrow> (uintn, uintn_error) result run" where
  "uintn_sub self other =
     (if uintn_is_zero other then Ret (Ok self) else uintn_sub_match self other)"

primrec uintn_shrink_to_fit :: "uintn \<Rightarrow> uintn" where
  "uintn_shrink_to_fit (U8 v) = U8 v"
| "uintn_shrink_to_fit (U16 v) = uintn_from_ubig (uintn_to_ubig (U16 v))"
| "uintn_shrink_to_fit (U32 v) = uintn_from_ubig (uintn_to_ubig (U32 v))"
| "uintn_shrink_to_fit (U64 v) = uintn_from_ubig (uintn_to_ubig (U64 v))"
| "uintn_shrink_to_fit (U128 v) = uintn_from_ubig (uintn_to_ubig (U128 v))"
| "uintn_shrink_to_fit (Big v) = uintn_from_ubig (uintn_to_ubig (Big v))"

fun uintn_middle :: "uintn \<Rightarrow> uintn \<Rightarrow> uintn" where
  "uintn_middle (U8 a) (U8 b) = U8 (ucast ((ucast a + ucast b) div 2 :: u16))"
| "uintn_middle (U16 a) (U16 b) = U16 (ucast ((ucast a + ucast b) div 2 :: u32))"
| "uintn_middle (U32 a) (U32 b) = U32 (ucast ((ucast a + ucast b) div 2 :: u64))"
| "uintn_middle (U64 a) (U64 b) = U64 (ucast ((ucast a + ucast b) div 2 :: u128))"
| "uintn_middle (U128 a) (U128 b) =
     (let half = (unat a + unat b) div 2
      in case ubig_try_into half of Some val \<Rightarrow> U128 val | None \<Rightarrow> Big half)"
| "uintn_middle self other = uintn_from_ubig ((uintn_to_ubig self + uintn_to_ubig other) div 2)"

fun uintn_rem_match :: "uintn \<Rightarrow> uintn \<Rightarrow> uintn" where
  "uintn_rem_match (U8 a) (U8 b) = uintn_from_u8 (a mod b)"
| "uintn_rem_match (U16 a) (U8 b) = uintn_from_u16 (a mod ucast b)"
| "uintn_rem_match (U16 a) (U16 b) = uintn_from_u16 (a mod b)"
| "uintn_rem_match (U32 a) (U8 b) = uintn_from_u32 (a mod ucast b)"
| "uintn_rem_match (U32 a) (U16 b) = uintn_from_u32 (a mod ucast b)"
| "uintn_rem_match (U32 a) (U32 b) = uintn_from_u32 (a mod b)"
| "uintn_rem_match (U64 a) (U8 b) = uintn_from_u64 (a mod ucast b)"
| "uintn_rem_match (U64 a) (U16 b) = uintn_from_u64 (a mod ucast b)"
| "uintn_rem_match (U64 a) (U32 b) = uintn_from_u64 (a mod ucast b)"
| "uintn_rem_match (U64 a) (U64 b) = uintn_from_u64 (a mod b)"
| "uintn_rem_match (U128 a) (U8 b) = uintn_from_u128 (a mod ucast b)"
| "uintn_rem_match (U128 a) (U16 b) = uintn_from_u128 (a mod ucast b)"
| "uintn_rem_match (U128 a) (U32 b) = uintn_from_u128 (a mod ucast b)"
| "uintn_rem_match (U128 a) (U64 b) = uintn_from_u128 (a mod ucast b)"
| "uintn_rem_match (U128 a) (U128 b) = uintn_from_u128 (a mod b)"
| "uintn_rem_match (Big a) (Big b) = uintn_from_ubig (a mod b)"
| "uintn_rem_match self rhs = uintn_from_ubig (uintn_to_ubig self mod uintn_to_ubig rhs)"

definition uintn_rem :: "uintn \<Rightarrow> uintn \<Rightarrow> uintn run" where
  "uintn_rem self rhs = (if uintn_is_zero rhs then Panic else Ret (uintn_rem_match self rhs))"

definition uintn_in_step :: "uintn \<Rightarrow> uintn \<Rightarrow> usize \<Rightarrow> bool run" where
  "uintn_in_step self from step =
     (if step = 1 then Ret True
      else if self < from then Ret False
      else do {
        d \<leftarrow> uintn_sub self from;
        let diff = unwrap_or d uintn_zero;
        r \<leftarrow> uintn_rem diff (uintn_from_u64 (of_nat step));
        Ret (uintn_is_zero r) })"

definition uintn_step_by :: "uintn \<Rightarrow> usize \<Rightarrow> uintn" where
  "uintn_step_by self step = uintn_add self (uintn_from_u64 (of_nat step))"

definition uintn_is_valid_data_size :: "u64 \<Rightarrow> bool" where
  "uintn_is_valid_data_size n \<longleftrightarrow> n = 1 \<or> n = 2 \<or> n = 4 \<or> n = 8 \<or> n = 16"


section \<open>The operations on values\<close>

lemma uval_from_u8 [simp]: "uval (uintn_from_u8 v) = unat v"
  by (simp add: uintn_from_u8_def)

lemma uval_from_u16 [simp]: "uval (uintn_from_u16 v) = unat v"
  by (simp add: uintn_from_u16_def unat_ucast_down word_le_nat_alt)

lemma uval_from_u32 [simp]: "uval (uintn_from_u32 v) = unat v"
  by (simp add: uintn_from_u32_def unat_ucast_down word_le_nat_alt)

lemma uval_from_u64 [simp]: "uval (uintn_from_u64 v) = unat v"
  by (simp add: uintn_from_u64_def unat_ucast_down word_le_nat_alt)

lemma uval_from_u128 [simp]: "uval (uintn_from_u128 v) = unat v"
  by (simp add: uintn_from_u128_def unat_ucast_down word_le_nat_alt)

lemma uval_from_ubig [simp]: "uval (uintn_from_ubig n) = n"
  by (simp add: uintn_from_ubig_def ubig_try_into_def unat_of_nat_word)

lemma canonical_from_u8 [simp]: "canonical (uintn_from_u8 v)"
  by (simp add: uintn_from_u8_def canonical_def)

lemma canonical_from_u16 [simp]: "canonical (uintn_from_u16 v)"
  by (simp add: uintn_from_u16_def canonical_def word_le_nat_alt)

lemma canonical_from_u32 [simp]: "canonical (uintn_from_u32 v)"
  by (simp add: uintn_from_u32_def canonical_def word_le_nat_alt unat_ucast_down)

lemma canonical_from_u64 [simp]: "canonical (uintn_from_u64 v)"
  by (simp add: uintn_from_u64_def canonical_def word_le_nat_alt unat_ucast_down)

lemma canonical_from_u128 [simp]: "canonical (uintn_from_u128 v)"
  by (simp add: uintn_from_u128_def canonical_def word_le_nat_alt unat_ucast_down)

lemma canonical_from_ubig [simp]: "canonical (uintn_from_ubig n)"
  by (auto simp: uintn_from_ubig_def ubig_try_into_def split: option.splits)
     (simp add: canonical_def)

lemma uval_zero_one [simp]:
  "uval uintn_zero = 0" "uval uintn_one = 1" "uval uintn_default = 0"
  "canonical uintn_zero" "canonical uintn_one" "canonical uintn_default"
  by (simp_all add: uintn_zero_def uintn_one_def uintn_default_def canonical_def)

lemma uintn_is_zero_uval [simp]: "uintn_is_zero u \<longleftrightarrow> uval u = 0"
  by (cases u) (simp_all add: unat_eq_zero)

lemma canonical_imp_ok [intro]: "canonical u \<Longrightarrow> uintn_ok u"
  by (simp add: canonical_def)

lemma unat_plus_1:
  assumes "unat v \<noteq> 2 ^ LENGTH('a) - 1"
  shows "unat (v + 1) = Suc (unat (v :: 'a::len word))"
proof -
  have "Suc (unat v) < 2 ^ LENGTH('a)"
    using unat_lt2p [of v] assms by linarith
  then show ?thesis by (simp add: unat_word_ariths)
qed

lemma uval_increment [simp]: "uval (uintn_increment u) = uval u + 1"
  by (cases u) (auto simp: word_unat_eq_iff unat_plus_1)

lemma canonical_increment: "canonical u \<Longrightarrow> canonical (uintn_increment u)"
  by (cases u) (auto simp: word_unat_eq_iff unat_plus_1 canonical_def)

lemma uintn_ok_increment: "uintn_ok u \<Longrightarrow> uintn_ok (uintn_increment u)"
  by (cases u) (auto simp: word_unat_eq_iff unat_plus_1)

lemma uintn_decrement_zero [simp]:
  "uval u = 0 \<Longrightarrow> uintn_decrement u = Err DecrementUnderflow"
  by (simp add: uintn_decrement_def)

lemma uintn_decrement_Ok:
  assumes "uval u \<noteq> 0"
  obtains w where "uintn_decrement u = Ok w" "canonical w" "uval w = uval u - 1"
  using assms
  by (cases u) (auto simp: uintn_decrement_def unat_eq_zero word_neq_0_conv unat_minus_one)

lemma uval_add_in [simp]:
  "uval (add_in_u8 a8 b8) = unat a8 + unat b8"
  "uval (add_in_u16 a16 b16) = unat a16 + unat b16"
  "uval (add_in_u32 a32 b32) = unat a32 + unat b32"
  "uval (add_in_u64 a64 b64) = unat a64 + unat b64"
  "uval (add_in_u128 a128 b128) = unat a128 + unat b128"
  by (auto simp: add_in_u8_def add_in_u16_def add_in_u32_def add_in_u64_def add_in_u128_def
      unat_word_add_small unat_add_widen split: option.splits)

lemma canonical_add_in [simp]:
  "canonical (add_in_u8 a8 b8)"
  "canonical (add_in_u16 a16 b16)"
  "canonical (add_in_u32 a32 b32)"
  "canonical (add_in_u64 a64 b64)"
  "canonical (add_in_u128 a128 b128)"
  by (auto simp: add_in_u8_def add_in_u16_def add_in_u32_def add_in_u64_def add_in_u128_def
      unat_add_widen canonical_def [of "U8 _"] canonical_def [of "U16 _"] canonical_def [of "U32 _"]
      canonical_def [of "U64 _"] canonical_def [of "U128 _"] canonical_def [of "Big _"]
      split: option.splits)

lemma uval_add_match [simp]: "uval (uintn_add_match a b) = uval a + uval b"
  by (cases a; cases b) (simp_all add: unat_ucast_up)

lemma uval_add [simp]: "uval (uintn_add a b) = uval a + uval b"
  by (simp add: uintn_add_def)

lemma canonical_add: "canonical a \<Longrightarrow> canonical b \<Longrightarrow> canonical (uintn_add a b)"
  by (cases a; cases b) (auto simp: uintn_add_def canonical_def [of "Big _"])

lemma uintn_ok_add: "uintn_ok a \<Longrightarrow> uintn_ok (uintn_add a b)"
  by (cases a; cases b) (auto simp: uintn_add_def canonical_imp_ok)

text \<open>
  Subtraction never panics on values that satisfy the representation invariant: a
  wider representation is never the smaller number.
\<close>

lemma unat_le_wide:
  "256 \<le> n \<Longrightarrow> \<not> n < unat (v8 :: u8)"
  "65536 \<le> n \<Longrightarrow> \<not> n < unat (v16 :: u16)"
  "4294967296 \<le> n \<Longrightarrow> \<not> n < unat (v32 :: u32)"
  "18446744073709551616 \<le> n \<Longrightarrow> \<not> n < unat (v64 :: u64)"
  using unat_bound_8 [of v8] unat_bound_16 [of v16] unat_bound_32 [of v32] unat_bound_64 [of v64]
  by linarith+

lemma uintn_sub_underflow:
  "uintn_ok a \<Longrightarrow> uval a < uval b \<Longrightarrow> uintn_sub a b = Ret (Err DecrementUnderflow)"
  by (cases a; cases b)
     (simp_all add: uintn_sub_def word_sub_run_def word_le_nat_alt unat_ucast_up unat_le_wide)

lemma uintn_sub_match_Ok:
  "uval b \<le> uval a \<Longrightarrow>
   \<exists>w. uintn_sub_match a b = Ret (Ok w) \<and> canonical w \<and> uval w = uval a - uval b"
  by (cases a; cases b)
     (simp_all add: word_sub_run_def word_le_nat_alt unat_ucast_up unat_word_sub_le)

lemma uintn_sub_Ok:
  assumes "uval b \<le> uval a"
  obtains w where "uintn_sub a b = Ret (Ok w)" "uval w = uval a - uval b"
    "uintn_ok a \<Longrightarrow> uintn_ok w" "canonical a \<Longrightarrow> canonical w"
proof (cases "uval b = 0")
  case True then show thesis by (auto simp: uintn_sub_def intro: that)
next
  case False with uintn_sub_match_Ok [OF assms] show thesis
    by (auto simp: uintn_sub_def intro: that)
qed

lemma uval_shrink_to_fit [simp]: "uval (uintn_shrink_to_fit u) = uval u"
  by (cases u) simp_all

lemma canonical_shrink_to_fit [simp]: "canonical (uintn_shrink_to_fit u)"
  by (cases u) (simp_all add: canonical_def [of "U8 _"])

lemma unat_half_sum:
  assumes "LENGTH('a) < LENGTH('b)"
  shows "unat (ucast ((ucast a + ucast b) div 2 :: 'b::len word) :: 'a::len word) =
         (unat (a :: 'a word) + unat (b :: 'a word)) div 2"
proof -
  have "1 < LENGTH('b)" using assms len_gt_0 [where ?'a = 'a] by linarith
  then have two: "unat (2 :: 'b word) = 2"
    by (simp add: unat_of_nat_word [of 2, where ?'a = 'b, simplified] power_gt_expt
        less_le_trans [OF _ power_increasing [of 2 "LENGTH('b)" "2::nat"]])
  have "unat ((ucast a + ucast b) div 2 :: 'b word) = (unat a + unat b) div 2"
    using assms two by (simp add: unat_div unat_add_widen)
  moreover have "(unat a + unat b) div 2 < 2 ^ LENGTH('a)"
    using unat_lt2p [of a] unat_lt2p [of b] by linarith
  ultimately show ?thesis by (simp add: unat_ucast_down)
qed

lemma uval_middle [simp]: "uval (uintn_middle a b) = (uval a + uval b) div 2"
  by (cases a; cases b)
     (simp_all add: unat_half_sum ubig_try_into_def Let_def unat_of_nat_word)

lemma uval_rem_match [simp]: "uval (uintn_rem_match a b) = uval a mod uval b"
  by (cases a; cases b) (simp_all add: unat_mod unat_ucast_up)

lemma canonical_rem_match [simp]: "canonical (uintn_rem_match a b)"
  by (cases a; cases b) simp_all

lemma uintn_rem_Ret:
  "uval b \<noteq> 0 \<Longrightarrow> \<exists>r. uintn_rem a b = Ret r \<and> canonical r \<and> uval r = uval a mod uval b"
  by (simp add: uintn_rem_def)

lemma uintn_in_step_eq:
  assumes "uintn_ok u" "1 < step" "step < 2 ^ 64"
  shows "uintn_in_step u from step =
         Ret (uval from \<le> uval u \<and> (uval u - uval from) mod step = 0)"
proof (cases "uval from \<le> uval u")
  case True
  then obtain w where w: "uintn_sub u from = Ret (Ok w)" "uval w = uval u - uval from"
    by (rule uintn_sub_Ok)
  have "uval (uintn_from_u64 (of_nat step)) = step"
    using assms by (simp add: unat_of_nat_word)
  with w True assms show ?thesis
    by (simp add: uintn_in_step_def uintn_rem_def unat_of_nat_word)
qed (use assms in \<open>simp add: uintn_in_step_def\<close>)

lemma uval_step_by [simp]: "step < 2 ^ 64 \<Longrightarrow> uval (uintn_step_by u step) = uval u + step"
  by (simp add: uintn_step_by_def unat_of_nat_word)

lemma canonical_step_by: "canonical u \<Longrightarrow> canonical (uintn_step_by u step)"
  by (simp add: uintn_step_by_def canonical_add)

text \<open>\<open>PartialEq\<close> compares values; on canonical representations it is identity.\<close>

lemma ubig_try_into_eq_Some:
  "ubig_try_into n = Some (w :: 'a::len word) \<longleftrightarrow> n = unat w"
  using unat_lt2p [of w] by (auto simp: ubig_try_into_def unat_of_nat_word)

lemma ucast_up_down:
  "LENGTH('a) \<le> LENGTH('b) \<Longrightarrow> ucast (ucast w :: 'b::len word) = (w :: 'a::len word)"
  by (simp add: word_unat_eq_iff unat_ucast_up unat_ucast_down)

lemma canonical_from_uval: "canonical u \<Longrightarrow> uintn_from_ubig (uval u) = u"
proof (cases u)
  case (U8 v)
  then show ?thesis using unat_bound_8 [of v]
    by (simp add: uintn_from_ubig_def ubig_try_into_def uintn_from_u128_def word_le_nat_alt
        unat_of_nat_word unat_ucast_up ucast_up_down)
next
  case (U16 v)
  then show "canonical u \<Longrightarrow> ?thesis" using unat_bound_16 [of v]
    by (simp add: uintn_from_ubig_def ubig_try_into_def uintn_from_u128_def word_le_nat_alt
        unat_of_nat_word unat_ucast_up ucast_up_down canonical_def)
next
  case (U32 v)
  then show "canonical u \<Longrightarrow> ?thesis" using unat_bound_32 [of v]
    by (simp add: uintn_from_ubig_def ubig_try_into_def uintn_from_u128_def word_le_nat_alt
        unat_of_nat_word unat_ucast_up ucast_up_down canonical_def)
next
  case (U64 v)
  then show "canonical u \<Longrightarrow> ?thesis" using unat_bound_64 [of v]
    by (simp add: uintn_from_ubig_def ubig_try_into_def uintn_from_u128_def word_le_nat_alt
        unat_of_nat_word unat_ucast_up ucast_up_down canonical_def)
next
  case (U128 v)
  then show "canonical u \<Longrightarrow> ?thesis" using unat_bound_128 [of v]
    by (simp add: uintn_from_ubig_def ubig_try_into_def uintn_from_u128_def word_le_nat_alt
        unat_of_nat_word unat_ucast_up ucast_up_down canonical_def)
qed (simp add: canonical_def uintn_from_ubig_def ubig_try_into_def)

lemma canonical_inj: "canonical a \<Longrightarrow> canonical b \<Longrightarrow> uval a = uval b \<Longrightarrow> a = b"
  by (metis canonical_from_uval)

lemma uval_fixed_width: "case u of Big n \<Rightarrow> True | _ \<Rightarrow> uval u < 2 ^ 128"
  using less_trans [OF unat_bound_8, of "2 ^ 128"] less_trans [OF unat_bound_16, of "2 ^ 128"]
    less_trans [OF unat_bound_32, of "2 ^ 128"] less_trans [OF unat_bound_64, of "2 ^ 128"]
  by (cases u) (simp_all add: unat_bound_128)

lemma uintn_to_u128_Ok_iff: "uintn_to_u128 u = Ok w \<longleftrightarrow> uval u = unat w"
  by (cases u)
     (auto simp: ubig_try_into_def word_unat_eq_iff unat_ucast_up unat_of_nat_word
       unat_bound_128)

lemma uintn_to_u128_Err_iff: "uintn_to_u128 u = Err e \<longleftrightarrow> 2 ^ 128 \<le> uval u \<and> e = ValueTooLarge"
  using uval_fixed_width [of u]
  by (cases u) (auto simp: ubig_try_into_def split: if_splits)

lemma uintn_eq_via_u128:
  "(case uintn_to_u128 b of
      Ok v \<Rightarrow> (case uintn_to_u128 a of Ok w \<Rightarrow> w = v | Err _ \<Rightarrow> False) | Err _ \<Rightarrow> False)
   \<longleftrightarrow> uval a = uval b \<and> uval b < 2 ^ 128"
  by (auto simp: uintn_to_u128_Ok_iff uintn_to_u128_Err_iff word_unat_eq_iff
      unat_bound_128 not_le [THEN iffD2, OF unat_bound_128] split: result.splits)

lemma uintn_eq_uval: "uintn_eq a b \<longleftrightarrow> uval a = uval b"
  using uval_fixed_width [of a] uval_fixed_width [of b]
  by (cases a; cases b)
     (auto simp: ucast_eq_iff_unat eq_ucast_iff_unat word_unat_eq_iff unat_ucast_up
       uintn_eq_via_u128 simp del: uintn_to_u128.simps)

lemma canonical_decrement_increment:
  assumes "canonical u"
  shows "uintn_decrement (uintn_increment u) = Ok u"
proof -
  obtain w where w: "uintn_decrement (uintn_increment u) = Ok w" "canonical w" "uval w = uval u"
    using uintn_decrement_Ok [of "uintn_increment u"] by auto
  with assms canonical_inj show ?thesis by blast
qed

section \<open>Properties\<close>

text \<open>
  Comparison across widths is comparison of the numbers, and \<open>PartialEq\<close>, \<open>Ord\<close> and
  \<open>PartialOrd\<close> agree: two identifiers are equal exactly when \<open>cmp\<close> says \<open>Equal\<close>, whatever
  widths store them.
\<close>

lemma uintn_order:
  "uintn_cmp a b = cmp (uval a) (uval b) \<and>
   (uintn_eq a b \<longleftrightarrow> uintn_cmp a b = Equal) \<and>
   (a < b \<longleftrightarrow> uintn_cmp a b = Less) \<and> (a \<le> b \<longleftrightarrow> uintn_cmp a b \<noteq> Greater)"
  by (simp add: uintn_cmp_uval uintn_eq_uval cmp_def)

text \<open>
  C22. Addition never overflows and never loses the narrowest representation: the sum of two
  canonical values is the canonical representation of the exact sum, at every
  combination of widths.
\<close>

theorem uintn_add_canonical:
  assumes "canonical a" "canonical b"
  shows "uintn_add a b = uintn_from_ubig (uval a + uval b)"
  using assms by (intro canonical_inj) (simp_all add: canonical_add)

theorem uintn_add_canonical_witness:
  "uintn_add (U8 200) (U8 100) = uintn_from_ubig 300 \<and>
   uintn_add (U64 0xFFFFFFFFFFFFFFFF) (U8 1) = uintn_from_ubig (2 ^ 64)"
  using uintn_add_canonical [of "U8 200" "U8 100"]
    uintn_add_canonical [of "U64 0xFFFFFFFFFFFFFFFF" "U8 1"]
  by (simp add: canonical_def)

text \<open>
  C23. Subtraction of canonical values never panics: it yields the canonical
  representation of the difference, or \<open>DecrementUnderflow\<close> when the result would be negative.
\<close>

theorem uintn_sub_total:
  assumes "canonical a"
  shows "uintn_sub a b =
    Ret (if uval b \<le> uval a then Ok (uintn_from_ubig (uval a - uval b)) else Err DecrementUnderflow)"
proof (cases "uval b \<le> uval a")
  case True
  then obtain w where w: "uintn_sub a b = Ret (Ok w)" "uval w = uval a - uval b" "canonical w"
    using uintn_sub_Ok [of b a] assms by blast
  then have "w = uintn_from_ubig (uval a - uval b)" by (intro canonical_inj) simp_all
  with w True show ?thesis by simp
next
  case False
  with assms uintn_sub_underflow [of a b] show ?thesis by auto
qed

theorem uintn_sub_total_witness:
  "uintn_sub (U16 300) (U8 200) = Ret (Ok (uintn_from_ubig 100)) \<and>
   uintn_sub (U8 1) (U16 300) = Ret (Err DecrementUnderflow)"
  using uintn_sub_total [of "U16 300" "U8 200"] uintn_sub_total [of "U8 1" "U16 300"]
  by (simp add: canonical_def)

text \<open>
  The step filter: for a step of at least two, \<open>in_step\<close> never panics on a value within the
  representation invariant and accepts exactly the identifiers \<open>from\<close>, \<open>from + step\<close>,
  \<open>from + 2 * step\<close>, \<dots>.
\<close>

lemma uintn_in_step_progression:
  assumes "uintn_ok u" "1 < step" "step < 2 ^ 64"
  shows "uintn_in_step u from step = Ret (\<exists>k. uval u = uval from + k * step)"
proof -
  have "(uval from \<le> uval u \<and> (uval u - uval from) mod step = 0) \<longleftrightarrow>
        (\<exists>k. uval u = uval from + k * step)"
    by (auto simp: mod_eq_0_iff_dvd dvd_def mult.commute) (metis le_add_diff_inverse)
  then show ?thesis using uintn_in_step_eq [OF assms] by simp
qed

text \<open>
  The midpoint of the binary search is the floor of the average and lies between its
  arguments, at every combination of widths (no overflow of the intermediate sum).
\<close>

lemma uintn_middle_between:
  assumes "a \<le> b"
  shows "uval (uintn_middle a b) = (uval a + uval b) div 2 \<and>
         a \<le> uintn_middle a b \<and> uintn_middle a b \<le> b"
proof -
  have "uval a \<le> uval b" using assms by simp
  then have "uval a \<le> (uval a + uval b) div 2 \<and> (uval a + uval b) div 2 \<le> uval b" by linarith
  then show ?thesis by simp
qed

end
