(* ===== verification/Std_Path.thy ===== *)
theory Std_Path
  imports Prelude
begin

text \<open>
  The part of \<open>std::path\<close>, \<open>std::fs\<close> and \<open>std::fmt\<close> that the sources use, on a Unix
  target. A \<open>str\<close> or path is the list of its bytes (a \<open>string\<close>): \<open>path_push\<close> is
  \<open>PathBuf::push\<close>, \<open>path_components\<close> is \<open>Path::components\<close>, \<open>path_extension\<close> is
  \<open>Path::extension\<close> of a file name, and \<open>lower_hex\<close> is the formatting \<open>{:x}\<close>. A directory
  tree is a \<open>node\<close>: a file with its contents or a directory with its entries in the
  order \<open>read_dir\<close> delivers them.
\<close>

section \<open>Paths\<close>

abbreviation slash :: char where "slash \<equiv> CHR ''/''"

definition path_push :: "string \<Rightarrow> string \<Rightarrow> string" where
  "path_push p s =
     (if s \<noteq> [] \<and> hd s = slash then s
      else if p = [] \<or> last p = slash then p @ s
      else p @ [slash] @ s)"

fun split_slash :: "string \<Rightarrow> string list" where
  "split_slash [] = [[]]"
| "split_slash (c # cs) =
     (if c = slash then [] # split_slash cs
      else case split_slash cs of [] \<Rightarrow> [[c]] | w # ws \<Rightarrow> (c # w) # ws)"

definition path_components :: "string \<Rightarrow> string list" where
  "path_components p =
     (case split_slash p of
        [] \<Rightarrow> []
      | w # ws \<Rightarrow>
          (if w = [] then (if ws = [] then [] else [[slash]]) else [w]) @
          filter (\<lambda>c. c \<noteq> [] \<and> c \<noteq> ''.'') ws)"

definition path_extension :: "string \<Rightarrow> string option" where
  "path_extension name =
     (let ext = rev (takeWhile (\<lambda>c. c \<noteq> CHR ''.'') (rev name));
          stem = take (length name - length ext - 1) name
      in if name = ''..'' \<or> ext = name \<or> stem = [] then None else Some ext)"

text \<open>\<open>str::strip_suffix\<close>, \<open>str::strip_prefix\<close>.\<close>

definition strip_suffix :: "string \<Rightarrow> string \<Rightarrow> string option" where
  "strip_suffix suf s =
     (if length suf \<le> length s \<and> drop (length s - length suf) s = suf
      then Some (take (length s - length suf) s) else None)"

definition strip_prefix :: "string \<Rightarrow> string \<Rightarrow> string option" where
  "strip_prefix pre s =
     (if take (length pre) s = pre then Some (drop (length pre) s) else None)"

lemma strip_suffix_append [simp]: "strip_suffix suf (s @ suf) = Some s"
  by (simp add: strip_suffix_def)

lemma strip_prefix_append [simp]: "strip_prefix pre (pre @ s) = Some s"
  by (simp add: strip_prefix_def)

text \<open>A name that can be a directory entry: non-empty, without a slash, not dot.\<close>

definition plain_name :: "string \<Rightarrow> bool" where
  "plain_name s \<longleftrightarrow> s \<noteq> [] \<and> slash \<notin> set s \<and> s \<noteq> ''.''"

lemma split_slash_not_Nil [simp]: "split_slash s \<noteq> []"
  by (induction s) (auto split: list.splits)

lemma split_slash_plain [simp]: "slash \<notin> set s \<Longrightarrow> split_slash s = [s]"
  by (induction s) auto

lemma split_slash_append:
  "split_slash (p @ slash # s) = split_slash p @ split_slash s"
  by (induction p) (auto split: list.splits)

lemma split_slash_eq_empty: "split_slash p = [[]] \<longleftrightarrow> p = []"
  by (cases p) (auto split: list.splits)

lemma path_components_Nil [simp]: "path_components [] = []"
  by (simp add: path_components_def)

lemma path_components_plain [simp]: "plain_name s \<Longrightarrow> path_components s = [s]"
  by (simp add: path_components_def plain_name_def)

lemma path_components_slash:
  assumes "plain_name s"
  shows "path_components (p @ slash # s) = path_components (p @ [slash]) @ [s]"
    and "p \<noteq> [] \<Longrightarrow> path_components (p @ [slash]) = path_components p"
proof -
  obtain w ws where ws: "split_slash p = w # ws" by (cases "split_slash p") auto
  show "path_components (p @ slash # s) = path_components (p @ [slash]) @ [s]"
    using assms ws by (simp add: path_components_def split_slash_append plain_name_def)
  show "path_components (p @ [slash]) = path_components p" if "p \<noteq> []"
    using that ws split_slash_eq_empty [of p]
    by (auto simp: path_components_def split_slash_append)
qed

lemma path_components_push [simp]:
  assumes "plain_name s"
  shows "path_components (path_push p s) = path_components p @ [s]"
proof (cases "p \<noteq> [] \<and> last p = slash")
  case True
  then obtain q where "p = q @ [slash]" by (metis append_butlast_last_id)
  with True assms show ?thesis
    by (auto simp: path_push_def path_components_slash plain_name_def dest: hd_in_set)
next
  case False
  with assms show ?thesis
    by (auto simp: path_push_def path_components_slash)
       (auto simp: plain_name_def dest: hd_in_set)
qed

section \<open>Hexadecimal formatting\<close>

definition hex_digit :: "nat \<Rightarrow> char" where
  "hex_digit d = ''0123456789abcdef'' ! d"

fun lower_hex :: "nat \<Rightarrow> string" where
  "lower_hex n = (if n < 16 then [hex_digit n] else lower_hex (n div 16) @ [hex_digit (n mod 16)])"

declare lower_hex.simps [simp del]

text \<open>\<open>{}\<close> of an unsigned integer, and \<open>str::trim_start_matches\<close> of one character.\<close>

fun decimal :: "nat \<Rightarrow> string" where
  "decimal n =
     (if n < 10 then [char_of (48 + n)] else decimal (n div 10) @ [char_of (48 + n mod 10)])"

declare decimal.simps [simp del]

definition trim_start_matches :: "char \<Rightarrow> string \<Rightarrow> string" where
  "trim_start_matches c s = dropWhile (\<lambda>x. x = c) s"

text \<open>\<open>{:0>width$}\<close>: padding with zeros on the left.\<close>

definition pad_zeros :: "nat \<Rightarrow> string \<Rightarrow> string" where
  "pad_zeros width s = replicate (width - length s) (CHR ''0'') @ s"

section \<open>Directory trees\<close>

datatype node = File bytes | Dir "(string \<times> node) list"

primrec is_dir :: "node \<Rightarrow> bool" where
  "is_dir (File _) = False"
| "is_dir (Dir _) = True"

primrec is_file :: "node \<Rightarrow> bool" where
  "is_file (File _) = True"
| "is_file (Dir _) = False"

fun lookup_node :: "node \<Rightarrow> string list \<Rightarrow> node option" where
  "lookup_node n [] = Some n"
| "lookup_node (File _) (c # cs) = None"
| "lookup_node (Dir es) (c # cs) =
     (case map_of es c of None \<Rightarrow> None | Some n \<Rightarrow> lookup_node n cs)"

end
