(* ===== verification/Codec.thy ===== *)
theory Codec
  imports Prelude
begin

text \<open>
  The contract of a self-delimiting binary format: \<open>byte_codec\<close> relates an encoder to the
  decoder that reads a value off the front of a byte string and reports how many bytes it
  consumed. What follows once and for all is that encodings are prefix-free, that a
  sequence of records determines the records, and that a strict prefix of one record
  cannot be mistaken for a complete different one. The formats of the program are instances:
  the length-prefixed integer, the WAL header and entry header, the file authentication block and the
  store header.
\<close>

locale byte_codec =
  fixes enc :: "'a \<Rightarrow> bytes"
    and dec :: "bytes \<Rightarrow> ('a \<times> nat, 'e) result run"
    and valid :: "'a \<Rightarrow> bool"
  assumes dec_enc: "valid x \<Longrightarrow> dec (enc x @ rest) = Ret (Ok (x, length (enc x)))"
begin

lemma dec_enc_exact: "valid x \<Longrightarrow> dec (enc x) = Ret (Ok (x, length (enc x)))"
  using dec_enc [of x "[]"] by simp

lemma enc_prefix_free:
  assumes "valid x" "valid y" "enc x @ r = enc y @ r'"
  shows "x = y" "r = r'"
proof -
  have "dec (enc x @ r) = dec (enc y @ r')" using assms(3) by simp
  then show "x = y" by (simp add: dec_enc assms(1,2))
  with assms(3) show "r = r'" by simp
qed

lemma enc_inj: "valid x \<Longrightarrow> valid y \<Longrightarrow> enc x = enc y \<Longrightarrow> x = y"
  using enc_prefix_free(1) [of x y "[]" "[]"] by simp

lemma concat_enc_inj:
  assumes "list_all valid xs" "list_all valid ys"
    and "\<And>x. valid x \<Longrightarrow> enc x \<noteq> []"
    and "concat (map enc xs) = concat (map enc ys)"
  shows "xs = ys"
  using assms(1,2,4)
proof (induction xs arbitrary: ys)
  case Nil
  then show ?case using assms(3) by (cases ys) auto
next
  case (Cons x xs)
  then obtain y ys' where ys: "ys = y # ys'" using assms(3) by (cases ys) auto
  then have "enc x @ concat (map enc xs) = enc y @ concat (map enc ys')"
    and "valid x" "valid y" using Cons.prems by auto
  with enc_prefix_free have "x = y" "concat (map enc xs) = concat (map enc ys')" by blast+
  with Cons ys show ?case by simp
qed

end

end
