(* ===== verification/UintN_Bytes.thy ===== *)
theory UintN_Bytes
  imports UintN Std_Path Codec
begin

text \<open>
  The external forms of a \<open>uintn\<close> (\<open>uintn-rs/src/lib.rs\<close>): the length-prefixed and the
  fixed-width little-endian encodings, the hexadecimal digits, and the path of the file
  an identifier names (\<open>to_file_path\<close>: the digits in groups of three, all but the last
  group directories).

  What the code relies on of \<open>dashu_int\<close> is \<open>ubig_bytes_ok\<close> (the byte conversions are
  inverse to reading a base-256 number) and \<open>ubig_hex_ok\<close> (\<open>{:x}\<close> prints hexadecimal
  digits), and of the crate \<open>hex\<close> it is \<open>hex_decode_ok\<close>. \<open>ext_ref\<close> is a concrete instance of
  all of them. \<open>byte_codec\<close> is the contract of an encoder with its decoder: reading back from
  the front of a longer string yields the value and the number of bytes consumed.
\<close>

section \<open>Reading and writing\<close>

definition word_from_le :: "bytes \<Rightarrow> 'a::len word" where
  "word_from_le bs = of_nat (le_nat bs)"

definition uintn_read_value_from_slice ::
  "ext \<Rightarrow> bytes \<Rightarrow> usize \<Rightarrow> (uintn, uintn_error) result" where
  "uintn_read_value_from_slice X data sz =
     (if length data < sz then Err SliceTooShort
      else if sz = 0 then Ok (U8 0)
      else if sz = 1 then Ok (U8 (hd data))
      else if sz = 2 then
        (if length data = 2 then Ok (uintn_from_u16 (word_from_le data)) else Err SliceTooShort)
      else if sz = 4 then
        (if length data = 4 then Ok (uintn_from_u32 (word_from_le data)) else Err SliceTooShort)
      else if sz = 8 then
        (if length data = 8 then Ok (uintn_from_u64 (word_from_le data)) else Err SliceTooShort)
      else if sz = 16 then
        (if length data = 16 then Ok (uintn_from_u128 (word_from_le data)) else Err SliceTooShort)
      else Ok (Big (ubig_from_le_bytes X data)))"

definition uintn_read_from_slice ::
  "ext \<Rightarrow> bytes \<Rightarrow> (uintn \<times> usize, uintn_error) result run" where
  "uintn_read_from_slice X data =
     (if length data < 8 then Ret (Err SliceTooShort)
      else do {
        let len = unat (u64_from_le_bytes (take 8 data));
        stop \<leftarrow> usize_add 8 len;
        if length data < stop then Ret (Err SliceTooShort)
        else do {
          value_slice \<leftarrow> slice data 8 stop;
          Ret (case uintn_read_value_from_slice X value_slice len of
                 Err e \<Rightarrow> Err e
               | Ok value \<Rightarrow> Ok (value, stop)) } })"

primrec uintn_size_in_bytes :: "ext \<Rightarrow> uintn \<Rightarrow> usize" where
  "uintn_size_in_bytes X (U8 _) = 1"
| "uintn_size_in_bytes X (U16 _) = 2"
| "uintn_size_in_bytes X (U32 _) = 4"
| "uintn_size_in_bytes X (U64 _) = 8"
| "uintn_size_in_bytes X (U128 _) = 16"
| "uintn_size_in_bytes X (Big v) = length (ubig_to_be_bytes X v)"

primrec uintn_le_bytes :: "ext \<Rightarrow> uintn \<Rightarrow> bytes" where
  "uintn_le_bytes X (U8 v) = le_bytes 1 (unat v)"
| "uintn_le_bytes X (U16 v) = le_bytes 2 (unat v)"
| "uintn_le_bytes X (U32 v) = le_bytes 4 (unat v)"
| "uintn_le_bytes X (U64 v) = le_bytes 8 (unat v)"
| "uintn_le_bytes X (U128 v) = le_bytes 16 (unat v)"
| "uintn_le_bytes X (Big v) = ubig_to_le_bytes X v"

text \<open>The writers extend a buffer and return the number of bytes they report.\<close>

definition uintn_write_value_to_buffer :: "ext \<Rightarrow> uintn \<Rightarrow> bytes \<Rightarrow> bytes \<times> usize" where
  "uintn_write_value_to_buffer X self buffer =
     (let buffer' = buffer @ uintn_le_bytes X self
      in (buffer', length buffer' - length buffer))"

definition uintn_value_to_bytes :: "ext \<Rightarrow> uintn \<Rightarrow> bytes" where
  "uintn_value_to_bytes X self = fst (uintn_write_value_to_buffer X self [])"

definition uintn_write_to_buffer :: "ext \<Rightarrow> uintn \<Rightarrow> bytes \<Rightarrow> bytes \<times> usize" where
  "uintn_write_to_buffer X self buffer =
     (let sz = uintn_size_in_bytes X self;
          (buffer', n) = uintn_write_value_to_buffer X self
                           (buffer @ u64_to_le_bytes (of_nat sz))
      in (buffer', 8 + n))"

definition max_of_size :: "usize \<Rightarrow> nat option" where
  "max_of_size sz =
     (if sz = 1 then Some (2 ^ 8 - 1) else if sz = 2 then Some (2 ^ 16 - 1)
      else if sz = 4 then Some (2 ^ 32 - 1) else if sz = 8 then Some (2 ^ 64 - 1)
      else if sz = 16 then Some (2 ^ 128 - 1) else None)"

definition uintn_write_value_to_buffer_with_size ::
  "ext \<Rightarrow> uintn \<Rightarrow> bytes \<Rightarrow> usize \<Rightarrow> (bytes \<times> usize, uintn_error) result" where
  "uintn_write_value_to_buffer_with_size X self buffer sz =
     (let value_bytes_len = uintn_size_in_bytes X self;
          write = (let (buffer', written_len) = uintn_write_value_to_buffer X self buffer
                   in Ok (buffer' @ replicate (sz - written_len) 0, sz))
      in if value_bytes_len > sz then
           (case max_of_size sz of
              None \<Rightarrow> Err InvalidUintNSize
            | Some max_val \<Rightarrow> if uintn_to_ubig self > max_val then Err ValueTooLarge else write)
         else write)"

definition uintn_can_fit :: "ext \<Rightarrow> uintn \<Rightarrow> u64 \<Rightarrow> bool" where
  "uintn_can_fit X self num_bytes \<longleftrightarrow> (of_nat (uintn_size_in_bytes X self) :: u64) \<le> num_bytes"

section \<open>Hexadecimal digits and file paths\<close>

definition uintn_from_hex_digits :: "ext \<Rightarrow> string \<Rightarrow> (uintn, uintn_error) result" where
  "uintn_from_hex_digits X hex_string =
     (let padded = (if length hex_string mod 2 = 1 then CHR ''0'' # hex_string else hex_string)
      in case hex_decode X padded of
           Some bytes \<Rightarrow> Ok (uintn_from_ubig (ubig_from_be_bytes X bytes))
         | None \<Rightarrow> Err InvalidHexString)"

primrec uintn_lower_hex :: "ext \<Rightarrow> uintn \<Rightarrow> string" where
  "uintn_lower_hex X (U8 v) = lower_hex (unat v)"
| "uintn_lower_hex X (U16 v) = lower_hex (unat v)"
| "uintn_lower_hex X (U32 v) = lower_hex (unat v)"
| "uintn_lower_hex X (U64 v) = lower_hex (unat v)"
| "uintn_lower_hex X (U128 v) = lower_hex (unat v)"
| "uintn_lower_hex X (Big v) = ubig_lower_hex X v"

definition div_ceil :: "nat \<Rightarrow> nat \<Rightarrow> nat" where
  "div_ceil a b = (a + b - 1) div b"

function push_chunks :: "string \<Rightarrow> string \<Rightarrow> string \<times> string" where
  "push_chunks current_path remaining =
     (if length remaining > 3
      then push_chunks (path_push current_path (take 3 remaining)) (drop 3 remaining)
      else (current_path, remaining))"
  by auto
termination by (relation "measure (\<lambda>(_, r). length r)") auto

declare push_chunks.simps [simp del]

definition uintn_to_file_path :: "ext \<Rightarrow> uintn \<Rightarrow> string \<Rightarrow> string \<Rightarrow> string" where
  "uintn_to_file_path X self base_folder extension =
     (let hex_string = uintn_lower_hex X (uintn_shrink_to_fit self);
          target_len = div_ceil (length hex_string) 3 * 3;
          padded_hex = pad_zeros target_len hex_string;
          (current_path, remaining) = push_chunks base_folder padded_hex;
          file_name = (if extension \<noteq> [] then remaining @ ''.'' @ extension else remaining)
      in path_push current_path file_name)"

section \<open>The third-party functions\<close>

fun hex_val :: "char \<Rightarrow> nat option" where
  "hex_val c =
     (let n = of_char c :: nat
      in if 48 \<le> n \<and> n \<le> 57 then Some (n - 48)
         else if 97 \<le> n \<and> n \<le> 102 then Some (n - 87)
         else if 65 \<le> n \<and> n \<le> 70 then Some (n - 55)
         else None)"

declare hex_val.simps [simp del]

fun decode_pairs :: "string \<Rightarrow> bytes option" where
  "decode_pairs [] = Some []"
| "decode_pairs [_] = None"
| "decode_pairs (c # d # cs) = do {
     h \<leftarrow> hex_val c;
     l \<leftarrow> hex_val d;
     bs \<leftarrow> decode_pairs cs;
     Some (of_nat (16 * h + l) # bs) }"

function min_le_bytes :: "nat \<Rightarrow> bytes" where
  "min_le_bytes n = (if n = 0 then [] else of_nat (n mod 256) # min_le_bytes (n div 256))"
  by auto
termination by (relation "measure id") auto

declare min_le_bytes.simps [simp del]

definition ubig_bytes_ok :: "ext \<Rightarrow> bool" where
  "ubig_bytes_ok X \<longleftrightarrow>
     (\<forall>n. le_nat (ubig_to_le_bytes X n) = n \<and> ubig_to_be_bytes X n = rev (ubig_to_le_bytes X n)) \<and>
     (\<forall>bs. ubig_from_le_bytes X bs = le_nat bs \<and> ubig_from_be_bytes X bs = le_nat (rev bs))"

definition ubig_hex_ok :: "ext \<Rightarrow> bool" where
  "ubig_hex_ok X \<longleftrightarrow> (\<forall>n. ubig_lower_hex X n = lower_hex n)"

definition hex_decode_ok :: "ext \<Rightarrow> bool" where
  "hex_decode_ok X \<longleftrightarrow> (\<forall>s. hex_decode X s = decode_pairs s)"

definition ext_ref :: ext where
  "ext_ref =
     \<lparr> ubig_to_le_bytes = min_le_bytes, ubig_to_be_bytes = (\<lambda>n. rev (min_le_bytes n)),
       ubig_from_le_bytes = le_nat, ubig_from_be_bytes = (\<lambda>bs. le_nat (rev bs)),
       ubig_lower_hex = lower_hex, hex_decode = decode_pairs,
       xxh64 = (\<lambda>bs. of_nat (le_nat bs)) \<rparr>"

section \<open>The byte encodings\<close>

lemma min_le_bytes_value: "le_nat (min_le_bytes n) = n"
proof (induction n rule: min_le_bytes.induct)
  case (1 n)
  then show ?case by (subst min_le_bytes.simps) (simp add: unat_of_nat_word)
qed

lemma ext_ref_ok [simp]: "ubig_bytes_ok ext_ref" "ubig_hex_ok ext_ref" "hex_decode_ok ext_ref"
  by (simp_all add: ext_ref_def ubig_bytes_ok_def ubig_hex_ok_def hex_decode_ok_def
      min_le_bytes_value)

lemma unat_word_from_le:
  "length bs = n \<Longrightarrow> 256 ^ n = (2 :: nat) ^ LENGTH('a) \<Longrightarrow>
   unat (word_from_le bs :: 'a::len word) = le_nat bs"
  using le_nat_bound [of bs] by (simp add: word_from_le_def unat_of_nat_word)

lemma le_nat_uintn_le_bytes [simp]: "ubig_bytes_ok X \<Longrightarrow> le_nat (uintn_le_bytes X u) = uval u"
  by (cases u) (auto simp: ubig_bytes_ok_def unat_bounds intro!: le_nat_le_bytes_id
      simp del: le_bytes.simps intro: less_trans [OF unat_bound_8])

lemma length_uintn_le_bytes [simp]:
  "ubig_bytes_ok X \<Longrightarrow> length (uintn_le_bytes X u) = uintn_size_in_bytes X u"
  by (cases u) (simp_all add: ubig_bytes_ok_def)

lemma read_value_uval:
  assumes "ubig_bytes_ok X"
  shows "\<exists>u. uintn_read_value_from_slice X bs (length bs) = Ok u \<and> uval u = le_nat bs \<and>
           (length bs \<le> 2 \<or> length bs \<in> {4, 8, 16} \<longrightarrow> canonical u)"
proof -
  consider "length bs = 0" | "length bs = 1" | "length bs \<in> {2, 4, 8, 16}"
    | "length bs > 2" "length bs \<notin> {4, 8, 16}"
    by (cases "length bs \<le> 2") (auto simp: le_less Suc_le_eq numeral_2_eq_2 less_Suc_eq)
  then show ?thesis
    using assms
    by cases (auto simp: uintn_read_value_from_slice_def unat_word_from_le ubig_bytes_ok_def
        canonical_def [of "U8 _"] length_Suc_conv)
qed

lemma canonical_Big_long:
  assumes "ubig_bytes_ok X" "canonical (Big n)"
  shows "16 < length (ubig_to_le_bytes X n)"
proof (rule ccontr)
  assume "\<not> 16 < length (ubig_to_le_bytes X n)"
  then have "(256::nat) ^ length (ubig_to_le_bytes X n) \<le> 256 ^ 16"
    by (intro power_increasing) auto
  with le_nat_bound [of "ubig_to_le_bytes X n"] assms show False
    by (simp add: ubig_bytes_ok_def canonical_def)
qed

lemma read_value_le_bytes:
  assumes "ubig_bytes_ok X" "canonical u"
  shows "uintn_read_value_from_slice X (uintn_le_bytes X u) (uintn_size_in_bytes X u) = Ok u"
proof -
  obtain w where w: "uintn_read_value_from_slice X (uintn_le_bytes X u) (uintn_size_in_bytes X u) = Ok w"
    "uval w = uval u"
    "uintn_size_in_bytes X u \<le> 2 \<or> uintn_size_in_bytes X u \<in> {4, 8, 16} \<longrightarrow> canonical w"
    using read_value_uval [OF assms(1), of "uintn_le_bytes X u"] assms by auto
  show ?thesis
  proof (cases u)
    case (Big n)
    have "16 < length (ubig_to_le_bytes X n)"
      using canonical_Big_long assms Big by blast
    with Big assms show ?thesis
      by (auto simp: uintn_read_value_from_slice_def ubig_bytes_ok_def)
  qed (use w assms in \<open>auto intro: canonical_inj\<close>)
qed

text \<open>
  The length-prefixed encoding as an instance of \<open>byte_codec\<close>: canonical values whose
  length leaves room for the prefix in a \<open>usize\<close>.
\<close>

definition uintn_encodable :: "ext \<Rightarrow> uintn \<Rightarrow> bool" where
  "uintn_encodable X u \<longleftrightarrow> canonical u \<and> uintn_size_in_bytes X u < 2 ^ 64 - 8"

definition uintn_enc :: "ext \<Rightarrow> uintn \<Rightarrow> bytes" where
  "uintn_enc X u = fst (uintn_write_to_buffer X u [])"

lemma uintn_write_to_buffer_eq:
  "ubig_bytes_ok X \<Longrightarrow>
   uintn_write_to_buffer X u buffer = (buffer @ uintn_enc X u, length (uintn_enc X u))"
  by (simp add: uintn_enc_def uintn_write_to_buffer_def uintn_write_value_to_buffer_def Let_def)

lemma uintn_enc_eq:
  "uintn_enc X u = u64_to_le_bytes (of_nat (uintn_size_in_bytes X u)) @ uintn_le_bytes X u"
  by (simp add: uintn_enc_def uintn_write_to_buffer_def uintn_write_value_to_buffer_def Let_def)

lemma uintn_read_enc:
  assumes "ubig_bytes_ok X" "uintn_encodable X u"
  shows "uintn_read_from_slice X (uintn_enc X u @ rest) = Ret (Ok (u, length (uintn_enc X u)))"
  using assms read_value_le_bytes [of X u]
  by (simp add: uintn_read_from_slice_def uintn_enc_eq uintn_encodable_def usize_add_def
      unat_of_nat_word Let_def slice_def)

interpretation uintn_codec:
  byte_codec "uintn_enc X" "uintn_read_from_slice X" "\<lambda>u. ubig_bytes_ok X \<and> uintn_encodable X u"
  for X
  by unfold_locales (simp add: uintn_read_enc)

text \<open>The fixed-width encoding: the value, padded with zeros to the given size.\<close>

lemma size_le_of_canonical:
  assumes "canonical u" "max_of_size sz = Some m" "uval u \<le> m"
  shows "uintn_size_in_bytes X u \<le> sz"
  using assms by (cases u) (auto simp: canonical_def max_of_size_def split: if_splits)

lemma write_with_size_ok:
  assumes "ubig_bytes_ok X" "uintn_size_in_bytes X u \<le> sz"
  shows "uintn_write_value_to_buffer_with_size X u buffer sz =
         Ok (buffer @ uintn_le_bytes X u @ replicate (sz - uintn_size_in_bytes X u) 0, sz)"
  using assms
  by (simp add: uintn_write_value_to_buffer_with_size_def uintn_write_value_to_buffer_def Let_def)

lemma le_nat_padded: "le_nat (bs @ replicate n 0) = le_nat bs"
  by (simp add: le_nat_append)

lemma read_value_sized:
  assumes "ubig_bytes_ok X" "max_of_size sz = Some m" "length bs = sz"
  obtains w where "uintn_read_value_from_slice X bs sz = Ok w" "uval w = le_nat bs" "canonical w"
proof -
  have "length bs \<le> 2 \<or> length bs \<in> {4, 8, 16}"
    using assms by (auto simp: max_of_size_def split: if_splits)
  with read_value_uval [OF assms(1), of bs] assms(3) that show thesis by blast
qed

lemma read_value_padded:
  assumes "ubig_bytes_ok X" "max_of_size sz = Some m" "canonical u" "uval u \<le> m"
  shows "uintn_read_value_from_slice X
           (uintn_le_bytes X u @ replicate (sz - uintn_size_in_bytes X u) 0) sz = Ok u"
proof -
  let ?bs = "uintn_le_bytes X u @ replicate (sz - uintn_size_in_bytes X u) 0"
  have len: "length ?bs = sz"
    using assms size_le_of_canonical [OF assms(3,2,4), of X] by simp
  obtain w where w: "uintn_read_value_from_slice X ?bs sz = Ok w" "uval w = uval u" "canonical w"
    using read_value_sized [OF assms(1,2) len] assms(1) by (auto simp: le_nat_padded)
  then show ?thesis using assms(3) canonical_inj by blast
qed

definition uintn_fixed :: "ext \<Rightarrow> usize \<Rightarrow> uintn \<Rightarrow> bytes" where
  "uintn_fixed X sz u = uintn_le_bytes X u @ replicate (sz - uintn_size_in_bytes X u) 0"

lemma max_of_size_eq: "sz \<in> {1, 2, 4, 8, 16} \<Longrightarrow> max_of_size sz = Some (256 ^ sz - 1)"
  by (auto simp: max_of_size_def)

lemma uintn_fixed:
  assumes "ubig_bytes_ok X" "canonical u" "sz \<in> {1, 2, 4, 8, 16}" "uval u < 256 ^ sz"
  shows "uintn_write_value_to_buffer_with_size X u buffer sz = Ok (buffer @ uintn_fixed X sz u, sz)"
    and "length (uintn_fixed X sz u) = sz"
    and "uintn_read_value_from_slice X (uintn_fixed X sz u) sz = Ok u"
proof -
  have m: "max_of_size sz = Some (256 ^ sz - 1)" "uval u \<le> 256 ^ sz - 1"
    using max_of_size_eq [OF assms(3)] assms(4) by simp_all
  have sz: "uintn_size_in_bytes X u \<le> sz" by (rule size_le_of_canonical [OF assms(2) m])
  show "length (uintn_fixed X sz u) = sz" using assms(1) sz by (simp add: uintn_fixed_def)
  show "uintn_write_value_to_buffer_with_size X u buffer sz = Ok (buffer @ uintn_fixed X sz u, sz)"
    using write_with_size_ok [OF assms(1) sz] by (simp add: uintn_fixed_def)
  show "uintn_read_value_from_slice X (uintn_fixed X sz u) sz = Ok u"
    using read_value_padded [OF assms(1) m(1) assms(2) m(2)] by (simp add: uintn_fixed_def)
qed

section \<open>Hexadecimal round trip\<close>

definition hex_nat :: "string \<Rightarrow> nat" where
  "hex_nat s = foldl (\<lambda>acc c. 16 * acc + the (hex_val c)) 0 s"

definition hex_string :: "string \<Rightarrow> bool" where
  "hex_string s \<longleftrightarrow> (\<forall>c \<in> set s. hex_val c \<noteq> None)"

lemma hex_foldl:
  "foldl (\<lambda>acc c. 16 * acc + the (hex_val c)) a s = a * 16 ^ length s + hex_nat s"
proof (induction s arbitrary: a)
  case (Cons c s)
  show ?case
    using Cons [of "16 * a + the (hex_val c)"] Cons [of "the (hex_val c)"]
    by (simp add: hex_nat_def algebra_simps)
qed (simp add: hex_nat_def)

lemma hex_nat_Nil [simp]: "hex_nat [] = 0"
  by (simp add: hex_nat_def)

lemma hex_nat_Cons: "hex_nat (c # s) = the (hex_val c) * 16 ^ length s + hex_nat s"
  using hex_foldl [of "the (hex_val c)" s] by (simp add: hex_nat_def)

lemma hex_nat_append: "hex_nat (s @ t) = hex_nat s * 16 ^ length t + hex_nat t"
  using hex_foldl [of "hex_nat s" t] by (simp add: hex_nat_def)

lemma hex_val_0 [simp]: "hex_val (CHR ''0'') = Some 0"
  by (simp add: hex_val.simps)

lemma hex_val_bound: "hex_val c = Some d \<Longrightarrow> d < 16"
  by (auto simp: hex_val.simps Let_def split: if_splits)

lemma hex_nat_bound: "hex_string s \<Longrightarrow> hex_nat s < 16 ^ length s"
proof (induction s)
  case (Cons c s)
  then obtain d where d: "hex_val c = Some d" "d < 16"
    using hex_val_bound by (fastforce simp: hex_string_def)
  have "hex_nat (c # s) < d * 16 ^ length s + 16 ^ length s"
    using Cons d by (simp add: hex_nat_Cons hex_string_def)
  also have "\<dots> \<le> 16 * 16 ^ length s"
    using d(2) by (metis Suc_leI add.commute mult_Suc mult_le_mono1)
  finally show ?case by simp
qed simp

lemma hex_val_digit [simp]: "d < 16 \<Longrightarrow> hex_val (hex_digit d) = Some d"
  by (auto simp: less_Suc_eq numeral_eq_Suc hex_digit_def hex_val.simps)

lemma decode_pairs_hex:
  assumes "hex_string s" "even (length s)"
  shows "\<exists>bs. decode_pairs s = Some bs \<and> le_nat (rev bs) = hex_nat s \<and> length s = 2 * length bs"
  using assms
proof (induction s rule: decode_pairs.induct)
  case (3 c d cs)
  then obtain h l where hl: "hex_val c = Some h" "hex_val d = Some l" "h < 16" "l < 16"
    using hex_val_bound by (fastforce simp: hex_string_def)
  obtain bs where bs: "decode_pairs cs = Some bs" "le_nat (rev bs) = hex_nat cs"
    "length cs = 2 * length bs"
    using 3(1) [OF hl(1,2)] 3(2,3) by (auto simp: hex_string_def)
  have "unat (of_nat (16 * h + l) :: u8) = 16 * h + l"
    using hl by (intro unat_of_nat_word) simp
  moreover have "(16::nat) ^ length cs = 256 ^ length bs"
    by (simp add: bs(3) power_mult)
  ultimately show ?case using hl bs
    by (simp add: hex_nat_Cons le_nat_append algebra_simps
        del: of_nat_add of_nat_mult)
qed auto

lemma from_hex_digits_ok:
  assumes "ubig_bytes_ok X" "hex_decode_ok X" "hex_string s"
  shows "uintn_from_hex_digits X s = Ok (uintn_from_ubig (hex_nat s))"
proof -
  let ?p = "if length s mod 2 = 1 then CHR ''0'' # s else s"
  have "hex_string ?p" "even (length ?p)" "hex_nat ?p = hex_nat s"
    using assms(3) by (auto simp: hex_string_def hex_nat_Cons)
  from decode_pairs_hex [OF this(1,2)] this(3) show ?thesis
    using assms by (auto simp: uintn_from_hex_digits_def ubig_bytes_ok_def hex_decode_ok_def)
qed

lemma decode_pairs_not_hex: "\<not> hex_string s \<Longrightarrow> decode_pairs s = None"
proof (induction s rule: decode_pairs.induct)
  case (3 c d cs)
  then show ?case
    by (cases "hex_val c"; cases "hex_val d") (auto simp: hex_string_def)
qed (auto simp: hex_string_def)

lemma from_hex_digits_err:
  assumes "hex_decode_ok X" "\<not> hex_string s"
  shows "uintn_from_hex_digits X s = Err InvalidHexString"
proof -
  have "\<not> hex_string (if length s mod 2 = 1 then CHR ''0'' # s else s)"
    using assms(2) by (auto simp: hex_string_def)
  then show ?thesis
    using assms(1) decode_pairs_not_hex
    by (simp add: uintn_from_hex_digits_def hex_decode_ok_def Let_def split: option.splits)
qed

lemma lower_hex_digits: "hex_string (lower_hex n)"
proof (induction n rule: lower_hex.induct)
  case (1 n)
  then show ?case
    by (subst lower_hex.simps) (auto simp: hex_string_def)
qed

lemma hex_nat_lower_hex [simp]: "hex_nat (lower_hex n) = n"
proof (induction n rule: lower_hex.induct)
  case (1 n)
  then show ?case
    by (subst lower_hex.simps) (simp add: hex_nat_append hex_nat_Cons)
qed

section \<open>File paths\<close>

text \<open>
  \<open>chunks3\<close> cuts a digit string into groups of three; \<open>to_file_path\<close> appends the groups of
  the padded digits to the base path, the last one with the extension.
\<close>

fun chunks3 :: "string \<Rightarrow> string list" where
  "chunks3 (a # b # c # d # s) = [a, b, c] # chunks3 (d # s)"
| "chunks3 s = [s]"

definition padded_hex :: "nat \<Rightarrow> string" where
  "padded_hex n = pad_zeros (div_ceil (length (lower_hex n)) 3 * 3) (lower_hex n)"

definition ext_suffix :: "string \<Rightarrow> string" where
  "ext_suffix extension = (if extension \<noteq> [] then ''.'' @ extension else [])"

lemma push_chunks_eq:
  "push_chunks p s = (foldl path_push p (butlast (chunks3 s)), last (chunks3 s))"
proof (induction s arbitrary: p rule: chunks3.induct)
  case (1 a b c d s)
  have "chunks3 (d # s) \<noteq> []" by (cases s rule: chunks3.cases) auto
  with 1 show ?case by (subst push_chunks.simps) simp
qed (subst push_chunks.simps, simp)+

lemma chunks3_not_Nil [simp]: "chunks3 s \<noteq> []"
  by (cases s rule: chunks3.cases) auto

lemma concat_chunks3 [simp]: "concat (chunks3 s) = s"
  by (induction s rule: chunks3.induct) auto

lemma set_chunks3: "w \<in> set (chunks3 s) \<Longrightarrow> set w \<subseteq> set s"
  using concat_chunks3 [of s] by (metis Union_upper image_eqI set_concat set_map list.set_map)

lemma length_chunks3: "3 dvd length s \<Longrightarrow> s \<noteq> [] \<Longrightarrow> w \<in> set (chunks3 s) \<Longrightarrow> length w = 3"
proof (induction s rule: chunks3.induct)
  case (1 a b c d s)
  have "3 dvd length (d # s)" using 1(2) by (simp add: dvd_def) presburger
  with 1 show ?case by auto
qed (auto dest: dvd_imp_le)

lemma uintn_lower_hex_uval: "ubig_hex_ok X \<Longrightarrow> uintn_lower_hex X u = lower_hex (uval u)"
  by (cases u) (simp_all add: ubig_hex_ok_def)

lemma uintn_to_file_path_eq:
  assumes "ubig_hex_ok X"
  shows "uintn_to_file_path X u base extension =
    path_push (foldl path_push base (butlast (chunks3 (padded_hex (uval u)))))
      (last (chunks3 (padded_hex (uval u))) @ ext_suffix extension)"
  using assms
  by (simp add: uintn_to_file_path_def push_chunks_eq uintn_lower_hex_uval padded_hex_def
      ext_suffix_def Let_def)

lemma hex_nat_replicate_0: "hex_nat (replicate n (CHR ''0'')) = 0"
  by (induction n) (auto simp: hex_nat_Cons)

lemma hex_nat_padded [simp]: "hex_nat (padded_hex n) = n"
  by (simp add: padded_hex_def pad_zeros_def hex_nat_append hex_nat_replicate_0)

lemma hex_string_padded: "hex_string (padded_hex n)"
  using lower_hex_digits [of n] by (auto simp: padded_hex_def pad_zeros_def hex_string_def)

lemma lower_hex_not_Nil [simp]: "lower_hex n \<noteq> []"
  by (subst lower_hex.simps) simp

lemma length_padded: "3 dvd length (padded_hex n)" "padded_hex n \<noteq> []"
  by (auto simp: padded_hex_def pad_zeros_def div_ceil_def)

lemma hex_not_special: "hex_val c \<noteq> None \<Longrightarrow> c \<noteq> slash \<and> c \<noteq> CHR ''.''"
  by (auto simp: hex_val.simps)

lemma chunks3_padded:
  assumes "w \<in> set (chunks3 (padded_hex n))"
  shows "length w = 3" "hex_string w" "plain_name w"
proof -
  show len: "length w = 3" by (rule length_chunks3 [OF length_padded assms])
  show hex: "hex_string w"
    using set_chunks3 [OF assms] hex_string_padded [of n] by (auto simp: hex_string_def)
  show "plain_name w"
    using len hex hex_not_special by (fastforce simp: plain_name_def hex_string_def)
qed

lemma path_components_foldl_push:
  "list_all plain_name ws \<Longrightarrow> path_components (foldl path_push p ws) = path_components p @ ws"
  by (induction ws arbitrary: p) auto

lemma plain_name_with_ext:
  "plain_name w \<Longrightarrow> hd w \<noteq> CHR ''.'' \<Longrightarrow> slash \<notin> set extension \<Longrightarrow>
   plain_name (w @ ext_suffix extension)"
  by (cases w) (auto simp: plain_name_def ext_suffix_def)

text \<open>
  The components of the path of an identifier: the base path, then the groups of digits,
  the extension on the last.
\<close>

lemma to_file_path_components:
  assumes "ubig_hex_ok X" "slash \<notin> set extension"
  shows "path_components (uintn_to_file_path X u base extension) =
    path_components base @ butlast (chunks3 (padded_hex (uval u))) @
    [last (chunks3 (padded_hex (uval u))) @ ext_suffix extension]"
proof -
  let ?ws = "chunks3 (padded_hex (uval u))"
  have all: "list_all plain_name (butlast ?ws)"
    by (auto simp: list_all_iff dest!: in_set_butlastD intro: chunks3_padded(3))
  have last: "plain_name (last ?ws)" "hex_string (last ?ws)"
    using chunks3_padded [of "last ?ws" "uval u"] by simp_all
  then have "hd (last ?ws) \<noteq> CHR ''.''"
    using hex_not_special by (auto simp: plain_name_def hex_string_def dest: hd_in_set)
  with plain_name_with_ext last assms(2) have "plain_name (last ?ws @ ext_suffix extension)"
    by blast
  then show ?thesis
    using all by (simp add: uintn_to_file_path_eq [OF assms(1)] path_components_foldl_push)
qed

lemma to_file_path_same:
  assumes "ubig_hex_ok X" "slash \<notin> set extension"
    and "uintn_to_file_path X u base extension = uintn_to_file_path X v base extension"
  shows "uval u = uval v"
proof -
  let ?c = "\<lambda>u. chunks3 (padded_hex (uval u))"
  have "butlast (?c u) @ [last (?c u) @ ext_suffix extension] =
        butlast (?c v) @ [last (?c v) @ ext_suffix extension]"
    using to_file_path_components [OF assms(1,2), of u base]
      to_file_path_components [OF assms(1,2), of v base] assms(3) by (metis same_append_eq)
  then have "butlast (?c u) = butlast (?c v)" "last (?c u) = last (?c v)" by simp_all
  then have "?c u = ?c v" by (metis append_butlast_last_id chunks3_not_Nil)
  then have "hex_nat (concat (?c u)) = hex_nat (concat (?c v))" by (rule arg_cong)
  then show ?thesis by simp
qed

section \<open>Properties\<close>

text \<open>
  C21. The length-prefixed encoding round-trips: whatever follows it in the buffer,
  \<open>read_from_slice\<close> returns the value that \<open>write_to_buffer\<close> wrote and the number of bytes it
  reported, without panicking.
\<close>

theorem uintn_write_read:
  assumes "ubig_bytes_ok X" "uintn_encodable X u"
    and "uintn_write_to_buffer X u buffer = (buffer', n)"
  shows "uintn_read_from_slice X (drop (length buffer) buffer' @ rest) = Ret (Ok (u, n))"
  using assms by (auto simp: uintn_write_to_buffer_eq uintn_read_enc)

theorem uintn_write_read_witness:
  "uintn_read_from_slice ext_ref
     (drop (length [7]) (fst (uintn_write_to_buffer ext_ref (U16 1000) [7])) @ [9]) =
   Ret (Ok (U16 1000, 10))"
  using uintn_write_read [of ext_ref "U16 1000" "[7]" _ _ "[9]", OF _ _ surjective_pairing]
  by (simp add: uintn_encodable_def canonical_def uintn_write_to_buffer_def
      uintn_write_value_to_buffer_def Let_def)

text \<open>
  The fixed-width encoding of the entry headers: for a data size of 1, 2, 4, 8 or 16 bytes a
  canonical value that fits is written as exactly that many bytes, which read back as the value; a
  value that does not fit is refused and nothing is written.
\<close>

lemma uintn_write_with_size_read:
  assumes "ubig_bytes_ok X" "canonical u" "sz \<in> {1, 2, 4, 8, 16}"
  shows "if uval u < 256 ^ sz
    then \<exists>bs. uintn_write_value_to_buffer_with_size X u buffer sz = Ok (buffer @ bs, sz) \<and>
           length bs = sz \<and> uintn_read_value_from_slice X bs sz = Ok u
    else uintn_write_value_to_buffer_with_size X u buffer sz = Err ValueTooLarge"
proof (cases "uval u < 256 ^ sz")
  case True
  with uintn_fixed [OF assms True] show ?thesis by auto
next
  case False
  have "(256::nat) ^ sz - 1 < 256 ^ sz" by simp
  with False have "256 ^ sz - 1 < uval u" by linarith
  moreover have "sz < uintn_size_in_bytes X u"
  proof (rule ccontr)
    assume "\<not> sz < uintn_size_in_bytes X u"
    then have "(256::nat) ^ length (uintn_le_bytes X u) \<le> 256 ^ sz"
      using assms(1) by (intro power_increasing) simp_all
    with le_nat_bound [of "uintn_le_bytes X u"] have "le_nat (uintn_le_bytes X u) < 256 ^ sz"
      by (rule less_le_trans)
    then show False using assms(1) False by simp
  qed
  ultimately show ?thesis using False max_of_size_eq [OF assms(3)]
    by (simp add: uintn_write_value_to_buffer_with_size_def)
qed

text \<open>
  Distinct identifiers have distinct files: below one base folder and with one
  extension, two values have the same path only when they are the same number.
\<close>

lemma uintn_to_file_path_inj:
  assumes "ubig_hex_ok X" "slash \<notin> set extension"
    and "uintn_to_file_path X u base extension = uintn_to_file_path X v base extension"
  shows "uval u = uval v"
  by (rule to_file_path_same [OF assms])

text \<open>
  C27. A corrupted length prefix is a panic, not an error: when the eight bytes of the length encode a
  number within eight of \<open>u64::MAX\<close>, \<open>bytes_read + len\<close> overflows.
\<close>

theorem uintn_read_length_overflow:
  assumes "2 ^ 64 - 8 \<le> unat len"
  shows "uintn_read_from_slice X (u64_to_le_bytes len @ rest) = Panic"
  using assms by (simp add: uintn_read_from_slice_def usize_add_def)

theorem uintn_read_length_overflow_witness:
  "uintn_read_from_slice ext_ref (u64_to_le_bytes 0xFFFFFFFFFFFFFFFF @ [1, 2]) = Panic"
  using uintn_read_length_overflow [of "0xFFFFFFFFFFFFFFFF" ext_ref "[1, 2]"] by simp

end
