(* ===== verification/UintN_Paths.thy ===== *)
theory UintN_Paths
  imports UintN_Bytes
begin

text \<open>
  The search for the files of a queue (\<open>uintn-rs/src/paths.rs\<close>): the identifier a path stands for
  (\<open>path_to_id\<close>), the recursive search for the greatest and the smallest identifier below a
  directory, and the list of all identifiers.

  The two searches are instances of one contract, the locale \<open>id_search\<close>: a directory's
  result is the best candidate among its files and the results of its subdirectories,
  compared by the identifier relative to that directory. The comparison is right when the files
  below each subdirectory have the same depth (\<open>id_root\<close>), which is the case for identifiers
  below \<open>16 ^ 6\<close>; a tree with a longer identifier shows the difference.
\<close>

section \<open>Model\<close>

datatype path_error = PathIo string | PathUintN uintn_error | NoFilesFound

definition component_hex :: "string \<Rightarrow> string \<Rightarrow> string" where
  "component_hex extension component =
     (case strip_suffix (''.'' @ extension) component of
        Some stripped \<Rightarrow> stripped
      | None \<Rightarrow> component)"

definition path_hex :: "string \<Rightarrow> string \<Rightarrow> string" where
  "path_hex extension path = concat (map (component_hex extension) (path_components path))"

definition path_to_id :: "ext \<Rightarrow> string \<Rightarrow> string \<Rightarrow> (uintn, path_error) result" where
  "path_to_id X path extension =
     map_err PathUintN (uintn_from_hex_digits X (path_hex extension path))"

text \<open>\<open>Iterator::max_by\<close> (the last of several maxima) and \<open>min_by\<close> (the first minimum).\<close>

fun max_by :: "('a \<Rightarrow> 'a \<Rightarrow> ordering) \<Rightarrow> 'a list \<Rightarrow> 'a option" where
  "max_by compare [] = None"
| "max_by compare (x # xs) =
     Some (foldl (\<lambda>m y. if compare m y = Greater then m else y) x xs)"

fun min_by :: "('a \<Rightarrow> 'a \<Rightarrow> ordering) \<Rightarrow> 'a list \<Rightarrow> 'a option" where
  "min_by compare [] = None"
| "min_by compare (x # xs) =
     Some (foldl (\<lambda>m y. if compare m y = Greater then y else m) x xs)"

definition id_or_zero :: "ext \<Rightarrow> string \<Rightarrow> string \<Rightarrow> uintn" where
  "id_or_zero X extension path = unwrap_or (path_to_id X path extension) uintn_zero"

definition compare_ids :: "ext \<Rightarrow> string \<Rightarrow> string \<Rightarrow> string \<Rightarrow> ordering" where
  "compare_ids X extension a b = uintn_cmp (id_or_zero X extension a) (id_or_zero X extension b)"

text \<open>
  The two iterator chains: the results of the subdirectories, prefixed with the name of the
  subdirectory, and the names of the files with the extension.
\<close>

definition dir_candidates ::
  "(node \<Rightarrow> (string, path_error) result) \<Rightarrow> (string \<times> node) list \<Rightarrow> string list" where
  "dir_candidates search entries =
     List.map_filter (\<lambda>(dir_name, n).
       map_option (\<lambda>sub_path. path_push (path_push [] dir_name) sub_path) (ok_opt (search n)))
     (filter (\<lambda>(_, n). is_dir n) entries)"

definition file_candidates :: "string \<Rightarrow> (string \<times> node) list \<Rightarrow> string list" where
  "file_candidates extension entries =
     map fst (filter (\<lambda>(name, n). is_file n \<and> path_extension name = Some extension) entries)"

lemma dir_candidates_cong [fundef_cong]:
  assumes "es = es'" "\<And>name n. (name, n) \<in> set es' \<Longrightarrow> f n = g n"
  shows "dir_candidates f es = dir_candidates g es'"
  unfolding dir_candidates_def List.map_filter_def assms(1)
  by (intro map_cong filter_cong) (auto simp: assms(2))

lemma node_size_entry: "(name, n) \<in> set es \<Longrightarrow> size n < Suc (size_list (size_prod (\<lambda>_. 0) size) es)"
  by (induction es) auto

function find_max_id_recursive :: "ext \<Rightarrow> string \<Rightarrow> node \<Rightarrow> (string, path_error) result" where
  "find_max_id_recursive X extension (File _) = Err (PathIo ''Not a directory'')"
| "find_max_id_recursive X extension (Dir entries) =
     (let max_from_dirs = max_by (compare_ids X extension)
            (dir_candidates (\<lambda>n. find_max_id_recursive X extension n) entries);
          max_from_files = max_by (compare_ids X extension) (file_candidates extension entries)
      in case (max_from_dirs, max_from_files) of
           (Some p1, Some p2) \<Rightarrow>
             Ok (if id_or_zero X extension p1 \<ge> id_or_zero X extension p2 then p1 else p2)
         | (Some p, None) \<Rightarrow> Ok p
         | (None, Some p) \<Rightarrow> Ok p
         | (None, None) \<Rightarrow> Err NoFilesFound)"
  by pat_completeness auto
termination
  by (relation "measure (\<lambda>(_, _, n). size n)") (auto dest: node_size_entry)

function find_min_id_recursive :: "ext \<Rightarrow> string \<Rightarrow> node \<Rightarrow> (string, path_error) result" where
  "find_min_id_recursive X extension (File _) = Err (PathIo ''Not a directory'')"
| "find_min_id_recursive X extension (Dir entries) =
     (let min_from_dirs = min_by (compare_ids X extension)
            (dir_candidates (\<lambda>n. find_min_id_recursive X extension n) entries);
          min_from_files = min_by (compare_ids X extension) (file_candidates extension entries)
      in case (min_from_dirs, min_from_files) of
           (Some p1, Some p2) \<Rightarrow>
             Ok (if id_or_zero X extension p1 \<le> id_or_zero X extension p2 then p1 else p2)
         | (Some p, None) \<Rightarrow> Ok p
         | (None, Some p) \<Rightarrow> Ok p
         | (None, None) \<Rightarrow> Err NoFilesFound)"
  by pat_completeness auto
termination
  by (relation "measure (\<lambda>(_, _, n). size n)") (auto dest: node_size_entry)

text \<open>The base path is the node it resolves to, \<open>None\<close> when it does not exist.\<close>

definition find_max_id :: "ext \<Rightarrow> node option \<Rightarrow> string \<Rightarrow> (uintn, path_error) result" where
  "find_max_id X base_path extension =
     (case base_path of
        None \<Rightarrow> Err (PathIo ''Base path does not exist'')
      | Some n \<Rightarrow>
          (case find_max_id_recursive X extension n of
             Err e \<Rightarrow> Err e
           | Ok relative_path \<Rightarrow>
               map_err PathUintN (uintn_from_hex_digits X (path_hex extension relative_path))))"

definition find_min_id :: "ext \<Rightarrow> node option \<Rightarrow> string \<Rightarrow> (uintn, path_error) result" where
  "find_min_id X base_path extension =
     (case base_path of
        None \<Rightarrow> Err (PathIo ''Base path does not exist'')
      | Some n \<Rightarrow>
          (case find_min_id_recursive X extension n of
             Err e \<Rightarrow> Err e
           | Ok relative_path \<Rightarrow>
               map_err PathUintN (uintn_from_hex_digits X (path_hex extension relative_path))))"

text \<open>
  \<open>get_files_ids\<close> walks the tree with the crate \<open>walkdir\<close>: its entries are an argument, an
  entry that could not be read is \<open>None\<close>, any other its path and whether it is a file.
\<close>

definition path_strip_prefix :: "string \<Rightarrow> string \<Rightarrow> string list option" where
  "path_strip_prefix base path =
     (let b = path_components base; c = path_components path
      in if take (length b) c = b then Some (drop (length b) c) else None)"

definition walk_entry_id :: "ext \<Rightarrow> string \<Rightarrow> string \<Rightarrow> (string \<times> bool) option \<Rightarrow> uintn option" where
  "walk_entry_id X base_path extension entry = do {
     (path, file) \<leftarrow> entry;
     if file \<and> path_components path \<noteq> [] \<and>
        path_extension (last (path_components path)) = Some extension
     then do {
       relative_path \<leftarrow> path_strip_prefix base_path path;
       ok_opt (uintn_from_hex_digits X (concat (map (component_hex extension) relative_path))) }
     else None }"

definition get_files_ids ::
  "ext \<Rightarrow> (string \<times> bool) option list \<Rightarrow> string \<Rightarrow> string \<Rightarrow> (uintn list, path_error) result" where
  "get_files_ids X walk base_path extension =
     Ok (sort_key uval (List.map_filter (walk_entry_id X base_path extension) walk))"

section \<open>Relative paths and their digits\<close>

definition rel_path :: "string \<Rightarrow> bool" where
  "rel_path p \<longleftrightarrow> list_all plain_name (split_slash p)"

definition hex3 :: "string \<Rightarrow> bool" where
  "hex3 w \<longleftrightarrow> length w = 3 \<and> hex_string w"

lemma hex3_plain: "hex3 w \<Longrightarrow> plain_name w \<and> CHR ''.'' \<notin> set w \<and> slash \<notin> set w"
  using hex_not_special
  by (fastforce simp: hex3_def plain_name_def hex_string_def)

lemma rel_path_components: "rel_path p \<Longrightarrow> path_components p = split_slash p"
  by (cases "split_slash p")
     (auto simp: rel_path_def path_components_def plain_name_def list_all_iff)

lemma rel_path_plain: "plain_name w \<Longrightarrow> rel_path w"
  by (simp add: rel_path_def plain_name_def)

lemma rel_path_push:
  assumes "plain_name w" "rel_path p"
  shows "rel_path (path_push (path_push [] w) p)"
    and "path_components (path_push (path_push [] w) p) = w # path_components p"
proof -
  have w: "w \<noteq> []" "last w \<noteq> slash" "hd w \<noteq> slash" "split_slash w = [w]"
    using assms(1) by (auto simp: plain_name_def dest: last_in_set hd_in_set)
  have "p = [] \<or> hd p \<noteq> slash"
    using assms(2) by (cases p) (auto simp: rel_path_def plain_name_def split: list.splits if_splits)
  then have eq: "path_push (path_push [] w) p = w @ slash # p"
    using w by (auto simp: path_push_def)
  show r: "rel_path (path_push (path_push [] w) p)"
    using assms w by (simp add: eq rel_path_def split_slash_append)
  show "path_components (path_push (path_push [] w) p) = w # path_components p"
    unfolding rel_path_components [OF r] rel_path_components [OF assms(2)]
    using w by (simp add: eq split_slash_append)
qed

lemma component_hex_dir: "CHR ''.'' \<notin> set w \<Longrightarrow> component_hex e w = w"
proof -
  assume w: "CHR ''.'' \<notin> set w"
  have "strip_suffix (''.'' @ e) w = None"
  proof (rule ccontr)
    assume "strip_suffix (''.'' @ e) w \<noteq> None"
    then have "drop (length w - length (''.'' @ e)) w = ''.'' @ e"
      by (auto simp: strip_suffix_def split: if_splits)
    then have "CHR ''.'' \<in> set (drop (length w - length (''.'' @ e)) w)" by simp
    with w show False by (meson in_set_dropD)
  qed
  then show ?thesis by (simp add: component_hex_def)
qed

lemma component_hex_file: "component_hex e (w @ ''.'' @ e) = w"
  unfolding component_hex_def by (subst strip_suffix_append) simp

lemma path_hex_push:
  "hex3 w \<Longrightarrow> rel_path p \<Longrightarrow> path_hex e (path_push (path_push [] w) p) = w @ path_hex e p"
  using hex3_plain [of w] by (simp add: path_hex_def rel_path_push component_hex_dir)

lemma path_extension_file:
  "hex3 w \<Longrightarrow> CHR ''.'' \<notin> set e \<Longrightarrow> path_extension (w @ ''.'' @ e) = Some e"
proof -
  assume w: "hex3 w" and e: "CHR ''.'' \<notin> set e"
  have "takeWhile (\<lambda>c. c \<noteq> CHR ''.'') (rev e @ CHR ''.'' # rev w) = rev e"
    using e by (subst takeWhile_append2) auto
  then have "rev (takeWhile (\<lambda>c. c \<noteq> CHR ''.'') (rev (w @ ''.'' @ e))) = e" by simp
  moreover have "w \<noteq> []" using w by (auto simp: hex3_def)
  moreover have "w @ ''.'' @ e \<noteq> ''..''"
    using hex3_plain [OF w] w by (cases w) (auto simp: hex3_def)
  ultimately show ?thesis by (simp add: path_extension_def Let_def)
qed

text \<open>
  The path of an identifier leads back to the identifier.
\<close>

lemma path_hex_to_file_path:
  assumes "ubig_hex_ok X" "slash \<notin> set extension" "extension \<noteq> []"
  shows "path_hex extension (uintn_to_file_path X u [] extension) = padded_hex (uval u)"
proof -
  let ?ws = "chunks3 (padded_hex (uval u))"
  have w: "w \<in> set ?ws \<Longrightarrow> component_hex extension w = w" for w
    using chunks3_padded [of w] hex3_plain [of w] by (simp add: hex3_def component_hex_dir)
  have "map (component_hex extension) (butlast ?ws) = butlast ?ws"
    using w in_set_butlastD by (metis map_idI)
  moreover have "component_hex extension (last ?ws @ ext_suffix extension) = last ?ws"
    using assms(3) component_hex_file by (simp add: ext_suffix_def)
  ultimately have "path_hex extension (uintn_to_file_path X u [] extension) =
      concat (butlast ?ws @ [last ?ws])"
    using assms by (simp add: path_hex_def to_file_path_components)
  then show ?thesis by simp
qed

lemma path_to_id_to_file_path:
  assumes "ubig_hex_ok X" "ubig_bytes_ok X" "hex_decode_ok X"
    and "slash \<notin> set extension" "extension \<noteq> []"
  shows "path_to_id X (uintn_to_file_path X u [] extension) extension =
         Ok (uintn_from_ubig (uval u))"
  using from_hex_digits_ok [OF assms(2,3) hex_string_padded]
  by (simp add: path_to_id_def path_hex_to_file_path [OF assms(1,4,5)])

section \<open>The recursive searches\<close>

text \<open>
  \<open>dir_hexes\<close> are the digit strings of all files with the extension below a node.
  \<open>id_dir e d\<close> holds of a directory all of whose files lie \<open>d\<close> directories deep, named by groups
  of three digits; \<open>id_root e\<close> of a directory with files and such subdirectories.
\<close>

function dir_hexes :: "string \<Rightarrow> node \<Rightarrow> string list" where
  "dir_hexes e (File _) = []"
| "dir_hexes e (Dir es) =
     concat (map (\<lambda>(name, n). map ((@) name) (dir_hexes e n)) es) @
     map (component_hex e) (file_candidates e es)"
  by pat_completeness auto
termination
  by (relation "measure (\<lambda>(_, n). size n)") (auto dest: node_size_entry)

definition id_file :: "string \<Rightarrow> string \<times> node \<Rightarrow> bool" where
  "id_file e = (\<lambda>(name, n). is_file n \<and> hex3 (component_hex e name) \<and>
     component_hex e name @ ''.'' @ e = name)"

fun id_dir :: "string \<Rightarrow> nat \<Rightarrow> node \<Rightarrow> bool" where
  "id_dir e d (File _) = False"
| "id_dir e 0 (Dir es) = list_all (id_file e) es"
| "id_dir e (Suc d) (Dir es) = (\<forall>(name, n) \<in> set es. hex3 name \<and> id_dir e d n)"

fun id_root :: "string \<Rightarrow> node \<Rightarrow> bool" where
  "id_root e (File _) = False"
| "id_root e (Dir es) =
     (\<forall>(name, n) \<in> set es. id_file e (name, n) \<or>
        hex3 name \<and> list_ex (\<lambda>d. id_dir e d n) [0..<size n])"

lemma file_candidates_id_file:
  assumes "CHR ''.'' \<notin> set e" "slash \<notin> set e" "id_file e (name, n)"
  shows "path_extension name = Some e" "is_file n" "plain_name name"
proof -
  let ?w = "component_hex e name"
  have w: "hex3 ?w" "?w @ ''.'' @ e = name" "is_file n"
    using assms(3) by (auto simp: id_file_def)
  show "path_extension name = Some e"
    using path_extension_file [OF w(1) assms(1)] w(2) by simp
  show "is_file n" by (fact w)
  have "?w \<noteq> []" using w(1) by (auto simp: hex3_def)
  then have "plain_name (?w @ ''.'' @ e)"
    using hex3_plain [OF w(1)] assms(2)
    by (cases ?w) (auto simp: plain_name_def)
  then show "plain_name name" using w(2) by simp
qed

lemma set_dir_candidates:
  "q \<in> set (dir_candidates search es) \<longleftrightarrow>
   (\<exists>name n p. (name, n) \<in> set es \<and> is_dir n \<and> search n = Ok p \<and>
      q = path_push (path_push [] name) p)"
proof -
  have ok: "(ok_opt r = Some p) = (r = Ok p)" for r :: "(string, path_error) result" and p
    by (cases r) auto
  show ?thesis
    by (force simp: dir_candidates_def List.map_filter_def ok image_iff split: prod.splits)
qed

lemma set_file_candidates:
  "q \<in> set (file_candidates e es) \<longleftrightarrow>
   (\<exists>n. (q, n) \<in> set es \<and> is_file n \<and> path_extension q = Some e)"
  by (force simp: file_candidates_def)

lemma set_dir_hexes:
  "h \<in> set (dir_hexes e (Dir es)) \<longleftrightarrow>
   (\<exists>name n h'. (name, n) \<in> set es \<and> h' \<in> set (dir_hexes e n) \<and> h = name @ h') \<or>
   (\<exists>name \<in> set (file_candidates e es). h = component_hex e name)"
  by (auto; force)

lemma is_dir_not_file: "is_dir n \<Longrightarrow> \<not> is_file n"
  by (cases n) auto

lemma dir_hexes_file: "is_file n \<Longrightarrow> dir_hexes e n = []"
  by (cases n) auto

lemma id_dir_hexes:
  "id_dir e d n \<Longrightarrow> h \<in> set (dir_hexes e n) \<Longrightarrow> length h = 3 * Suc d \<and> hex_string h"
proof (induction e d n arbitrary: h rule: id_dir.induct)
  case (2 e es)
  then obtain name n where "(name, n) \<in> set es" "id_file e (name, n)" "h = component_hex e name"
    by (fastforce simp: set_dir_hexes set_file_candidates list_all_iff id_file_def
        dir_hexes_file)
  then show ?case by (auto simp: id_file_def hex3_def)
next
  case (3 e d es)
  have "is_file n \<Longrightarrow> \<not> id_dir e d n" for n by (cases n) auto
  with 3(2,3) obtain name n h' where "(name, n) \<in> set es" "h' \<in> set (dir_hexes e n)" "h = name @ h'"
    by (fastforce simp: set_dir_hexes set_file_candidates)
  moreover from this 3(2) have "hex3 name" "id_dir e d n" by auto
  ultimately show ?case using 3(1) [of _ name n h'] by (auto simp: hex3_def hex_string_def)
qed auto

text \<open>
  The contract of a search: the best candidate, by the identifiers relative to the directory.
\<close>

locale id_search =
  fixes X :: ext and e :: string
    and search :: "node \<Rightarrow> (string, path_error) result"
    and better :: "nat \<Rightarrow> nat \<Rightarrow> bool"
  assumes search_none:
      "dir_candidates search es @ file_candidates e es = [] \<Longrightarrow> search (Dir es) = Err NoFilesFound"
    and search_best:
      "dir_candidates search es @ file_candidates e es \<noteq> [] \<Longrightarrow>
       \<exists>p \<in> set (dir_candidates search es @ file_candidates e es). search (Dir es) = Ok p \<and>
         (\<forall>q \<in> set (dir_candidates search es @ file_candidates e es).
            better (uval (id_or_zero X e p)) (uval (id_or_zero X e q)))"
    and better_refl: "better a a"
    and better_trans: "better a b \<Longrightarrow> better b c \<Longrightarrow> better a c"
    and better_add: "better a b \<Longrightarrow> better (k + a) (k + b)"
begin

definition finds_best :: "node \<Rightarrow> bool" where
  "finds_best n \<longleftrightarrow>
     (if dir_hexes e n = [] then search n = Err NoFilesFound
      else \<exists>p. search n = Ok p \<and> rel_path p \<and> path_hex e p \<in> set (dir_hexes e n) \<and>
             (\<forall>h \<in> set (dir_hexes e n). better (hex_nat (path_hex e p)) (hex_nat h)))"

definition good_entry :: "string \<Rightarrow> node \<Rightarrow> bool" where
  "good_entry name n \<longleftrightarrow> id_file e (name, n) \<or>
     hex3 name \<and> is_dir n \<and> finds_best n \<and>
     (\<exists>l. \<forall>h \<in> set (dir_hexes e n). length h = l \<and> hex_string h)"

lemma good_entry_candidate:
  assumes e: "CHR ''.'' \<notin> set e" "slash \<notin> set e"
    and good: "\<And>name n. (name, n) \<in> set es \<Longrightarrow> good_entry name n"
    and q: "q \<in> set (dir_candidates search es @ file_candidates e es)"
  shows "rel_path q" "path_hex e q \<in> set (dir_hexes e (Dir es))" "hex_string (path_hex e q)"
proof -
  consider (dir) name n p where "(name, n) \<in> set es" "is_dir n" "search n = Ok p"
      "q = path_push (path_push [] name) p"
    | (leaf) n where "(q, n) \<in> set es" "is_file n" "path_extension q = Some e"
    using q by (auto simp: set_dir_candidates set_file_candidates)
  then have "rel_path q \<and> path_hex e q \<in> set (dir_hexes e (Dir es)) \<and> hex_string (path_hex e q)"
  proof cases
    case dir
    then have n: "hex3 name" "finds_best n" "\<forall>h \<in> set (dir_hexes e n). hex_string h"
      using good [of name n] is_dir_not_file by (auto simp: good_entry_def id_file_def)
    then have p: "rel_path p" "path_hex e p \<in> set (dir_hexes e n)"
      using dir(3) by (auto simp: finds_best_def split: if_splits)
    have q: "path_hex e q = name @ path_hex e p" "rel_path q"
      using dir(4) path_hex_push [OF n(1) p(1)] hex3_plain [OF n(1)] rel_path_push(1) p(1) by simp_all
    moreover have "name @ path_hex e p \<in> set (dir_hexes e (Dir es))"
      unfolding set_dir_hexes using dir(1) p(2) by blast
    moreover have "hex_string (name @ path_hex e p)"
      using n(1,3) p(2) by (auto simp: hex_string_def hex3_def)
    ultimately show ?thesis by simp
  next
    case leaf
    then have f: "id_file e (q, n)"
      using good [of q n] is_dir_not_file by (auto simp: good_entry_def)
    then have "plain_name q" using file_candidates_id_file e by blast
    then have "rel_path q" "path_hex e q = component_hex e q"
      by (simp_all add: rel_path_plain path_hex_def)
    moreover have "component_hex e q \<in> set (dir_hexes e (Dir es))"
      unfolding set_dir_hexes using leaf set_file_candidates by blast
    moreover have "hex_string (component_hex e q)"
      using f by (simp add: id_file_def hex3_def)
    ultimately show ?thesis by simp
  qed
  then show "rel_path q" "path_hex e q \<in> set (dir_hexes e (Dir es))" "hex_string (path_hex e q)"
    by auto
qed

lemma good_entry_covered:
  assumes e: "CHR ''.'' \<notin> set e" "slash \<notin> set e"
    and good: "\<And>name n. (name, n) \<in> set es \<Longrightarrow> good_entry name n"
    and h: "h \<in> set (dir_hexes e (Dir es))"
  shows "\<exists>q \<in> set (dir_candidates search es @ file_candidates e es).
           better (hex_nat (path_hex e q)) (hex_nat h)"
proof -
  consider (dir) name n h' where "(name, n) \<in> set es" "h' \<in> set (dir_hexes e n)" "h = name @ h'"
    | (leaf) name where "name \<in> set (file_candidates e es)" "h = component_hex e name"
    using h by (auto simp: set_dir_hexes)
  then show ?thesis
  proof cases
    case dir
    then have n: "hex3 name" "finds_best n" "is_dir n"
      using good [of name n] dir_hexes_file by (auto simp: good_entry_def id_file_def)
    obtain l where l: "\<forall>h \<in> set (dir_hexes e n). length h = l"
      using good [of name n] dir dir_hexes_file by (auto simp: good_entry_def id_file_def)
    obtain p where p: "search n = Ok p" "rel_path p" "path_hex e p \<in> set (dir_hexes e n)"
      "better (hex_nat (path_hex e p)) (hex_nat h')"
      using n(2) dir(2) by (auto simp: finds_best_def split: if_splits)
    have "better (hex_nat (name @ path_hex e p)) (hex_nat h)"
      using p(3,4) l dir by (simp add: hex_nat_append better_add)
    moreover have "path_push (path_push [] name) p \<in> set (dir_candidates search es)"
      using dir(1) n(3) p(1) by (auto simp: set_dir_candidates)
    ultimately show ?thesis using path_hex_push [OF n(1) p(2), of e]
      by (intro bexI [of _ "path_push (path_push [] name) p"]) simp_all
  next
    case leaf
    then obtain n where "(name, n) \<in> set es" "is_file n" by (auto simp: set_file_candidates)
    then have "id_file e (name, n)"
      using good [of name n] by (cases n) (auto simp: good_entry_def)
    then have "plain_name name" using file_candidates_id_file e by blast
    then have "path_hex e name = h" using leaf(2) by (simp add: path_hex_def)
    with leaf(1) show ?thesis using better_refl by auto
  qed
qed

lemma finds_best_Dir:
  assumes laws: "ubig_bytes_ok X" "hex_decode_ok X"
    and e: "CHR ''.'' \<notin> set e" "slash \<notin> set e"
    and good: "\<And>name n. (name, n) \<in> set es \<Longrightarrow> good_entry name n"
  shows "finds_best (Dir es)"
proof -
  let ?cands = "dir_candidates search es @ file_candidates e es"
  have key: "uval (id_or_zero X e q) = hex_nat (path_hex e q)" if "q \<in> set ?cands" for q
    using good_entry_candidate(3) [OF e good that]
    by (simp add: id_or_zero_def path_to_id_def from_hex_digits_ok [OF laws])
  show ?thesis
  proof (cases "?cands = []")
    case True
    then have "dir_hexes e (Dir es) = []"
    proof -
      have "h \<notin> set (dir_hexes e (Dir es))" for h
        using good_entry_covered [OF e good, of es h] True by auto
      then show ?thesis by (cases "dir_hexes e (Dir es)") (auto simp del: dir_hexes.simps)
    qed
    with search_none [OF True] show ?thesis by (simp add: finds_best_def)
  next
    case False
    obtain p where p: "p \<in> set ?cands" "search (Dir es) = Ok p"
      "\<forall>q \<in> set ?cands. better (uval (id_or_zero X e p)) (uval (id_or_zero X e q))"
      using search_best [OF False] by blast
    have "better (hex_nat (path_hex e p)) (hex_nat h)" if mem: "h \<in> set (dir_hexes e (Dir es))" for h
    proof -
      obtain q where q: "q \<in> set ?cands" "better (hex_nat (path_hex e q)) (hex_nat h)"
        using good_entry_covered [OF e good mem] by blast
      with p(1,3) key have "better (hex_nat (path_hex e p)) (hex_nat (path_hex e q))" by metis
      with q(2) show ?thesis by (rule better_trans [rotated])
    qed
    moreover have "rel_path p" "path_hex e p \<in> set (dir_hexes e (Dir es))"
      using good_entry_candidate(1,2) [OF e good p(1)] by blast+
    ultimately show ?thesis using p(2) by (auto simp: finds_best_def simp del: dir_hexes.simps)
  qed
qed

lemma finds_best_id_dir:
  assumes laws: "ubig_bytes_ok X" "hex_decode_ok X"
    and e: "CHR ''.'' \<notin> set e" "slash \<notin> set e"
  shows "id_dir e d n \<Longrightarrow> finds_best n \<and> is_dir n"
proof (induction d arbitrary: n)
  case 0
  then obtain es where "n = Dir es" "list_all (id_file e) es" by (cases n) auto
  then show ?case
    using finds_best_Dir [OF laws e, of es] by (auto simp: good_entry_def list_all_iff)
next
  case (Suc d)
  then obtain es where es: "n = Dir es" by (cases n) auto
  have "good_entry name m" if "(name, m) \<in> set es" for name m
  proof -
    have m: "hex3 name" "id_dir e d m" using Suc.prems that es by auto
    then show ?thesis using Suc.IH id_dir_hexes [OF m(2)] by (auto simp: good_entry_def)
  qed
  with es show ?case using finds_best_Dir [OF laws e, of es] by simp
qed

lemma finds_best_id_root:
  assumes laws: "ubig_bytes_ok X" "hex_decode_ok X"
    and e: "CHR ''.'' \<notin> set e" "slash \<notin> set e" and root: "id_root e n"
  shows "finds_best n"
proof -
  obtain es where es: "n = Dir es" using root by (cases n) auto
  have "good_entry name m" if mem: "(name, m) \<in> set es" for name m
  proof (cases "id_file e (name, m)")
    case False
    then obtain d where "hex3 name" "id_dir e d m"
      using root mem es by (force simp: list_ex_iff)
    then show ?thesis
      using finds_best_id_dir [OF laws e] id_dir_hexes by (auto simp: good_entry_def)
  qed (simp add: good_entry_def)
  with es show ?thesis using finds_best_Dir [OF laws e, of es] by simp
qed

end

text \<open>The two searches of the code satisfy the contract.\<close>

lemma max_by_key:
  assumes "\<And>a b. compare a b = cmp (key a) (key b :: nat)"
  shows "xs \<noteq> [] \<Longrightarrow> \<exists>m \<in> set xs. max_by compare xs = Some m \<and> (\<forall>y \<in> set xs. key y \<le> key m)"
proof (induction xs rule: rev_induct)
  case (snoc y xs)
  show ?case
  proof (cases "xs = []")
    case False
    then obtain m where m: "m \<in> set xs" "max_by compare xs = Some m" "\<forall>y \<in> set xs. key y \<le> key m"
      using snoc by auto
    from False have "max_by compare (xs @ [y]) = Some (if compare m y = Greater then m else y)"
      using m(2) by (cases xs) auto
    moreover have "compare m y = Greater \<longleftrightarrow> key y < key m" by (simp add: assms cmp_def)
    ultimately show ?thesis using m by (cases "key y < key m") auto
  qed simp
qed simp

lemma min_by_key:
  assumes "\<And>a b. compare a b = cmp (key a) (key b :: nat)"
  shows "xs \<noteq> [] \<Longrightarrow> \<exists>m \<in> set xs. min_by compare xs = Some m \<and> (\<forall>y \<in> set xs. key m \<le> key y)"
proof (induction xs rule: rev_induct)
  case (snoc y xs)
  show ?case
  proof (cases "xs = []")
    case False
    then obtain m where m: "m \<in> set xs" "min_by compare xs = Some m" "\<forall>y \<in> set xs. key m \<le> key y"
      using snoc by auto
    from False have "min_by compare (xs @ [y]) = Some (if compare m y = Greater then y else m)"
      using m(2) by (cases xs) auto
    moreover have "compare m y = Greater \<longleftrightarrow> key y < key m" by (simp add: assms cmp_def)
    ultimately show ?thesis using m by (cases "key y < key m") auto
  qed simp
qed simp

lemma compare_ids_key:
  "compare_ids X e a b = cmp (uval (id_or_zero X e a)) (uval (id_or_zero X e b))"
  by (simp add: compare_ids_def uintn_cmp_uval cmp_def)

lemmas max_by_ids = max_by_key [of "compare_ids X e" "\<lambda>p. uval (id_or_zero X e p)" for X e,
    OF compare_ids_key]
lemmas min_by_ids = min_by_key [of "compare_ids X e" "\<lambda>p. uval (id_or_zero X e p)" for X e,
    OF compare_ids_key]

interpretation max_search: id_search X e "find_max_id_recursive X e" "(\<ge>)" for X e
proof unfold_locales
  fix es
  let ?ds = "dir_candidates (find_max_id_recursive X e) es" and ?fs = "file_candidates e es"
  show "find_max_id_recursive X e (Dir es) = Err NoFilesFound" if "?ds @ ?fs = []"
    using that by simp
  assume "?ds @ ?fs \<noteq> []"
  then show "\<exists>p \<in> set (?ds @ ?fs). find_max_id_recursive X e (Dir es) = Ok p \<and>
      (\<forall>q \<in> set (?ds @ ?fs). uval (id_or_zero X e p) \<ge> uval (id_or_zero X e q))"
    using max_by_ids [of ?ds X e] max_by_ids [of ?fs X e]
    by (cases "?ds = []"; cases "?fs = []") (auto, (meson le_trans nat_le_linear)+)
qed auto

interpretation min_search: id_search X e "find_min_id_recursive X e" "(\<le>)" for X e
proof unfold_locales
  fix es
  let ?ds = "dir_candidates (find_min_id_recursive X e) es" and ?fs = "file_candidates e es"
  show "find_min_id_recursive X e (Dir es) = Err NoFilesFound" if "?ds @ ?fs = []"
    using that by simp
  assume "?ds @ ?fs \<noteq> []"
  then show "\<exists>p \<in> set (?ds @ ?fs). find_min_id_recursive X e (Dir es) = Ok p \<and>
      (\<forall>q \<in> set (?ds @ ?fs). uval (id_or_zero X e p) \<le> uval (id_or_zero X e q))"
    using min_by_ids [of ?ds X e] min_by_ids [of ?fs X e]
    by (cases "?ds = []"; cases "?fs = []") (auto, (meson le_trans nat_le_linear)+)
qed auto

section \<open>The searches are exact on trees of uniform depth\<close>

lemma max_of_best:
  assumes "h \<in> set hs" "\<forall>x \<in> set hs. hex_nat h \<ge> hex_nat x"
  shows "hex_nat h = Max (hex_nat ` set hs)"
  using assms by (intro Max_eqI [symmetric]) auto

lemma min_of_best:
  assumes "h \<in> set hs" "\<forall>x \<in> set hs. hex_nat h \<le> hex_nat x"
  shows "hex_nat h = Min (hex_nat ` set hs)"
  using assms by (intro Min_eqI [symmetric]) auto

lemma id_root_hexes: "id_root e n \<Longrightarrow> h \<in> set (dir_hexes e n) \<Longrightarrow> hex_string h"
proof (cases n)
  case (Dir es)
  assume root: "id_root e n" and h: "h \<in> set (dir_hexes e n)"
  from h Dir consider (sub) name m h' where "(name, m) \<in> set es" "h' \<in> set (dir_hexes e m)" "h = name @ h'"
    | (leaf) name m where "(name, m) \<in> set es" "is_file m" "h = component_hex e name"
    using set_file_candidates [of _ e es] unfolding Dir set_dir_hexes by blast
  then show ?thesis
  proof cases
    case sub
    then obtain d where "hex3 name" "id_dir e d m"
      using root Dir dir_hexes_file by (force simp: list_ex_iff id_file_def)
    with sub id_dir_hexes show ?thesis by (fastforce simp: hex3_def hex_string_def)
  next
    case leaf
    have "\<not> id_dir e d m" for d using leaf(2) by (cases m) auto
    then show ?thesis using leaf root Dir by (force simp: id_file_def hex3_def list_ex_iff)
  qed
qed simp

text \<open>
  A tree with the identifiers \<open>0x1000\<close>, \<open>0x100a\<close>, \<open>0xfff\<close>, \<open>0x3e8\<close>, and one with \<open>0x1002\<close> and
  \<open>0x1000001\<close>, whose directory \<open>001\<close> has files at two depths.
\<close>

definition two_level_tree :: node where
  "two_level_tree =
     Dir [(''fff.wal'', File []), (''001'', Dir [(''000.wal'', File []), (''00a.wal'', File [])]),
          (''3e8.wal'', File [])]"

definition three_level_tree :: node where
  "three_level_tree =
     Dir [(''001'', Dir [(''002.wal'', File []), (''000'', Dir [(''001.wal'', File [])])])]"

lemmas tree_eval = find_max_id_def dir_candidates_def List.map_filter_def file_candidates_def
  path_extension_def id_or_zero_def path_to_id_def from_hex_digits_ok hex_string_def hex_val.simps
  path_hex_def path_push_def path_components_def component_hex_def strip_suffix_def hex_nat_def
  hex3_def id_file_def

lemma two_level_tree_hexes:
  "dir_hexes ''wal'' two_level_tree = [''001000'', ''00100a'', ''fff'', ''3e8'']"
  by (simp add: two_level_tree_def tree_eval)

lemma two_level_tree_root: "id_root ''wal'' two_level_tree"
  by (simp add: two_level_tree_def tree_eval upt_conv_Cons)

lemma find_max_id_finds:
  assumes "ubig_bytes_ok X" "hex_decode_ok X" "CHR ''.'' \<notin> set e" "slash \<notin> set e" "id_root e n"
  shows "find_max_id X (Some n) e =
    (if dir_hexes e n = [] then Err NoFilesFound
     else Ok (uintn_from_ubig (Max (hex_nat ` set (dir_hexes e n)))))"
proof (cases "dir_hexes e n = []")
  case True
  then show ?thesis using max_search.finds_best_id_root [OF assms]
    by (simp add: max_search.finds_best_def find_max_id_def)
next
  case False
  then obtain p where p: "find_max_id_recursive X e n = Ok p" "path_hex e p \<in> set (dir_hexes e n)"
    "hex_nat (path_hex e p) = Max (hex_nat ` set (dir_hexes e n))"
    using max_search.finds_best_id_root [OF assms] max_of_best
    by (auto simp: max_search.finds_best_def)
  with False show ?thesis
    using from_hex_digits_ok [OF assms(1,2) id_root_hexes [OF assms(5) p(2)]]
    by (simp add: find_max_id_def)
qed

section \<open>Properties\<close>

text \<open>
  C20. The path of an identifier leads back to it: parsing the path that \<open>to_file_path\<close> builds
  yields the number, in canonical representation.
\<close>

theorem to_file_path_roundtrip:
  assumes "ubig_hex_ok X" "ubig_bytes_ok X" "hex_decode_ok X"
    and "slash \<notin> set extension" "extension \<noteq> []" "canonical u"
  shows "path_to_id X (uintn_to_file_path X u [] extension) extension = Ok u"
  using path_to_id_to_file_path [OF assms(1-5)] canonical_from_uval [OF assms(6)] by simp

theorem to_file_path_roundtrip_witness:
  "path_to_id ext_ref (uintn_to_file_path ext_ref (U16 4097) [] ''wal'') ''wal'' = Ok (U16 4097)"
  using to_file_path_roundtrip [of ext_ref "''wal''" "U16 4097"] by (simp add: canonical_def)

text \<open>
  C19. The greatest identifier of a queue directory is found: the value is the maximum of the
  identifiers of all files with the extension below the directory; a directory without
  such files reports \<open>NoFilesFound\<close>.
\<close>

theorem find_max_id_correct:
  assumes "ubig_bytes_ok X" "hex_decode_ok X" "CHR ''.'' \<notin> set e" "slash \<notin> set e" "id_root e n"
  shows "find_max_id X (Some n) e =
    (if dir_hexes e n = [] then Err NoFilesFound
     else Ok (uintn_from_ubig (Max (hex_nat ` set (dir_hexes e n)))))"
  by (rule find_max_id_finds [OF assms])

theorem find_max_id_correct_witness:
  "find_max_id ext_ref (Some two_level_tree) ''wal'' = Ok (uintn_from_ubig 0x100a)"
  using find_max_id_correct [of ext_ref "''wal''" two_level_tree] two_level_tree_root
  by (simp add: two_level_tree_hexes hex_nat_def hex_val.simps)

text \<open>
  The smallest identifier of a queue directory is found in the same way: the minimum of the
  identifiers of all files with the extension, \<open>NoFilesFound\<close> when there are none.
\<close>

lemma find_min_id_correct:
  assumes "ubig_bytes_ok X" "hex_decode_ok X" "CHR ''.'' \<notin> set e" "slash \<notin> set e" "id_root e n"
  shows "find_min_id X (Some n) e =
    (if dir_hexes e n = [] then Err NoFilesFound
     else Ok (uintn_from_ubig (Min (hex_nat ` set (dir_hexes e n)))))"
proof (cases "dir_hexes e n = []")
  case True
  then show ?thesis using min_search.finds_best_id_root [OF assms]
    by (simp add: min_search.finds_best_def find_min_id_def)
next
  case False
  then obtain p where p: "find_min_id_recursive X e n = Ok p" "path_hex e p \<in> set (dir_hexes e n)"
    "hex_nat (path_hex e p) = Min (hex_nat ` set (dir_hexes e n))"
    using min_search.finds_best_id_root [OF assms] min_of_best
    by (auto simp: min_search.finds_best_def)
  with False show ?thesis
    using from_hex_digits_ok [OF assms(1,2) id_root_hexes [OF assms(5) p(2)]]
    by (simp add: find_min_id_def)
qed

text \<open>
  On a tree with an identifier of seven digits or more the search can return a smaller
  identifier than the greatest: candidates are compared by the digits relative to their
  directory, so \<open>001/002\<close> wins over \<open>001/000/001\<close> although \<open>0x1002 < 0x1000001\<close>.
\<close>

lemma find_max_id_mixed_depth:
  "find_max_id ext_ref (Some three_level_tree) ''wal'' = Ok (uintn_from_ubig 0x1002) \<and>
   hex_nat ` set (dir_hexes ''wal'' three_level_tree) = {0x1000001, 0x1002}"
  by (simp add: three_level_tree_def tree_eval)

end
