(* ===== verification/Types.thy ===== *)
theory Types
  imports UintN_Bytes
begin

text \<open>
  The types the crates share (\<open>normfs-types/src/lib.rs\<close>): queue identifiers and the paths and
  cloud keys derived from them, the resolver that makes a queue path absolute, the
  compression and encryption tags of the store format, read positions and read entries, and
  the ranges of \<open>uintn-rs/src/containers.rs\<close>.
\<close>

section \<open>Queue identifiers\<close>

record queue_id =
  qid_path :: string

definition queue_id_as_str :: "queue_id \<Rightarrow> string" where
  "queue_id_as_str self = qid_path self"

definition queue_id_to_key_derivation_base :: "queue_id \<Rightarrow> string" where
  "queue_id_to_key_derivation_base self = qid_path self"

definition queue_id_to_cloud_queue_path :: "queue_id \<Rightarrow> string \<Rightarrow> string" where
  "queue_id_to_cloud_queue_path self base_prefix =
     base_prefix @ trim_start_matches slash (qid_path self) @ ''/''"

definition queue_id_to_fs_path :: "queue_id \<Rightarrow> string \<Rightarrow> string" where
  "queue_id_to_fs_path self prefix =
     (let relative = trim_start_matches slash (qid_path self) in path_push prefix relative)"

definition queue_id_to_store_dir :: "queue_id \<Rightarrow> string \<Rightarrow> string" where
  "queue_id_to_store_dir self base = path_push (queue_id_to_fs_path self base) ''store''"

definition queue_id_to_store_path :: "ext \<Rightarrow> queue_id \<Rightarrow> string \<Rightarrow> uintn \<Rightarrow> string" where
  "queue_id_to_store_path X self base file_id =
     uintn_to_file_path X file_id (queue_id_to_store_dir self base) ''store''"

definition queue_id_to_wal_dir :: "queue_id \<Rightarrow> string \<Rightarrow> string" where
  "queue_id_to_wal_dir self base = path_push (queue_id_to_fs_path self base) ''wal''"

definition queue_id_to_wal_path :: "ext \<Rightarrow> queue_id \<Rightarrow> string \<Rightarrow> uintn \<Rightarrow> string" where
  "queue_id_to_wal_path X self base file_id =
     uintn_to_file_path X file_id (queue_id_to_wal_dir self base) ''wal''"

definition queue_id_to_cloud_key :: "ext \<Rightarrow> queue_id \<Rightarrow> string \<Rightarrow> uintn \<Rightarrow> string" where
  "queue_id_to_cloud_key X self base_prefix file_id =
     (let queue_path = trim_start_matches slash (qid_path self);
          file_path = trim_start_matches slash (uintn_to_file_path X file_id [] ''store'')
      in if base_prefix = [] then queue_path @ ''/'' @ file_path
         else base_prefix @ queue_path @ ''/'' @ file_path)"

record queue_id_resolver =
  qr_instance_id :: string

definition queue_id_resolver_new :: "string \<Rightarrow> queue_id_resolver" where
  "queue_id_resolver_new instance_id = \<lparr> qr_instance_id = instance_id \<rparr>"

definition queue_id_resolver_resolve :: "queue_id_resolver \<Rightarrow> string \<Rightarrow> queue_id" where
  "queue_id_resolver_resolve self path =
     (let absolute_path =
            (if path \<noteq> [] \<and> hd path = slash then path
             else ''/'' @ qr_instance_id self @ ''/'' @ path)
      in \<lparr> qid_path = absolute_path \<rparr>)"

section \<open>Sources, tags, positions, entries\<close>

datatype data_source = NoSource | Cloud | DiskStore | DiskWal | Memory

datatype compression_type = NoCompression | Gzip | Xz | Zstd

definition compression_type_try_from :: "u64 \<Rightarrow> (compression_type, string) result" where
  "compression_type_try_from value =
     (if value = 0 then Ok NoCompression
      else if value = 1 then Ok Gzip
      else if value = 2 then Ok Xz
      else if value = 3 then Ok Zstd
      else Err (''Unsupported compression type: '' @ decimal (unat value)))"

primrec compression_type_to_u64 :: "compression_type \<Rightarrow> u64" where
  "compression_type_to_u64 NoCompression = 0"
| "compression_type_to_u64 Gzip = 1"
| "compression_type_to_u64 Xz = 2"
| "compression_type_to_u64 Zstd = 3"

datatype encryption_type = NoEncryption | Aes

definition encryption_type_try_from :: "u64 \<Rightarrow> (encryption_type, string) result" where
  "encryption_type_try_from value =
     (if value = 0 then Ok NoEncryption
      else if value = 1 then Ok Aes
      else Err (''Unsupported encryption type: '' @ decimal (unat value)))"

primrec encryption_type_to_u64 :: "encryption_type \<Rightarrow> u64" where
  "encryption_type_to_u64 NoEncryption = 0"
| "encryption_type_to_u64 Aes = 1"

datatype read_position = Absolute uintn | ShiftFromTail uintn

primrec read_position_offset :: "read_position \<Rightarrow> uintn" where
  "read_position_offset (Absolute offset) = offset"
| "read_position_offset (ShiftFromTail offset) = offset"

primrec read_position_is_absolute :: "read_position \<Rightarrow> bool" where
  "read_position_is_absolute (Absolute _) = True"
| "read_position_is_absolute (ShiftFromTail _) = False"

primrec read_position_is_tail_relative :: "read_position \<Rightarrow> bool" where
  "read_position_is_tail_relative (Absolute _) = False"
| "read_position_is_tail_relative (ShiftFromTail _) = True"

record read_entry =
  re_id :: uintn
  re_data :: bytes
  re_source :: data_source

definition read_entry_new :: "uintn \<Rightarrow> bytes \<Rightarrow> data_source \<Rightarrow> read_entry" where
  "read_entry_new i d src = \<lparr> re_id = i, re_data = d, re_source = src \<rparr>"

record uintn_range =
  rng_start :: uintn
  rng_end :: uintn

lemma compression_type_roundtrip [simp]:
  "compression_type_try_from (compression_type_to_u64 c) = Ok c"
  by (cases c) (simp_all add: compression_type_try_from_def)

lemma encryption_type_roundtrip [simp]:
  "encryption_type_try_from (encryption_type_to_u64 e) = Ok e"
  by (cases e) (simp_all add: encryption_type_try_from_def)

section \<open>Paths stay below the base\<close>

lemma trim_start_no_slash: "trim_start_matches c s = [] \<or> hd (trim_start_matches c s) \<noteq> c"
  by (induction s) (auto simp: trim_start_matches_def)

text \<open>
  A queue path never replaces the base directory: the leading slashes are removed before
  the join.
\<close>

lemma queue_id_to_fs_path_below:
  assumes "base \<noteq> []"
  shows "\<exists>rest. queue_id_to_fs_path q base = base @ rest"
  using trim_start_no_slash [of slash "qid_path q"]
  by (auto simp: queue_id_to_fs_path_def path_push_def Let_def)

lemma path_push_below: "plain_name s \<Longrightarrow> \<exists>rest. path_push p s = p @ rest"
  by (auto simp: path_push_def plain_name_def dest: hd_in_set)

lemma foldl_push_below: "list_all plain_name ws \<Longrightarrow> \<exists>rest. foldl path_push p ws = p @ rest"
proof (induction ws arbitrary: p)
  case (Cons w ws)
  then obtain r where "path_push p w = p @ r" using path_push_below by force
  moreover obtain r' where "foldl path_push (p @ r) ws = (p @ r) @ r'"
    using Cons.IH [of "p @ r"] Cons.prems by auto
  ultimately show ?case by simp
qed simp

lemma chunks_plain: "list_all plain_name (butlast (chunks3 (padded_hex n)))"
  by (auto simp: list_all_iff dest!: in_set_butlastD intro: chunks3_padded(3))

lemma last_chunk_plain:
  assumes "slash \<notin> set extension"
  shows "plain_name (last (chunks3 (padded_hex n)) @ ext_suffix extension)"
proof (rule plain_name_with_ext [OF _ _ assms])
  let ?w = "last (chunks3 (padded_hex n))"
  show "plain_name ?w" using chunks3_padded(3) [of ?w n] by simp
  moreover have "hex_string ?w" using chunks3_padded(2) [of ?w n] by simp
  ultimately show "hd ?w \<noteq> CHR ''.''"
    using hex_not_special by (auto simp: plain_name_def hex_string_def dest: hd_in_set)
qed

lemma to_file_path_below:
  assumes "ubig_hex_ok X" "slash \<notin> set extension"
  shows "\<exists>rest. uintn_to_file_path X u base extension = base @ rest"
proof -
  obtain r where "foldl path_push base (butlast (chunks3 (padded_hex (uval u)))) = base @ r"
    using foldl_push_below [OF chunks_plain] by blast
  moreover obtain r' where "path_push (base @ r)
      (last (chunks3 (padded_hex (uval u))) @ ext_suffix extension) = (base @ r) @ r'"
    using path_push_below [OF last_chunk_plain [OF assms(2)]] by blast
  ultimately show ?thesis by (simp add: uintn_to_file_path_eq [OF assms(1)])
qed

section \<open>Properties\<close>

text \<open>
  A queue path never replaces the base directory, also when it is absolute or starts
  with several slashes: the WAL path and the store path of any file identifier are the base path
  followed by more (a component \<open>..\<close> in the queue path is not resolved).
\<close>

lemma queue_files_below_base:
  assumes "ubig_hex_ok X" "base \<noteq> []"
  shows "(\<exists>rest. queue_id_to_wal_path X q base file_id = base @ rest) \<and>
         (\<exists>rest. queue_id_to_store_path X q base file_id = base @ rest)"
proof -
  have plain: "plain_name ''wal''" "plain_name ''store''" by (auto simp: plain_name_def)
  obtain r where r: "queue_id_to_fs_path q base = base @ r"
    using queue_id_to_fs_path_below [OF assms(2)] by blast
  obtain w s where ws: "queue_id_to_wal_dir q base = base @ r @ w"
    "queue_id_to_store_dir q base = base @ r @ s"
    using path_push_below [OF plain(1)] path_push_below [OF plain(2)] r
    by (metis append_assoc queue_id_to_store_dir_def queue_id_to_wal_dir_def)
  show ?thesis
    using to_file_path_below [OF assms(1), of "''wal''" file_id "base @ r @ w"]
      to_file_path_below [OF assms(1), of "''store''" file_id "base @ r @ s"]
    by (auto simp: queue_id_to_wal_path_def queue_id_to_store_path_def ws)
qed

end
