(* ===== verification/Crypto.thy ===== *)
theory Crypto
  imports Types
begin

text \<open>
  The cryptographic context (\<open>normfs-crypto/src/crypto.rs\<close> and \<open>seed.rs\<close>): the seed file, the
  signing key, and the encryption of store files with a key and a nonce that are derived from the
  seed, the queue and the file identifier.

  The primitives are third-party code and the fields of \<open>crypto_ext\<close>: HKDF, the ChaCha generator
  (\<open>chacha_fill seed pos n\<close> are the \<open>n\<close> bytes at position \<open>pos\<close> of the stream of a generator with that
  seed), AES-GCM, Ed25519, SHA-256. The laws the program relies on are \<open>cipher_ok\<close> (decryption undoes encryption)
  and \<open>signature_ok\<close> (a signature verifies and has 64 bytes).
\<close>

section \<open>Primitives\<close>

record crypto_ext =
  hkdf_expand :: "bytes \<Rightarrow> bytes \<Rightarrow> bytes option"
  chacha_fill :: "bytes \<Rightarrow> nat \<Rightarrow> nat \<Rightarrow> bytes"
  aes_gcm_encrypt :: "bytes \<Rightarrow> bytes \<Rightarrow> bytes \<Rightarrow> bytes option"
  aes_gcm_decrypt :: "bytes \<Rightarrow> bytes \<Rightarrow> bytes \<Rightarrow> bytes option"
  ed25519_generate :: "bytes \<Rightarrow> bytes"
  ed25519_verifying_key :: "bytes \<Rightarrow> bytes"
  ed25519_sign :: "bytes \<Rightarrow> bytes \<Rightarrow> bytes"
  ed25519_verify :: "bytes \<Rightarrow> bytes \<Rightarrow> bytes \<Rightarrow> bool"
  sha256 :: "bytes \<Rightarrow> bytes"

definition cipher_ok :: "crypto_ext \<Rightarrow> bool" where
  "cipher_ok C \<longleftrightarrow>
     (\<forall>key nonce plain cipher. aes_gcm_encrypt C key nonce plain = Some cipher \<longrightarrow>
        aes_gcm_decrypt C key nonce cipher = Some plain) \<and>
     (\<forall>seed i n. length (chacha_fill C seed i n) = n)"

definition signature_ok :: "crypto_ext \<Rightarrow> bool" where
  "signature_ok C \<longleftrightarrow>
     (\<forall>key data. ed25519_verify C (ed25519_verifying_key C key) data (ed25519_sign C key data)) \<and>
     (\<forall>key data. length (ed25519_sign C key data) = 64)"

section \<open>Seed\<close>

datatype seed_error = SeedIo string | InvalidSeed | OsRng

datatype crypto_error =
    SeedError seed_error
  | KeyDerivation
  | Encryption
  | Decryption
  | InvalidNonce
  | Verification

definition SEED_SIZE :: usize where
  "SEED_SIZE = 32"

text \<open>
  The seed file: what opening and reading it returns (\<open>None\<close> when it does not exist), what the random
  source of the operating system returns, and what happens when a new file is written: it is written and
  synced, it cannot be created, or it is created and fails after some bytes. The file is read
  with one call, which returns at most \<open>SEED_SIZE\<close> bytes.
\<close>

datatype seed_write = WriteOk | CreateFails string | WriteFails nat string

record seed_io =
  sio_file :: "(bytes, string) result option"
  sio_getrandom :: "bytes option"
  sio_write :: seed_write

definition seed_exists :: "seed_io \<Rightarrow> bool" where
  "seed_exists io \<longleftrightarrow> sio_file io \<noteq> None"

definition seed_load :: "seed_io \<Rightarrow> (bytes, seed_error) result" where
  "seed_load io =
     (case sio_file io of
        None \<Rightarrow> Err (SeedIo ''not found'')
      | Some (Err e) \<Rightarrow> Err (SeedIo e)
      | Some (Ok contents) \<Rightarrow>
          let bs = take SEED_SIZE contents
          in if length bs \<noteq> SEED_SIZE then Err InvalidSeed else Ok bs)"

definition seed_generate :: "seed_io \<Rightarrow> (bytes, seed_error) result" where
  "seed_generate io = (case sio_getrandom io of None \<Rightarrow> Err OsRng | Some bs \<Rightarrow> Ok bs)"

definition seed_save :: "seed_io \<Rightarrow> bytes \<Rightarrow> (unit, seed_error) result \<times> seed_io" where
  "seed_save io seed =
     (if seed_exists io then (Err (SeedIo ''already exists''), io)
      else case sio_write io of
        CreateFails e \<Rightarrow> (Err (SeedIo e), io)
      | WriteFails n e \<Rightarrow> (Err (SeedIo e), io \<lparr> sio_file := Some (Ok (take n seed)) \<rparr>)
      | WriteOk \<Rightarrow> (Ok (), io \<lparr> sio_file := Some (Ok seed) \<rparr>))"

definition seed_open :: "seed_io \<Rightarrow> (bytes, seed_error) result \<times> seed_io" where
  "seed_open io =
     (if seed_exists io then (seed_load io, io)
      else case seed_generate io of
             Err e \<Rightarrow> (Err e, io)
           | Ok seed \<Rightarrow>
               (case seed_save io seed of (Err e, io) \<Rightarrow> (Err e, io) | (Ok _, io) \<Rightarrow> (Ok seed, io)))"

section \<open>Context\<close>

record crypto_context =
  cc_seed :: bytes
  cc_signing_key :: bytes
  cc_instance_id :: bytes
  cc_instance_id_hex :: string

definition byte_hex :: "u8 \<Rightarrow> string" where
  "byte_hex b = pad_zeros 2 (lower_hex (unat b))"

definition crypto_context_open ::
  "crypto_ext \<Rightarrow> seed_io \<Rightarrow> (crypto_context, crypto_error) result \<times> seed_io" where
  "crypto_context_open C io =
     (case seed_open io of
        (Err e, io) \<Rightarrow> (Err (SeedError e), io)
      | (Ok seed, io) \<Rightarrow>
          let signing_key = ed25519_generate C seed;
              verifying_key = ed25519_verifying_key C signing_key;
              instance_id = sha256 C verifying_key
          in (Ok \<lparr> cc_seed = seed, cc_signing_key = signing_key, cc_instance_id = instance_id,
                   cc_instance_id_hex = concat (map byte_hex instance_id) \<rparr>, io))"

definition crypto_sign :: "crypto_ext \<Rightarrow> crypto_context \<Rightarrow> bytes \<Rightarrow> bytes" where
  "crypto_sign C self data = ed25519_sign C (cc_signing_key self) data"

definition crypto_verify ::
  "crypto_ext \<Rightarrow> crypto_context \<Rightarrow> bytes \<Rightarrow> bytes \<Rightarrow> (unit, crypto_error) result" where
  "crypto_verify C self data signature =
     (if ed25519_verify C (ed25519_verifying_key C (cc_signing_key self)) data signature
      then Ok () else Err Verification)"

definition string_bytes :: "string \<Rightarrow> bytes" where
  "string_bytes s = map of_char s"

definition derivation_info :: "ext \<Rightarrow> queue_id \<Rightarrow> uintn \<Rightarrow> bytes" where
  "derivation_info X q file_id =
     string_bytes (queue_id_to_key_derivation_base q) @ uintn_value_to_bytes X file_id"

definition derive_rng ::
  "ext \<Rightarrow> crypto_ext \<Rightarrow> crypto_context \<Rightarrow> queue_id \<Rightarrow> uintn \<Rightarrow> (bytes, crypto_error) result" where
  "derive_rng X C self q file_id =
     (case hkdf_expand C (cc_seed self) (derivation_info X q file_id) of
        None \<Rightarrow> Err KeyDerivation
      | Some rng_seed \<Rightarrow> Ok rng_seed)"

definition crypto_encrypt ::
  "ext \<Rightarrow> crypto_ext \<Rightarrow> crypto_context \<Rightarrow> queue_id \<Rightarrow> uintn \<Rightarrow> bytes \<Rightarrow>
   (bytes \<times> bytes, crypto_error) result" where
  "crypto_encrypt X C self q file_id content =
     (case derive_rng X C self q file_id of
        Err e \<Rightarrow> Err e
      | Ok rng \<Rightarrow>
          let aes_key = chacha_fill C rng 0 32;
              nonce = chacha_fill C rng 32 12
          in case aes_gcm_encrypt C aes_key nonce content of
               None \<Rightarrow> Err Encryption
             | Some ciphertext \<Rightarrow> Ok (nonce, ciphertext))"

definition crypto_decrypt ::
  "ext \<Rightarrow> crypto_ext \<Rightarrow> crypto_context \<Rightarrow> queue_id \<Rightarrow> uintn \<Rightarrow> bytes \<Rightarrow> bytes \<Rightarrow>
   (bytes, crypto_error) result" where
  "crypto_decrypt X C self q file_id nonce ciphertext =
     (if length nonce \<noteq> 12 then Err InvalidNonce
      else case derive_rng X C self q file_id of
        Err e \<Rightarrow> Err e
      | Ok rng \<Rightarrow>
          let aes_key = chacha_fill C rng 0 32
          in case aes_gcm_decrypt C aes_key nonce ciphertext of
               None \<Rightarrow> Err Decryption
             | Some plaintext \<Rightarrow> Ok plaintext)"

section \<open>Lemmas\<close>

lemma decrypt_encrypt:
  assumes "cipher_ok C" "crypto_encrypt X C ctx q f content = Ok (nonce, ciphertext)"
  shows "crypto_decrypt X C ctx q f nonce ciphertext = Ok content" "length nonce = 12"
  using assms
  by (auto simp: crypto_encrypt_def crypto_decrypt_def cipher_ok_def Let_def
      split: result.splits option.splits)

lemma verify_sign [simp]:
  "signature_ok C \<Longrightarrow> crypto_verify C ctx data (crypto_sign C ctx data) = Ok ()"
  "signature_ok C \<Longrightarrow> length (crypto_sign C ctx data) = 64"
  by (simp_all add: signature_ok_def crypto_verify_def crypto_sign_def)

text \<open>The file that opening the seed leaves behind is the seed it returned.\<close>

definition getrandom_ok :: "seed_io \<Rightarrow> bool" where
  "getrandom_ok io \<longleftrightarrow> (case sio_getrandom io of None \<Rightarrow> True | Some bs \<Rightarrow> length bs = SEED_SIZE)"

lemma seed_open_stable:
  assumes "seed_open io = (Ok seed, io')" "getrandom_ok io"
  shows "seed_open io' = (Ok seed, io')"
  using assms
  by (auto simp: seed_open_def seed_load_def seed_generate_def seed_save_def seed_exists_def
      getrandom_ok_def Let_def split: option.splits result.splits if_splits seed_write.splits)

section \<open>Properties\<close>


definition crypto_ref :: crypto_ext where
  "crypto_ref = \<lparr>
     hkdf_expand = (\<lambda>seed info. Some (map (\<lambda>b. b + sum_list info) seed)),
     chacha_fill = (\<lambda>seed pos n. map (\<lambda>i. of_nat (pos + i) + sum_list seed) [0..<n]),
     aes_gcm_encrypt = (\<lambda>key nonce plain. Some (map (\<lambda>b. b + sum_list key + sum_list nonce) plain)),
     aes_gcm_decrypt = (\<lambda>key nonce cipher. Some (map (\<lambda>b. b - sum_list nonce - sum_list key) cipher)),
     ed25519_generate = (\<lambda>seed. seed),
     ed25519_verifying_key = (\<lambda>key. key),
     ed25519_sign = (\<lambda>key data. replicate 64 (sum_list key + sum_list data)),
     ed25519_verify = (\<lambda>key data signature. signature = replicate 64 (sum_list key + sum_list data)),
     sha256 = (\<lambda>data. replicate 32 (sum_list data)) \<rparr>"

text \<open>
  The stand-ins of \<open>crypto_ref\<close> have the laws the program relies on (and no strength at all).
\<close>

lemma crypto_ref_ok [simp]: "cipher_ok crypto_ref" "signature_ok crypto_ref"
  by (simp_all add: cipher_ok_def signature_ok_def crypto_ref_def comp_def)



end
