(* ===== verification/Wal_Format.thy ===== *)
theory Wal_Format
  imports UintN_Paths Types
begin

text \<open>
  The binary format of a write-ahead log file: the file header of \<open>normfs-wal/src/wal_header.rs\<close>,
  the entry header of \<open>normfs-wal/src/wal_entry.rs\<close> and the errors of \<open>normfs-wal/src/errors.rs\<close>.

  A reader is the byte string that remains to be read; \<open>read_exact\<close> takes a number of bytes
  off its front or fails when there are too few. The error variants of the different modules carry
  their module's prefix where the names coincide.
\<close>

section \<open>Errors\<close>

datatype wal_header_error =
    WalHeader_SliceTooShort
  | InvalidDataSizeBytes u64
  | InvalidIdSizeBytes u64
  | WalHeader_UintN uintn_error
  | WalHeader_UnsupportedVersion u64

datatype wal_entry_error =
    WalEntry_SliceTooShort
  | WalEntry_UintN uintn_error
  | WalEntry_UnsupportedVersion u64

datatype wal_error =
    IoError string
  | WalHeaderError wal_header_error
  | WalEntryError wal_entry_error
  | PathError path_error
  | SendError
  | WalNotFound
  | WriterNotFound
  | WalEmpty uintn

definition wal_error_from_uintn :: "uintn_error \<Rightarrow> wal_error" where
  "wal_error_from_uintn e = WalHeaderError (WalHeader_UintN e)"

section \<open>Readers\<close>

definition read_exact :: "nat \<Rightarrow> bytes \<Rightarrow> (bytes \<times> bytes) option" where
  "read_exact n reader = (if n \<le> length reader then Some (take n reader, drop n reader) else None)"

lemma read_exact_append [simp]: "length a = n \<Longrightarrow> read_exact n (a @ b) = Some (a, b)"
  by (auto simp: read_exact_def)

lemma read_exact_Some:
  "read_exact n r = Some (a, b) \<longleftrightarrow> length a = n \<and> r = a @ b"
  by (auto simp: read_exact_def)

section \<open>File header\<close>

definition WAL_HEADER_FIXED_SIZE :: usize where
  "WAL_HEADER_FIXED_SIZE = 24"

record wal_header =
  wh_data_size_bytes :: u64
  wh_id_size_bytes :: u64
  wh_num_entries_before :: uintn

definition wal_header_default :: wal_header where
  "wal_header_default =
     \<lparr> wh_data_size_bytes = 8, wh_id_size_bytes = 4, wh_num_entries_before = uintn_zero \<rparr>"

definition wal_header_resize :: "ext \<Rightarrow> wal_header \<Rightarrow> uintn \<Rightarrow> usize \<Rightarrow> wal_header" where
  "wal_header_resize X self entry_id data_size =
     (let required_id_size = of_nat (uintn_size_in_bytes X entry_id);
          required_data_size =
            of_nat (uintn_size_in_bytes X (uintn_from_u64 (of_nat data_size)))
      in self \<lparr> wh_id_size_bytes := max (wh_id_size_bytes self) required_id_size,
               wh_data_size_bytes := max (wh_data_size_bytes self) required_data_size \<rparr>)"

definition wal_header_can_hold_entry :: "ext \<Rightarrow> wal_header \<Rightarrow> uintn \<Rightarrow> usize \<Rightarrow> bool" where
  "wal_header_can_hold_entry X self entry_id data_size \<longleftrightarrow>
     uintn_can_fit X entry_id (wh_id_size_bytes self) \<and>
     uintn_can_fit X (uintn_from_u64 (of_nat data_size)) (wh_data_size_bytes self)"

definition wal_header_new :: "u64 \<Rightarrow> u64 \<Rightarrow> uintn \<Rightarrow> (wal_header, wal_header_error) result" where
  "wal_header_new data_size_bytes id_size_bytes num_entries_before =
     (if \<not> uintn_is_valid_data_size data_size_bytes
      then Err (InvalidDataSizeBytes data_size_bytes)
      else if \<not> uintn_is_valid_data_size id_size_bytes
      then Err (InvalidIdSizeBytes id_size_bytes)
      else Ok \<lparr> wh_data_size_bytes = data_size_bytes, wh_id_size_bytes = id_size_bytes,
                wh_num_entries_before = num_entries_before \<rparr>)"

definition wal_header_from_bytes ::
  "ext \<Rightarrow> bytes \<Rightarrow> (wal_header \<times> usize, wal_header_error) result run" where
  "wal_header_from_bytes X data =
     (if length data < WAL_HEADER_FIXED_SIZE then Ret (Err WalHeader_SliceTooShort)
      else
        let version = u64_from_le_bytes (take 8 data) in
        if version \<noteq> 0 then Ret (Err (WalHeader_UnsupportedVersion version))
        else
          let data_size_bytes = u64_from_le_bytes (take 8 (drop 8 data));
              id_size_bytes = u64_from_le_bytes (take 8 (drop 16 data))
          in do {
            r \<leftarrow> uintn_read_from_slice X (drop WAL_HEADER_FIXED_SIZE data);
            Ret (case r of
                Err e \<Rightarrow> Err (WalHeader_UintN e)
              | Ok (num_entries_before, bytes_read) \<Rightarrow>
                  Ok (\<lparr> wh_data_size_bytes = data_size_bytes, wh_id_size_bytes = id_size_bytes,
                        wh_num_entries_before = num_entries_before \<rparr>,
                      WAL_HEADER_FIXED_SIZE + bytes_read)) })"

text \<open>
  \<open>from_reader\<close> returns the header, the number of bytes it took, and the reader after it. The
  length is limited to 10 MiB before the buffer is allocated.
\<close>

definition wal_header_from_reader ::
  "ext \<Rightarrow> bytes \<Rightarrow> (wal_header \<times> usize \<times> bytes, wal_header_error) result" where
  "wal_header_from_reader X reader =
     (case read_exact WAL_HEADER_FIXED_SIZE reader of
        None \<Rightarrow> Err WalHeader_SliceTooShort
      | Some (fixed_header_buf, reader) \<Rightarrow>
          let version = u64_from_le_bytes (take 8 fixed_header_buf);
              data_size_bytes = u64_from_le_bytes (take 8 (drop 8 fixed_header_buf));
              id_size_bytes = u64_from_le_bytes (take 8 (drop 16 fixed_header_buf))
          in if version \<noteq> 0 then Err (WalHeader_UnsupportedVersion version)
          else case read_exact 8 reader of
            None \<Rightarrow> Err WalHeader_SliceTooShort
          | Some (len_buf, reader) \<Rightarrow>
              let len = unat (u64_from_le_bytes len_buf) in
              if len > 10 * 1024 * 1024 then Err WalHeader_SliceTooShort
              else case read_exact len reader of
                None \<Rightarrow> Err WalHeader_SliceTooShort
              | Some (value_buf, reader) \<Rightarrow>
                  (case uintn_read_value_from_slice X value_buf len of
                     Err e \<Rightarrow> Err (WalHeader_UintN e)
                   | Ok num_entries_before \<Rightarrow>
                       Ok (\<lparr> wh_data_size_bytes = data_size_bytes,
                             wh_id_size_bytes = id_size_bytes,
                             wh_num_entries_before = num_entries_before \<rparr>,
                           WAL_HEADER_FIXED_SIZE + 8 + len, reader)))"

definition wal_header_size :: "ext \<Rightarrow> wal_header \<Rightarrow> usize" where
  "wal_header_size X self =
     WAL_HEADER_FIXED_SIZE + 8 + uintn_size_in_bytes X (wh_num_entries_before self)"

definition wal_header_write_to_bytes :: "ext \<Rightarrow> wal_header \<Rightarrow> bytes \<Rightarrow> bytes \<times> usize" where
  "wal_header_write_to_bytes X self dest =
     (let dest = dest @ u64_to_le_bytes 0;
          dest = dest @ u64_to_le_bytes (wh_data_size_bytes self);
          dest = dest @ u64_to_le_bytes (wh_id_size_bytes self);
          (dest, _) = uintn_write_to_buffer X (wh_num_entries_before self) dest
      in (dest, wal_header_size X self))"

section \<open>Entry header\<close>

definition WAL_ENTRY_HEADER_FIXED_OVERHEAD :: usize where
  "WAL_ENTRY_HEADER_FIXED_OVERHEAD = 16"

record wal_entry_header =
  weh_entry_id :: uintn
  weh_record_size :: uintn
  weh_xxhash :: u64

definition wal_entry_header_new :: "ext \<Rightarrow> uintn \<Rightarrow> bytes \<Rightarrow> wal_entry_header" where
  "wal_entry_header_new X entry_id record_data =
     (let record_size = uintn_from_u64 (of_nat (length record_data));
          xxhash = xxh64 X record_data
      in \<lparr> weh_entry_id = entry_id, weh_record_size = record_size, weh_xxhash = xxhash \<rparr>)"

definition wal_entry_header_size :: "wal_header \<Rightarrow> usize" where
  "wal_entry_header_size h =
     WAL_ENTRY_HEADER_FIXED_OVERHEAD + unat (wh_id_size_bytes h) + unat (wh_data_size_bytes h)"

definition wal_entry_header_write_to_bytes ::
  "ext \<Rightarrow> wal_entry_header \<Rightarrow> bytes \<Rightarrow> wal_header \<Rightarrow> (bytes, uintn_error) result" where
  "wal_entry_header_write_to_bytes X self dest h =
     (let dest = dest @ u64_to_le_bytes 0 in
      case uintn_write_value_to_buffer_with_size X (weh_entry_id self) dest
             (unat (wh_id_size_bytes h)) of
        Err e \<Rightarrow> Err e
      | Ok (dest, _) \<Rightarrow>
          (case uintn_write_value_to_buffer_with_size X (weh_record_size self) dest
                  (unat (wh_data_size_bytes h)) of
             Err e \<Rightarrow> Err e
           | Ok (dest, _) \<Rightarrow> Ok (dest @ u64_to_le_bytes (weh_xxhash self))))"

definition wal_entry_header_from_bytes ::
  "ext \<Rightarrow> bytes \<Rightarrow> wal_header \<Rightarrow> (wal_entry_header, wal_entry_error) result run" where
  "wal_entry_header_from_bytes X data h =
     (let id_size = unat (wh_id_size_bytes h);
          data_size = unat (wh_data_size_bytes h)
      in do {
        n \<leftarrow> usize_add WAL_ENTRY_HEADER_FIXED_OVERHEAD id_size;
        expected_size \<leftarrow> usize_add n data_size;
        Ret (
          if length data < expected_size then Err WalEntry_SliceTooShort
          else
            let version = u64_from_le_bytes (take 8 data) in
            if version \<noteq> 0 then Err (WalEntry_UnsupportedVersion version)
            else case uintn_read_value_from_slice X (take id_size (drop 8 data)) id_size of
              Err e \<Rightarrow> Err (WalEntry_UintN e)
            | Ok entry_id \<Rightarrow>
                (case uintn_read_value_from_slice X
                        (take data_size (drop (8 + id_size) data)) data_size of
                   Err e \<Rightarrow> Err (WalEntry_UintN e)
                 | Ok record_size \<Rightarrow>
                     Ok \<lparr> weh_entry_id = entry_id, weh_record_size = record_size,
                          weh_xxhash = u64_from_le_bytes
                            (take 8 (drop (8 + id_size + data_size) data)) \<rparr>)) })"

definition wal_entry_header_from_reader ::
  "ext \<Rightarrow> bytes \<Rightarrow> wal_header \<Rightarrow> (wal_entry_header \<times> bytes, wal_entry_error) result run" where
  "wal_entry_header_from_reader X reader h =
     (let id_size = unat (wh_id_size_bytes h);
          data_size = unat (wh_data_size_bytes h)
      in do {
        n \<leftarrow> usize_add WAL_ENTRY_HEADER_FIXED_OVERHEAD id_size;
        expected_size \<leftarrow> usize_add n data_size;
        vec_alloc expected_size;
        case read_exact expected_size reader of
          None \<Rightarrow> Ret (Err WalEntry_SliceTooShort)
        | Some (buf, reader) \<Rightarrow> do {
            r \<leftarrow> wal_entry_header_from_bytes X buf h;
            Ret (case r of Err e \<Rightarrow> Err e | Ok eh \<Rightarrow> Ok (eh, reader)) } })"

section \<open>The formats as codecs\<close>

definition wal_header_enc :: "ext \<Rightarrow> wal_header \<Rightarrow> bytes" where
  "wal_header_enc X h = fst (wal_header_write_to_bytes X h [])"

definition wal_header_ok :: "ext \<Rightarrow> wal_header \<Rightarrow> bool" where
  "wal_header_ok X h \<longleftrightarrow> uintn_encodable X (wh_num_entries_before h)"

lemma wal_header_enc_eq:
  assumes "ubig_bytes_ok X"
  shows "wal_header_enc X h =
    u64_to_le_bytes 0 @ u64_to_le_bytes (wh_data_size_bytes h) @
    u64_to_le_bytes (wh_id_size_bytes h) @ uintn_enc X (wh_num_entries_before h)"
  by (simp add: wal_header_enc_def wal_header_write_to_bytes_def uintn_write_to_buffer_eq [OF assms])

lemma wal_header_write_eq:
  assumes "ubig_bytes_ok X"
  shows "wal_header_write_to_bytes X h dest = (dest @ wal_header_enc X h, length (wal_header_enc X h))"
  by (simp add: wal_header_enc_eq [OF assms] wal_header_write_to_bytes_def wal_header_size_def
      uintn_write_to_buffer_eq [OF assms] uintn_enc_eq WAL_HEADER_FIXED_SIZE_def assms Let_def)

lemma u64_from_to_0 [simp]: "u64_from_le_bytes (u64_to_le_bytes 0) = 0"
  by simp

lemma wal_header_from_bytes_enc:
  assumes "ubig_bytes_ok X" "wal_header_ok X h"
  shows "wal_header_from_bytes X (wal_header_enc X h @ rest) =
         Ret (Ok (h, length (wal_header_enc X h)))"
  using assms uintn_read_enc [OF assms(1), of "wh_num_entries_before h" rest]
  by (simp add: wal_header_enc_eq wal_header_from_bytes_def WAL_HEADER_FIXED_SIZE_def
      wal_header_ok_def Let_def)

interpretation wal_header_codec:
  byte_codec "wal_header_enc X" "wal_header_from_bytes X"
    "\<lambda>h. ubig_bytes_ok X \<and> wal_header_ok X h" for X
  by unfold_locales (simp add: wal_header_from_bytes_enc)

definition valid_sizes :: "wal_header \<Rightarrow> bool" where
  "valid_sizes h \<longleftrightarrow> unat (wh_id_size_bytes h) \<in> {1, 2, 4, 8, 16} \<and>
                   unat (wh_data_size_bytes h) \<in> {1, 2, 4, 8, 16}"

definition entry_header_fits :: "wal_header \<Rightarrow> wal_entry_header \<Rightarrow> bool" where
  "entry_header_fits h eh \<longleftrightarrow>
     canonical (weh_entry_id eh) \<and> uval (weh_entry_id eh) < 256 ^ unat (wh_id_size_bytes h) \<and>
     canonical (weh_record_size eh) \<and> uval (weh_record_size eh) < 256 ^ unat (wh_data_size_bytes h)"

definition wal_entry_header_enc :: "ext \<Rightarrow> wal_header \<Rightarrow> wal_entry_header \<Rightarrow> bytes" where
  "wal_entry_header_enc X h eh =
     u64_to_le_bytes 0 @ uintn_fixed X (unat (wh_id_size_bytes h)) (weh_entry_id eh) @
     uintn_fixed X (unat (wh_data_size_bytes h)) (weh_record_size eh) @
     u64_to_le_bytes (weh_xxhash eh)"

lemma valid_sizes_bound:
  "valid_sizes h \<Longrightarrow> unat (wh_id_size_bytes h) \<le> 16 \<and> unat (wh_data_size_bytes h) \<le> 16"
  by (auto simp: valid_sizes_def)

lemma wal_entry_header_write_eq:
  assumes "ubig_bytes_ok X" "valid_sizes h" "entry_header_fits h eh"
  shows "wal_entry_header_write_to_bytes X eh dest h = Ok (dest @ wal_entry_header_enc X h eh)"
    and "length (wal_entry_header_enc X h eh) = wal_entry_header_size h"
proof -
  note sizes = assms(2) [unfolded valid_sizes_def] and fits = assms(3) [unfolded entry_header_fits_def]
  show "wal_entry_header_write_to_bytes X eh dest h = Ok (dest @ wal_entry_header_enc X h eh)"
    using uintn_fixed(1) [OF assms(1)] sizes fits
    by (simp add: wal_entry_header_write_to_bytes_def wal_entry_header_enc_def)
  show "length (wal_entry_header_enc X h eh) = wal_entry_header_size h"
    using uintn_fixed(2) [OF assms(1)] sizes fits
    by (simp add: wal_entry_header_enc_def wal_entry_header_size_def
        WAL_ENTRY_HEADER_FIXED_OVERHEAD_def)
qed

lemma wal_entry_header_from_bytes_enc:
  assumes "ubig_bytes_ok X" "valid_sizes h" "entry_header_fits h eh"
  shows "wal_entry_header_from_bytes X (wal_entry_header_enc X h eh @ rest) h = Ret (Ok eh)"
proof -
  note sizes = assms(2) [unfolded valid_sizes_def] and fits = assms(3) [unfolded entry_header_fits_def]
  have id: "length (uintn_fixed X (unat (wh_id_size_bytes h)) (weh_entry_id eh)) =
      unat (wh_id_size_bytes h)"
    "uintn_read_value_from_slice X (uintn_fixed X (unat (wh_id_size_bytes h)) (weh_entry_id eh))
      (unat (wh_id_size_bytes h)) = Ok (weh_entry_id eh)"
    using uintn_fixed(2,3) [OF assms(1)] sizes fits by simp_all
  have rs: "length (uintn_fixed X (unat (wh_data_size_bytes h)) (weh_record_size eh)) =
      unat (wh_data_size_bytes h)"
    "uintn_read_value_from_slice X (uintn_fixed X (unat (wh_data_size_bytes h)) (weh_record_size eh))
      (unat (wh_data_size_bytes h)) = Ok (weh_record_size eh)"
    using uintn_fixed(2,3) [OF assms(1)] sizes fits by simp_all
  show ?thesis using id rs valid_sizes_bound [OF assms(2)]
    by (simp add: wal_entry_header_from_bytes_def wal_entry_header_enc_def usize_add_def
        WAL_ENTRY_HEADER_FIXED_OVERHEAD_def Let_def)
qed

lemma wal_entry_header_from_reader_enc:
  assumes "ubig_bytes_ok X" "valid_sizes h" "entry_header_fits h eh"
  shows "wal_entry_header_from_reader X (wal_entry_header_enc X h eh @ rest) h = Ret (Ok (eh, rest))"
  using wal_entry_header_write_eq(2) [OF assms] wal_entry_header_from_bytes_enc [OF assms, of "[]"]
    valid_sizes_bound [OF assms(2)]
  by (simp add: wal_entry_header_from_reader_def wal_entry_header_size_def usize_add_def
      WAL_ENTRY_HEADER_FIXED_OVERHEAD_def vec_alloc_def)

text \<open>The decoder of an entry header with the number of bytes it takes.\<close>

definition wal_entry_header_dec ::
  "ext \<Rightarrow> wal_header \<Rightarrow> bytes \<Rightarrow> (wal_entry_header \<times> nat, wal_entry_error) result run" where
  "wal_entry_header_dec X h data = do {
     r \<leftarrow> wal_entry_header_from_bytes X data h;
     Ret (case r of Err e \<Rightarrow> Err e | Ok eh \<Rightarrow> Ok (eh, wal_entry_header_size h)) }"

interpretation wal_entry_header_codec:
  byte_codec "wal_entry_header_enc X h" "wal_entry_header_dec X h"
    "\<lambda>eh. ubig_bytes_ok X \<and> valid_sizes h \<and> entry_header_fits h eh" for X h
  by unfold_locales
     (simp add: wal_entry_header_dec_def wal_entry_header_from_bytes_enc wal_entry_header_write_eq(2))

section \<open>Sizing\<close>

lemma uval_lt_size: "ubig_bytes_ok X \<Longrightarrow> uval u < 256 ^ uintn_size_in_bytes X u"
  using le_nat_bound [of "uintn_le_bytes X u"] by simp

lemma can_fit_bound:
  assumes "ubig_bytes_ok X" "uintn_size_in_bytes X u < 2 ^ 64" "uintn_can_fit X u n"
  shows "uval u < 256 ^ unat n"
proof -
  have "uintn_size_in_bytes X u \<le> unat n"
    using assms(2,3) by (simp add: uintn_can_fit_def word_le_nat_alt unat_of_nat_word)
  then have "(256::nat) ^ uintn_size_in_bytes X u \<le> 256 ^ unat n"
    by (intro power_increasing) simp_all
  with uval_lt_size [OF assms(1), of u] show ?thesis by (rule less_le_trans)
qed

lemma size_from_u64: "uintn_size_in_bytes X (uintn_from_u64 w) \<le> 8"
  by (simp add: uintn_from_u64_def)

lemma can_hold_entry_fits:
  assumes "ubig_bytes_ok X" "canonical entry_id" "uintn_size_in_bytes X entry_id < 2 ^ 64"
    and "wal_header_can_hold_entry X h entry_id (length data)"
  shows "entry_header_fits h (wal_entry_header_new X entry_id data)"
proof -
  let ?n = "uintn_from_u64 (of_nat (length data))"
  have "uintn_size_in_bytes X ?n < 2 ^ 64" using size_from_u64 [of X "of_nat (length data)"] by simp
  then show ?thesis
    using assms can_fit_bound [OF assms(1), of ?n] can_fit_bound [OF assms(1,3)]
    by (simp add: entry_header_fits_def wal_entry_header_new_def wal_header_can_hold_entry_def
        del: uval_from_u64)
qed

lemma resize_can_hold:
  "wal_header_can_hold_entry X (wal_header_resize X h entry_id n) entry_id n"
  by (simp add: wal_header_can_hold_entry_def wal_header_resize_def uintn_can_fit_def Let_def)

lemma resize_monotone:
  "wh_id_size_bytes h \<le> wh_id_size_bytes (wal_header_resize X h entry_id n) \<and>
   wh_data_size_bytes h \<le> wh_data_size_bytes (wal_header_resize X h entry_id n) \<and>
   wh_num_entries_before (wal_header_resize X h entry_id n) = wh_num_entries_before h"
  by (simp add: wal_header_resize_def Let_def)

text \<open>For a 128-bit identifier the resized header keeps sizes that the format accepts.\<close>

lemma size_of_fixed_width:
  "uval u < 2 ^ 128 \<Longrightarrow> canonical u \<Longrightarrow> uintn_size_in_bytes X u \<in> {1, 2, 4, 8, 16}"
  by (cases u) (auto simp: canonical_def)

lemma unat_max_word: "unat (max a b) = max (unat a) (unat (b :: 'a::len word))"
  by (simp add: max_def word_le_nat_alt)

lemma resize_valid_sizes:
  assumes "valid_sizes h" "canonical entry_id" "uval entry_id < 2 ^ 128"
  shows "valid_sizes (wal_header_resize X h entry_id n)"
proof -
  let ?n = "uintn_from_u64 (of_nat n)"
  have n: "uintn_size_in_bytes X ?n \<in> {1, 2, 4, 8, 16}"
    using unat_bound_64 [of "of_nat n"] by (intro size_of_fixed_width) simp_all
  have i: "uintn_size_in_bytes X entry_id \<in> {1, 2, 4, 8, 16}"
    using size_of_fixed_width [OF assms(3,2)] .
  have "unat (of_nat (uintn_size_in_bytes X ?n) :: u64) = uintn_size_in_bytes X ?n"
    "unat (of_nat (uintn_size_in_bytes X entry_id) :: u64) = uintn_size_in_bytes X entry_id"
    using n i by (intro unat_of_nat_word; auto)+
  then have "unat (wh_id_size_bytes (wal_header_resize X h entry_id n)) =
      max (unat (wh_id_size_bytes h)) (uintn_size_in_bytes X entry_id)"
    "unat (wh_data_size_bytes (wal_header_resize X h entry_id n)) =
      max (unat (wh_data_size_bytes h)) (uintn_size_in_bytes X ?n)"
    by (simp_all add: wal_header_resize_def unat_max_word Let_def)
  moreover have "max a b \<in> {1, 2, 4, 8, 16}" if "a \<in> {1, 2, 4, 8, 16}" "b \<in> {1, 2, 4, 8, 16}" for a b :: nat
    using that unfolding max_def by presburger
  ultimately show ?thesis
    using assms(1) n i unfolding valid_sizes_def by presburger
qed

lemma wal_header_from_reader_enc:
  assumes "ubig_bytes_ok X" "wal_header_ok X h"
    and "uintn_size_in_bytes X (wh_num_entries_before h) \<le> 10 * 1024 * 1024"
  shows "wal_header_from_reader X (wal_header_enc X h @ rest) =
         Ok (h, length (wal_header_enc X h), rest)"
  using assms read_value_le_bytes [OF assms(1), of "wh_num_entries_before h"]
  by (simp add: wal_header_enc_eq wal_header_from_reader_def WAL_HEADER_FIXED_SIZE_def
      wal_header_ok_def uintn_enc_eq uintn_encodable_def unat_of_nat_word Let_def read_exact_def)

lemma wal_header_from_reader_from_bytes:
  assumes "wal_header_from_reader X reader = Ok (h, n, rest)"
  shows "wal_header_from_bytes X reader = Ret (Ok (h, n)) \<and> rest = drop n reader"
  using assms
  by (auto simp: wal_header_from_reader_def wal_header_from_bytes_def WAL_HEADER_FIXED_SIZE_def
      read_exact_Some uintn_read_from_slice_def usize_add_def slice_def Let_def
      split: option.splits if_splits result.splits prod.splits)

section \<open>Properties\<close>

text \<open>
  The WAL file header round-trips, also from a reader: reading back what
  \<open>write_to_bytes\<close> appended yields the header and the number of bytes it reported, and leaves the
  reader at the first entry.
\<close>

lemma wal_header_roundtrip:
  assumes "ubig_bytes_ok X" "wal_header_ok X h"
    and "uintn_size_in_bytes X (wh_num_entries_before h) \<le> 10 * 1024 * 1024"
    and "wal_header_write_to_bytes X h dest = (dest', n)"
  shows "wal_header_from_bytes X (drop (length dest) dest' @ rest) = Ret (Ok (h, n)) \<and>
         wal_header_from_reader X (drop (length dest) dest' @ rest) = Ok (h, n, rest)"
  using assms wal_header_write_eq [OF assms(1), of h dest]
    wal_header_from_bytes_enc [OF assms(1,2)] wal_header_from_reader_enc [OF assms(1-3)]
  by auto

text \<open>
  The two parsers of the file header agree: whatever \<open>from_reader\<close> accepts, \<open>from_bytes\<close> accepts
  with the same header and the same length, and the reader has advanced by that length.
\<close>

lemma wal_header_parsers_agree:
  assumes "wal_header_from_reader X reader = Ok (h, n, rest)"
  shows "wal_header_from_bytes X reader = Ret (Ok (h, n)) \<and> rest = drop n reader"
  using wal_header_from_reader_from_bytes [OF assms] .

text \<open>
  An entry header that the file header can hold is written without error in
  exactly \<open>size\<close> bytes and reads back: \<open>can_hold_entry\<close> is the precondition under which the
  fixed-width fields lose nothing.
\<close>

lemma wal_entry_header_roundtrip:
  assumes "ubig_bytes_ok X" "valid_sizes h" "canonical entry_id"
    and "uintn_size_in_bytes X entry_id < 2 ^ 64"
    and "wal_header_can_hold_entry X h entry_id (length data)"
  shows "\<exists>bs. wal_entry_header_write_to_bytes X (wal_entry_header_new X entry_id data) dest h =
           Ok (dest @ bs) \<and> length bs = wal_entry_header_size h \<and>
         wal_entry_header_from_bytes X (bs @ rest) h = Ret (Ok (wal_entry_header_new X entry_id data))"
  using wal_entry_header_write_eq [OF assms(1,2) can_hold_entry_fits [OF assms(1,3-5)]]
    wal_entry_header_from_bytes_enc [OF assms(1,2) can_hold_entry_fits [OF assms(1,3-5)]]
  by blast

text \<open>
  Resizing a file header for an entry gives a header that holds the entry, never
  narrows a field, keeps the entry count, and keeps sizes the format accepts as long as the
  identifier fits 128 bits.
\<close>

lemma wal_header_resize_holds:
  assumes "valid_sizes h" "canonical entry_id" "uval entry_id < 2 ^ 128"
  shows "wal_header_can_hold_entry X (wal_header_resize X h entry_id n) entry_id n \<and>
    valid_sizes (wal_header_resize X h entry_id n) \<and>
    wh_id_size_bytes h \<le> wh_id_size_bytes (wal_header_resize X h entry_id n) \<and>
    wh_data_size_bytes h \<le> wh_data_size_bytes (wal_header_resize X h entry_id n) \<and>
    wh_num_entries_before (wal_header_resize X h entry_id n) = wh_num_entries_before h"
  using resize_can_hold resize_monotone resize_valid_sizes [OF assms] by blast

end
