(* ===== verification/Wal_Reader.thy ===== *)
theory Wal_Reader
  imports Wal_Format
begin

text \<open>
  The readers of WAL files (\<open>normfs-wal/src/reader.rs\<close>): the header, the range of identifiers and the
  contents of a file, and the two range reads that send entries to a channel, one from a file and
  one from the bytes of a decoded store file.

  A file system is a function from paths to contents or an error. A receiver may drop its
  channel at any time: \<open>closed t\<close> says whether it has by the \<open>t\<close>-th time the sender looks.
  The counters that are only logged are left out.
\<close>

section \<open>Files and channels\<close>

datatype io_error = NotFound | OtherIo string

type_synonym file_system = "string \<Rightarrow> (bytes, io_error) result"

type_synonym channel = "nat \<Rightarrow> bool"

section \<open>Headers and ranges\<close>

definition read_wal_header ::
  "ext \<Rightarrow> file_system \<Rightarrow> string \<Rightarrow> uintn \<Rightarrow> (wal_header, wal_error) result" where
  "read_wal_header X fs base_path file_id =
     (case fs (uintn_to_file_path X file_id base_path ''wal'') of
        Err NotFound \<Rightarrow> Err WalNotFound
      | Err (OtherIo e) \<Rightarrow> Err (IoError e)
      | Ok contents \<Rightarrow>
          if contents = [] then Err (WalEmpty file_id)
          else (case wal_header_from_reader X (take 128 contents) of
              Ok (h, _) \<Rightarrow> Ok h
            | Err WalHeader_SliceTooShort \<Rightarrow> Err (WalEmpty file_id)
            | Err e \<Rightarrow> Err (WalHeaderError e)))"

text \<open>
  The part the loops have in common: after an entry header, the record of the size it names and
  its hash. \<open>None\<close> is any of the three reasons to stop (a size beyond 64 bits, a cropped record,
  a hash mismatch).
\<close>

definition read_record :: "ext \<Rightarrow> wal_entry_header \<Rightarrow> bytes \<Rightarrow> (bytes \<times> bytes) option run" where
  "read_record X eh reader =
     (case uintn_to_u64 (weh_record_size eh) of
        Err _ \<Rightarrow> Ret None
      | Ok record_size \<Rightarrow> do {
          vec_alloc (unat record_size);
          Ret (case read_exact (unat record_size) reader of
              None \<Rightarrow> None
            | Some (record_buffer, reader) \<Rightarrow>
                if xxh64 X record_buffer \<noteq> weh_xxhash eh then None
                else Some (record_buffer, reader)) })"

lemma from_reader_shorter:
  "wal_entry_header_from_reader X reader h = Some (Ok (eh, rest)) \<Longrightarrow>
   length rest + 16 \<le> length reader"
  by (auto simp: wal_entry_header_from_reader_def usize_add_def vec_alloc_def read_exact_def
      WAL_ENTRY_HEADER_FIXED_OVERHEAD_def Let_def
      split: if_splits option.splits result.splits bind_splits)

lemma read_record_shorter: "read_record X eh reader = Some (Some (b, rest)) \<Longrightarrow> length rest \<le> length reader"
  by (auto simp: read_record_def vec_alloc_def read_exact_def split: if_splits option.splits result.splits)

function get_wal_range_loop ::
  "ext \<Rightarrow> wal_header \<Rightarrow> uintn option \<Rightarrow> uintn option \<Rightarrow> bytes \<Rightarrow> (uintn option \<times> uintn option) run" where
  "get_wal_range_loop X h first_id last_id reader =
     (case wal_entry_header_from_reader X reader h of
        None \<Rightarrow> Panic
      | Some (Err _) \<Rightarrow> Ret (first_id, last_id)
      | Some (Ok (eh, rest)) \<Rightarrow>
          let first_id = (if first_id = None then Some (weh_entry_id eh) else first_id)
          in (case read_record X eh rest of
                None \<Rightarrow> Panic
              | Some None \<Rightarrow> Ret (first_id, last_id)
              | Some (Some (_, rest)) \<Rightarrow>
                  get_wal_range_loop X h first_id (Some (weh_entry_id eh)) rest))"
  by auto
termination
  by (relation "measure (\<lambda>(_, _, _, _, reader). length reader)")
     (auto dest!: from_reader_shorter read_record_shorter)

declare get_wal_range_loop.simps [simp del]

definition get_wal_range ::
  "ext \<Rightarrow> file_system \<Rightarrow> string \<Rightarrow> uintn \<Rightarrow>
   (wal_header \<times> (uintn \<times> uintn) option, wal_error) result run" where
  "get_wal_range X fs base_path file_id =
     (case fs (uintn_to_file_path X file_id base_path ''wal'') of
        Err NotFound \<Rightarrow> Ret (Err WalNotFound)
      | Err (OtherIo e) \<Rightarrow> Ret (Err (IoError e))
      | Ok contents \<Rightarrow>
          if contents = [] then Ret (Err (WalEmpty file_id))
          else (case wal_header_from_reader X contents of
              Err WalHeader_SliceTooShort \<Rightarrow> Ret (Err (WalEmpty file_id))
            | Err e \<Rightarrow> Ret (Err (WalHeaderError e))
            | Ok (h, _, reader) \<Rightarrow> do {
                (first_id, last_id) \<leftarrow> get_wal_range_loop X h None None reader;
                Ret (Ok (h, do { first \<leftarrow> first_id; last \<leftarrow> last_id; Some (first, last) })) }))"

definition get_wal_header :: "ext \<Rightarrow> bytes \<Rightarrow> (wal_header, wal_header_error) result run" where
  "get_wal_header X content = do {
     r \<leftarrow> wal_header_from_bytes X content;
     Ret (case r of Err e \<Rightarrow> Err e | Ok (h, _) \<Rightarrow> Ok h) }"

section \<open>Contents\<close>

record wal_content =
  wc_entries_before :: uintn
  wc_num_entries :: uintn
  wc_content :: bytes

text \<open>
  The readers that work on the bytes of a file keep a cursor. The record is sliced instead of
  copied; the end of the record is computed in \<open>usize\<close>.
\<close>

definition slice_record ::
  "ext \<Rightarrow> wal_entry_header \<Rightarrow> bytes \<Rightarrow> usize \<Rightarrow> (bytes \<times> usize) option run" where
  "slice_record X eh content cursor =
     (case uintn_to_u64 (weh_record_size eh) of
        Err _ \<Rightarrow> Ret None
      | Ok record_size \<Rightarrow> do {
          stop \<leftarrow> usize_add cursor (unat record_size);
          if length content < stop then Ret None
          else do {
            record_buffer \<leftarrow> slice content cursor stop;
            Ret (if xxh64 X record_buffer \<noteq> weh_xxhash eh then None
                 else Some (record_buffer, stop)) } })"

lemma slice_record_cursor:
  "slice_record X eh content cursor = Some (Some (b, stop)) \<Longrightarrow> cursor \<le> stop \<and> stop \<le> length content"
  by (auto simp: slice_record_def usize_add_def split: if_splits result.splits bind_splits)

lemma from_bytes_long_enough:
  "wal_entry_header_from_bytes X data h = Some (Ok eh) \<Longrightarrow>
   16 \<le> wal_entry_header_size h \<and> wal_entry_header_size h \<le> length data"
  by (auto simp: wal_entry_header_from_bytes_def usize_add_def wal_entry_header_size_def
      WAL_ENTRY_HEADER_FIXED_OVERHEAD_def Let_def split: if_splits bind_splits)

function get_wal_content_loop ::
  "ext \<Rightarrow> wal_header \<Rightarrow> bytes \<Rightarrow> u64 \<Rightarrow> usize \<Rightarrow> u64 run" where
  "get_wal_content_loop X h content num_entries cursor =
     (if length content \<le> cursor then Ret num_entries
      else case wal_entry_header_from_bytes X (drop cursor content) h of
        None \<Rightarrow> Panic
      | Some (Err _) \<Rightarrow> Ret num_entries
      | Some (Ok eh) \<Rightarrow>
          (case slice_record X eh content (cursor + wal_entry_header_size h) of
             None \<Rightarrow> Panic
           | Some None \<Rightarrow> Ret num_entries
           | Some (Some (_, cursor)) \<Rightarrow> get_wal_content_loop X h content (num_entries + 1) cursor))"
  by auto
termination
  by (relation "measure (\<lambda>(_, _, content, _, cursor). length content - cursor)")
     (auto dest!: slice_record_cursor from_bytes_long_enough)

declare get_wal_content_loop.simps [simp del]

definition get_wal_content ::
  "ext \<Rightarrow> file_system \<Rightarrow> string \<Rightarrow> uintn \<Rightarrow> (wal_content, wal_error) result run" where
  "get_wal_content X fs base_path file_id =
     (case fs (uintn_to_file_path X file_id base_path ''wal'') of
        Err NotFound \<Rightarrow> Ret (Err WalNotFound)
      | Err (OtherIo e) \<Rightarrow> Ret (Err (IoError e))
      | Ok content \<Rightarrow>
          if content = [] then Ret (Err (WalEntryError WalEntry_SliceTooShort))
          else do {
            r \<leftarrow> wal_header_from_bytes X content;
            case r of
              Err e \<Rightarrow> Ret (Err (WalHeaderError e))
            | Ok (h, header_size) \<Rightarrow> do {
                num_entries \<leftarrow> get_wal_content_loop X h content 0 header_size;
                Ret (Ok \<lparr> wc_entries_before = wh_num_entries_before h,
                          wc_num_entries = uintn_from_u64 num_entries,
                          wc_content = content \<rparr>) } })"

section \<open>Range reads\<close>

datatype read_range_result =
    Complete
  | PartialRead "uintn option" uintn
  | ChannelClosed

text \<open>The part after the loop: what the read reports.\<close>

definition range_result ::
  "uintn \<Rightarrow> uintn option \<Rightarrow> uintn option \<Rightarrow> uintn option \<Rightarrow> bool \<Rightarrow> read_range_result" where
  "range_result from_id until_id last_read_id last_processed_id found_complete =
     (if found_complete \<or>
         (case (last_processed_id, until_id) of (Some p, Some until) \<Rightarrow> p \<ge> until | _ \<Rightarrow> False)
      then Complete
      else PartialRead last_read_id
             (case last_processed_id of Some p \<Rightarrow> p | None \<Rightarrow> from_id))"

definition past_range :: "uintn option \<Rightarrow> uintn \<Rightarrow> bool" where
  "past_range until_id i = (case until_id of Some until \<Rightarrow> i > until | None \<Rightarrow> False)"

definition reached_end :: "uintn option \<Rightarrow> uintn \<Rightarrow> bool" where
  "reached_end until_id i = (case until_id of Some until \<Rightarrow> i \<ge> until | None \<Rightarrow> False)"

definition in_range :: "uintn \<Rightarrow> uintn option \<Rightarrow> uintn \<Rightarrow> bool" where
  "in_range from_id until_id i \<longleftrightarrow>
     i \<ge> from_id \<and> (case until_id of Some until \<Rightarrow> i \<le> until | None \<Rightarrow> True)"

text \<open>
  What the loops do with a valid entry: send it when it is in the range and on a step.
  The result is the looks at the channel so far, the last identifier sent, the entries
  sent, and whether to stop (with the reason).
\<close>

datatype continue = Continue | Done bool | Closed

definition offer_entry ::
  "uintn \<Rightarrow> uintn option \<Rightarrow> usize \<Rightarrow> data_source \<Rightarrow> channel \<Rightarrow> nat \<Rightarrow> uintn option \<Rightarrow>
   read_entry list \<Rightarrow> uintn \<Rightarrow> bytes \<Rightarrow>
   (nat \<times> uintn option \<times> read_entry list \<times> continue) run" where
  "offer_entry from_id until_id step src closed t last_read_id sent i data =
     (if in_range from_id until_id i then do {
        on_step \<leftarrow> uintn_in_step i from_id step;
        if on_step then
          if closed t then Ret (t + 1, last_read_id, sent, Closed)
          else
            let sent = sent @ [read_entry_new i data src]
            in if reached_end until_id i then Ret (t + 1, Some i, sent, Done True)
               else Ret (t + 1, Some i, sent, Continue)
        else Ret (t, last_read_id, sent, Continue) }
      else Ret (t, last_read_id, sent, Continue))"

function read_wal_file_loop ::
  "ext \<Rightarrow> wal_header \<Rightarrow> uintn \<Rightarrow> uintn option \<Rightarrow> usize \<Rightarrow> data_source \<Rightarrow> channel \<Rightarrow>
   nat \<Rightarrow> uintn option \<Rightarrow> uintn option \<Rightarrow> read_entry list \<Rightarrow> bytes \<Rightarrow>
   (read_entry list \<times> read_range_result) run" where
  "read_wal_file_loop X h from_id until_id step src closed t last_read_id last_processed_id sent reader =
     (if closed t then Ret (sent, ChannelClosed)
      else case wal_entry_header_from_reader X reader h of
        None \<Rightarrow> Panic
      | Some (Err _) \<Rightarrow> Ret (sent, range_result from_id until_id last_read_id last_processed_id False)
      | Some (Ok (eh, rest)) \<Rightarrow>
          let i = weh_entry_id eh; last_processed_id = Some i
          in if past_range until_id i
             then Ret (sent, range_result from_id until_id last_read_id last_processed_id True)
             else case read_record X eh rest of
               None \<Rightarrow> Panic
             | Some None \<Rightarrow>
                 Ret (sent, range_result from_id until_id last_read_id last_processed_id False)
             | Some (Some (data, rest)) \<Rightarrow>
                 (case offer_entry from_id until_id step src closed (t + 1) last_read_id sent i data of
                    None \<Rightarrow> Panic
                  | Some (t, last_read_id, sent, Continue) \<Rightarrow>
                      read_wal_file_loop X h from_id until_id step src closed t last_read_id
                        last_processed_id sent rest
                  | Some (t, last_read_id, sent, Done found) \<Rightarrow>
                      Ret (sent, range_result from_id until_id last_read_id last_processed_id found)
                  | Some (t, last_read_id, sent, Closed) \<Rightarrow> Ret (sent, ChannelClosed)))"
  by auto
termination
  by (relation "measure (\<lambda>(_, _, _, _, _, _, _, _, _, _, _, reader). length reader)")
     (auto dest!: from_reader_shorter read_record_shorter)

declare read_wal_file_loop.simps [simp del]

definition read_wal_file_range ::
  "ext \<Rightarrow> file_system \<Rightarrow> string \<Rightarrow> uintn \<Rightarrow> uintn \<Rightarrow> uintn option \<Rightarrow> usize \<Rightarrow> channel \<Rightarrow> data_source \<Rightarrow>
   (read_entry list \<times> (read_range_result, wal_error) result) run" where
  "read_wal_file_range X fs base_path file_id from_id until_id step closed src =
     (case fs (uintn_to_file_path X file_id base_path ''wal'') of
        Err NotFound \<Rightarrow> Ret ([], Err WalNotFound)
      | Err (OtherIo e) \<Rightarrow> Ret ([], Err (IoError e))
      | Ok contents \<Rightarrow>
          if contents = [] then Ret ([], Ok (PartialRead None from_id))
          else (case wal_header_from_reader X contents of
              Err e \<Rightarrow> Ret ([], Err (WalHeaderError e))
            | Ok (h, _, reader) \<Rightarrow> do {
                (sent, result) \<leftarrow> read_wal_file_loop X h from_id until_id (max step 1) src closed
                   0 None None [] reader;
                Ret (sent, Ok result) }))"

function read_wal_bytes_loop ::
  "ext \<Rightarrow> wal_header \<Rightarrow> uintn \<Rightarrow> uintn option \<Rightarrow> usize \<Rightarrow> data_source \<Rightarrow> channel \<Rightarrow> bytes \<Rightarrow>
   nat \<Rightarrow> uintn option \<Rightarrow> uintn option \<Rightarrow> read_entry list \<Rightarrow> usize \<Rightarrow>
   (read_entry list \<times> read_range_result) run" where
  "read_wal_bytes_loop X h from_id until_id step src closed content t last_read_id last_processed_id
       sent cursor =
     (if closed t then Ret (sent, ChannelClosed)
      else if length content \<le> cursor
      then Ret (sent, range_result from_id until_id last_read_id last_processed_id False)
      else case wal_entry_header_from_bytes X (drop cursor content) h of
        None \<Rightarrow> Panic
      | Some (Err _) \<Rightarrow> Ret (sent, range_result from_id until_id last_read_id last_processed_id False)
      | Some (Ok eh) \<Rightarrow>
          let i = weh_entry_id eh; last_processed_id = Some i
          in if past_range until_id i
             then Ret (sent, range_result from_id until_id last_read_id last_processed_id True)
             else case slice_record X eh content (cursor + wal_entry_header_size h) of
               None \<Rightarrow> Panic
             | Some None \<Rightarrow>
                 Ret (sent, range_result from_id until_id last_read_id last_processed_id False)
             | Some (Some (data, cursor)) \<Rightarrow>
                 (case offer_entry from_id until_id step src closed (t + 1) last_read_id sent i data of
                    None \<Rightarrow> Panic
                  | Some (t, last_read_id, sent, Continue) \<Rightarrow>
                      read_wal_bytes_loop X h from_id until_id step src closed content t last_read_id
                        last_processed_id sent cursor
                  | Some (t, last_read_id, sent, Done found) \<Rightarrow>
                      Ret (sent, range_result from_id until_id last_read_id last_processed_id found)
                  | Some (t, last_read_id, sent, Closed) \<Rightarrow> Ret (sent, ChannelClosed)))"
  by auto
termination
  by (relation "measure (\<lambda>(_, _, _, _, _, _, _, content, _, _, _, _, cursor). length content - cursor)")
     (auto dest!: slice_record_cursor from_bytes_long_enough)

declare read_wal_bytes_loop.simps [simp del]

definition read_wal_bytes_range ::
  "ext \<Rightarrow> bytes \<Rightarrow> uintn \<Rightarrow> uintn option \<Rightarrow> usize \<Rightarrow> channel \<Rightarrow> data_source \<Rightarrow>
   (read_entry list \<times> (read_range_result, wal_error) result) run" where
  "read_wal_bytes_range X content from_id until_id step closed src =
     (if content = [] then Ret ([], Ok (PartialRead None from_id))
      else do {
        r \<leftarrow> wal_header_from_bytes X content;
        case r of
          Err WalHeader_SliceTooShort \<Rightarrow> Ret ([], Ok (PartialRead None from_id))
        | Err e \<Rightarrow> Ret ([], Err (WalHeaderError e))
        | Ok (h, header_size) \<Rightarrow> do {
            (sent, result) \<leftarrow> read_wal_bytes_loop X h from_id until_id (max step 1) src closed content
               0 None None [] header_size;
            Ret (sent, Ok result) } })"

end
