(* ===== verification/Wal_Correct.thy ===== *)
theory Wal_Correct
  imports Wal_Reader
begin

text \<open>
  What the WAL readers return: on a file that holds a header and entries, followed by a rest
  that holds no further valid entry (nothing, or the part of an entry that reached the disk before a
  crash), every reader sees exactly the entries. The two range reads agree with each other, and send
  exactly the entries in the range that lie on the step.
\<close>

section \<open>Well-formed files\<close>

text \<open>
  The bytes of an entry and of a file, and the entries a file with a given header can hold.
\<close>

definition entry_enc :: "ext \<Rightarrow> wal_header \<Rightarrow> uintn \<times> bytes \<Rightarrow> bytes" where
  "entry_enc X h e = wal_entry_header_enc X h (wal_entry_header_new X (fst e) (snd e)) @ snd e"

definition entry_ok :: "wal_header \<Rightarrow> uintn \<times> bytes \<Rightarrow> bool" where
  "entry_ok h e \<longleftrightarrow> canonical (fst e) \<and> uval (fst e) < 256 ^ unat (wh_id_size_bytes h) \<and>
     length (snd e) < 256 ^ unat (wh_data_size_bytes h) \<and> length (snd e) < 2 ^ 63"

definition entries_enc :: "ext \<Rightarrow> wal_header \<Rightarrow> (uintn \<times> bytes) list \<Rightarrow> bytes" where
  "entries_enc X h es = concat (map (entry_enc X h) es)"

definition wal_file_bytes :: "ext \<Rightarrow> wal_header \<Rightarrow> (uintn \<times> bytes) list \<Rightarrow> bytes" where
  "wal_file_bytes X h es = wal_header_enc X h @ entries_enc X h es"

lemma entries_enc_simps [simp]:
  "entries_enc X h [] = []"
  "entries_enc X h (e # es) = entry_enc X h e @ entries_enc X h es"
  "entries_enc X h (es @ fs) = entries_enc X h es @ entries_enc X h fs"
  by (simp_all add: entries_enc_def)

lemma entry_ok_fits: "entry_ok h e \<Longrightarrow> entry_header_fits h (wal_entry_header_new X (fst e) (snd e))"
  by (simp add: entry_ok_def entry_header_fits_def wal_entry_header_new_def unat_of_nat_word)

lemma uintn_to_u64_from_u64 [simp]: "uintn_to_u64 (uintn_from_u64 w) = Ok w"
  by (auto simp: uintn_from_u64_def word_unat_eq_iff word_le_nat_alt unat_ucast_up unat_ucast_down)

lemma entry_from_reader:
  assumes "ubig_bytes_ok X" "valid_sizes h" "entry_ok h e"
  shows "wal_entry_header_from_reader X (entry_enc X h e @ rest) h =
    Ret (Ok (wal_entry_header_new X (fst e) (snd e), snd e @ rest))"
  using wal_entry_header_from_reader_enc [OF assms(1,2) entry_ok_fits [OF assms(3)]]
  by (simp add: entry_enc_def)

lemma entry_read_record:
  assumes "entry_ok h e"
  shows "read_record X (wal_entry_header_new X (fst e) (snd e)) (snd e @ rest) = Ret (Some (snd e, rest))"
  using assms
  by (simp add: read_record_def wal_entry_header_new_def entry_ok_def vec_alloc_def unat_of_nat_word)

lemma entry_from_bytes:
  assumes "ubig_bytes_ok X" "valid_sizes h" "entry_ok h e"
  shows "wal_entry_header_from_bytes X (entry_enc X h e @ rest) h =
    Ret (Ok (wal_entry_header_new X (fst e) (snd e)))"
  using wal_entry_header_from_bytes_enc [OF assms(1,2) entry_ok_fits [OF assms(3)]]
  by (simp add: entry_enc_def)

lemma length_entry_enc:
  assumes "ubig_bytes_ok X" "valid_sizes h" "entry_ok h e"
  shows "length (entry_enc X h e) = wal_entry_header_size h + length (snd e)"
  using wal_entry_header_write_eq(2) [OF assms(1,2) entry_ok_fits [OF assms(3)]]
  by (simp add: entry_enc_def)

lemma weh_new [simp]: "weh_entry_id (wal_entry_header_new X i d) = i"
  by (simp add: wal_entry_header_new_def)

section \<open>The range of a file\<close>

text \<open>A rest of a file that holds no further valid entry.\<close>

definition stops :: "ext \<Rightarrow> wal_header \<Rightarrow> bytes \<Rightarrow> bool" where
  "stops X h tail =
     (case wal_entry_header_from_reader X tail h of
        None \<Rightarrow> False
      | Some (Err _) \<Rightarrow> True
      | Some (Ok (eh, rest)) \<Rightarrow> read_record X eh rest = Ret None)"

lemma from_reader_short:
  assumes "valid_sizes h" "length tail < wal_entry_header_size h"
  shows "wal_entry_header_from_reader X tail h = Ret (Err WalEntry_SliceTooShort)"
  using assms valid_sizes_bound [OF assms(1)]
  by (simp add: wal_entry_header_from_reader_def wal_entry_header_size_def usize_add_def
      vec_alloc_def read_exact_def WAL_ENTRY_HEADER_FIXED_OVERHEAD_def)

lemma stops_Nil: "valid_sizes h \<Longrightarrow> stops X h []"
  using from_reader_short [of h "[]" X]
  by (simp add: stops_def wal_entry_header_size_def WAL_ENTRY_HEADER_FIXED_OVERHEAD_def)

lemma read_record_short:
  assumes "entry_ok h e" "length d < length (snd e)"
  shows "read_record X (wal_entry_header_new X (fst e) (snd e)) d = Ret None"
  using assms
  by (simp add: read_record_def wal_entry_header_new_def entry_ok_def vec_alloc_def
      unat_of_nat_word read_exact_def)

text \<open>An entry of which only a part reached the disk.\<close>

lemma stops_torn:
  assumes "ubig_bytes_ok X" "valid_sizes h" "entry_ok h e" "k < length (entry_enc X h e)"
  shows "stops X h (take k (entry_enc X h e))"
proof (cases "k < wal_entry_header_size h")
  case True
  then show ?thesis using from_reader_short [OF assms(2)] by (simp add: stops_def)
next
  case False
  let ?hd = "wal_entry_header_enc X h (wal_entry_header_new X (fst e) (snd e))"
  have len: "length ?hd = wal_entry_header_size h"
    by (rule wal_entry_header_write_eq(2) [OF assms(1,2) entry_ok_fits [OF assms(3)]])
  obtain d where d: "take k (entry_enc X h e) = ?hd @ d" "length d < length (snd e)"
  proof
    show "take k (entry_enc X h e) = ?hd @ take (k - length ?hd) (snd e)"
      using False len by (simp add: entry_enc_def)
    show "length (take (k - length ?hd) (snd e)) < length (snd e)"
      using False len assms(4) by (simp add: length_entry_enc [OF assms(1-3)])
  qed
  show ?thesis
    unfolding stops_def d(1)
    by (simp add: wal_entry_header_from_reader_enc [OF assms(1,2) entry_ok_fits [OF assms(3)]]
        read_record_short [OF assms(3) d(2)])
qed

lemma range_loop_step:
  assumes "ubig_bytes_ok X" "valid_sizes h" "entry_ok h e"
  shows "get_wal_range_loop X h first l (entry_enc X h e @ rest) =
    get_wal_range_loop X h (if first = None then Some (fst e) else first) (Some (fst e)) rest"
  by (subst get_wal_range_loop.simps)
     (simp add: entry_from_reader [OF assms] entry_read_record [OF assms(3)])

lemma range_loop_stop:
  assumes "stops X h tail"
  shows "\<exists>f. get_wal_range_loop X h first l tail = Ret (f, l) \<and> (first \<noteq> None \<longrightarrow> f = first)"
  using assms
  by (subst get_wal_range_loop.simps)
     (auto simp: stops_def split: option.splits result.splits)

lemma range_loop_entries:
  assumes "ubig_bytes_ok X" "valid_sizes h" "list_all (entry_ok h) es" "stops X h tail" "first \<noteq> None"
  shows "get_wal_range_loop X h first l (entries_enc X h es @ tail) =
    Ret (first, if es = [] then l else Some (fst (last es)))"
  using assms(3,5)
proof (induction es arbitrary: first l)
  case Nil then show ?case using range_loop_stop [OF assms(4)] by fastforce
next
  case (Cons e es)
  then show ?case by (auto simp: range_loop_step [OF assms(1,2)])
qed

section \<open>Range reads send exactly the selected entries\<close>

definition on_step :: "uintn \<Rightarrow> usize \<Rightarrow> uintn \<Rightarrow> bool" where
  "on_step from_id step i \<longleftrightarrow> (uval i - uval from_id) mod step = 0"

definition selected :: "uintn \<Rightarrow> uintn option \<Rightarrow> usize \<Rightarrow> (uintn \<times> bytes) list \<Rightarrow> (uintn \<times> bytes) list" where
  "selected from_id until_id step es =
     filter (\<lambda>e. in_range from_id until_id (fst e) \<and> on_step from_id step (fst e)) es"

definition as_read :: "data_source \<Rightarrow> uintn \<times> bytes \<Rightarrow> read_entry" where
  "as_read src e = read_entry_new (fst e) (snd e) src"

definition ascending :: "(uintn \<times> bytes) list \<Rightarrow> bool" where
  "ascending es \<longleftrightarrow> sorted_wrt (\<lambda>a b. uval (fst a) < uval (fst b)) es"

lemma ascending_simps [simp]:
  "ascending []"
  "ascending (e # es) \<longleftrightarrow> (\<forall>f \<in> set es. uval (fst e) < uval (fst f)) \<and> ascending es"
  by (simp_all add: ascending_def)

lemma in_step_on_step:
  assumes "uintn_ok i" "1 \<le> step" "step < 2 ^ 64" "uval from_id \<le> uval i"
  shows "uintn_in_step i from_id step = Ret (on_step from_id step i)"
proof (cases "step = 1")
  case False
  then show ?thesis using uintn_in_step_eq [OF assms(1), of step from_id] assms by (simp add: on_step_def)
qed (simp add: uintn_in_step_def on_step_def)

lemma in_range_le: "in_range from_id until_id i \<Longrightarrow> uval from_id \<le> uval i"
  by (simp add: in_range_def)

lemma offer_entry_open:
  assumes "uintn_ok i" "1 \<le> step" "step < 2 ^ 64"
  shows "\<exists>t'. offer_entry from_id until_id step src (\<lambda>_. False) t lr sent i data =
    (if in_range from_id until_id i \<and> on_step from_id step i
     then Ret (t', Some i, sent @ [as_read src (i, data)],
               if reached_end until_id i then Done True else Continue)
     else Ret (t', lr, sent, Continue))"
  using in_step_on_step [OF assms in_range_le]
  by (auto simp: offer_entry_def as_read_def Let_def)

lemma selected_past:
  "past_range until_id i \<Longrightarrow> \<forall>f \<in> set es. uval i \<le> uval (fst f) \<Longrightarrow> selected from_id until_id step es = []"
  by (auto simp: selected_def past_range_def in_range_def filter_empty_conv split: option.splits)

lemma selected_after_end:
  "reached_end until_id i \<Longrightarrow> \<forall>f \<in> set es. uval i < uval (fst f) \<Longrightarrow> selected from_id until_id step es = []"
  by (auto simp: selected_def reached_end_def in_range_def filter_empty_conv split: option.splits)

text \<open>
  A loop over the entries of a file either ends with \<open>Complete\<close> at an entry at or beyond the
  end of the range, or reaches the rest of the file.
\<close>

lemma file_loop_entries:
  assumes "ubig_bytes_ok X" "valid_sizes h" "1 \<le> step" "step < 2 ^ 64"
  shows "list_all (entry_ok h) es \<Longrightarrow> ascending es \<Longrightarrow>
    let loop = read_wal_file_loop X h from_id until_id step src (\<lambda>_. False);
        sel = selected from_id until_id step es
    in (loop t lr lp sent (entries_enc X h es @ tail) = Ret (sent @ map (as_read src) sel, Complete) \<and>
        (\<exists>e \<in> set es. reached_end until_id (fst e))) \<or>
       (\<exists>t'. loop t lr lp sent (entries_enc X h es @ tail) =
          loop t' (if sel = [] then lr else Some (fst (last sel)))
               (if es = [] then lp else Some (fst (last es)))
               (sent @ map (as_read src) sel) tail)"
proof (induction es arbitrary: t lr lp sent)
  case Nil
  then show ?case by (auto simp: selected_def Let_def)
next
  case (Cons e es)
  let ?i = "fst e" and ?loop = "read_wal_file_loop X h from_id until_id step src (\<lambda>_. False)"
  let ?s = "selected from_id until_id step"
  have e: "entry_ok h e" and es: "list_all (entry_ok h) es" "ascending es" "\<forall>f \<in> set es. uval ?i < uval (fst f)"
    using Cons.prems by auto
  have ok: "uintn_ok ?i" using e by (auto simp: entry_ok_def)
  show ?case
  proof (cases "past_range until_id ?i")
    case True
    then have "?s (e # es) = []" using es(3) by (intro selected_past [OF True]) auto
    moreover have "?loop t lr lp sent (entries_enc X h (e # es) @ tail) = Ret (sent, Complete)"
      by (subst read_wal_file_loop.simps)
         (simp add: entry_from_reader [OF assms(1,2) e] True range_result_def Let_def)
    moreover have "reached_end until_id ?i"
      using True by (auto simp: past_range_def reached_end_def split: option.splits)
    ultimately show ?thesis by simp
  next
    case False
    obtain t' where o: "offer_entry from_id until_id step src (\<lambda>_. False) (Suc t) lr sent ?i (snd e) =
      (if in_range from_id until_id ?i \<and> on_step from_id step ?i
       then Ret (t', Some ?i, sent @ [as_read src e],
                 if reached_end until_id ?i then Done True else Continue)
       else Ret (t', lr, sent, Continue))"
      using offer_entry_open [OF ok assms(3,4), of from_id until_id src "Suc t" lr sent "snd e"]
      unfolding prod.collapse by blast
    have unfold: "?loop t lr lp sent (entries_enc X h (e # es) @ tail) =
      (if in_range from_id until_id ?i \<and> on_step from_id step ?i
       then if reached_end until_id ?i then Ret (sent @ [as_read src e], Complete)
            else ?loop t' (Some ?i) (Some ?i) (sent @ [as_read src e]) (entries_enc X h es @ tail)
       else ?loop t' lr (Some ?i) sent (entries_enc X h es @ tail))"
      by (subst read_wal_file_loop.simps)
         (simp add: entry_from_reader [OF assms(1,2) e] entry_read_record [OF e] False o
          range_result_def Let_def)
    show ?thesis
    proof (cases "in_range from_id until_id ?i \<and> on_step from_id step ?i")
      case sel: True
      then have s: "?s (e # es) = e # ?s es" by (simp add: selected_def)
      show ?thesis
      proof (cases "reached_end until_id ?i")
        case True
        then have "?s es = []" using es(3) by (intro selected_after_end)
        then show ?thesis using unfold sel True s by (simp add: Let_def)
      next
        case False
        then show ?thesis
          using unfold sel s Cons.IH [OF es(1,2), of t' "Some ?i" "Some ?i" "sent @ [as_read src e]"]
          by (auto simp: Let_def)
      qed
    next
      case nsel: False
      then have s: "?s (e # es) = ?s es" by (simp add: selected_def)
      show ?thesis
        using unfold nsel s Cons.IH [OF es(1,2), of t' lr "Some ?i" sent] by (auto simp: Let_def)
    qed
  qed
qed

section \<open>The two range reads agree\<close>

lemma take_drop_take: "a + b \<le> n \<Longrightarrow> take a (drop b (take n xs)) = take a (drop b xs)"
  by (simp add: drop_take min_def)

lemma from_bytes_take:
  assumes "wal_entry_header_size h \<le> length data"
  shows "wal_entry_header_from_bytes X (take (wal_entry_header_size h) data) h =
         wal_entry_header_from_bytes X data h"
  using assms
  by (auto simp: wal_entry_header_from_bytes_def wal_entry_header_size_def usize_add_def Let_def
      WAL_ENTRY_HEADER_FIXED_OVERHEAD_def take_drop_take min_def split: result.splits)
     (simp add: drop_take)

lemma from_reader_from_bytes:
  assumes "wal_entry_header_from_reader X data h = Ret r"
  shows "(case r of
      Err e \<Rightarrow> (\<exists>e'. wal_entry_header_from_bytes X data h = Ret (Err e'))
    | Ok (eh, rest) \<Rightarrow> wal_entry_header_from_bytes X data h = Ret (Ok eh) \<and>
        wal_entry_header_size h \<le> length data \<and> rest = drop (wal_entry_header_size h) data)"
proof -
  have size: "wal_entry_header_size h < 2 ^ 64" "unat (wh_id_size_bytes h) + 16 < 2 ^ 64"
    using assms by (auto simp: wal_entry_header_from_reader_def wal_entry_header_size_def
        usize_add_def Let_def WAL_ENTRY_HEADER_FIXED_OVERHEAD_def split: if_splits bind_splits)
  show ?thesis
  proof (cases "wal_entry_header_size h \<le> length data")
    case True
    then show ?thesis using assms size from_bytes_take [OF True, of X]
      by (auto simp: wal_entry_header_from_reader_def wal_entry_header_size_def usize_add_def
          read_exact_def Let_def WAL_ENTRY_HEADER_FIXED_OVERHEAD_def
          split: result.splits bind_splits if_splits)
  next
    case False
    then show ?thesis using assms size
      by (auto simp: wal_entry_header_from_reader_def wal_entry_header_from_bytes_def
          wal_entry_header_size_def usize_add_def read_exact_def Let_def
          WAL_ENTRY_HEADER_FIXED_OVERHEAD_def split: result.splits bind_splits if_splits)
  qed
qed

lemma read_record_slice_record:
  assumes "read_record X eh (drop cursor content) = Ret r" "length content < 2 ^ 63"
    and "cursor \<le> length content"
  shows "(case r of
      None \<Rightarrow> slice_record X eh content cursor = Ret None
    | Some (d, rest) \<Rightarrow> \<exists>stop. slice_record X eh content cursor = Ret (Some (d, stop)) \<and>
        rest = drop stop content \<and> cursor \<le> stop \<and> stop \<le> length content)"
proof (cases "uintn_to_u64 (weh_record_size eh)")
  case (Ok n)
  then have "unat n < 2 ^ 63"
    using assms(1) by (auto simp: read_record_def vec_alloc_def split: if_splits)
  then show ?thesis using assms Ok
    by (auto simp: read_record_def slice_record_def vec_alloc_def read_exact_def usize_add_def
        slice_def add.commute split: option.splits if_splits)
qed (use assms in \<open>auto simp: read_record_def slice_record_def\<close>)

lemma bytes_loop_agrees:
  assumes "length content < 2 ^ 63"
  shows "read_wal_file_loop X h from_id until_id step src closed t lr lp sent reader = Ret r \<Longrightarrow>
    reader = drop cursor content \<Longrightarrow> cursor \<le> length content \<Longrightarrow>
    read_wal_bytes_loop X h from_id until_id step src closed content t lr lp sent cursor = Ret r"
proof (induction X h from_id until_id step src closed t lr lp sent reader arbitrary: cursor
    rule: read_wal_file_loop.induct)
  case (1 X h from_id until_id step src closed t lr lp sent reader)
  note run = 1(2) [unfolded read_wal_file_loop.simps [of X h from_id until_id step src closed t lr lp sent reader]]
  show ?case
  proof (cases "closed t")
    case True
    then show ?thesis using run by (subst read_wal_bytes_loop.simps) simp
  next
    case opn: False
    then obtain hr where hr: "wal_entry_header_from_reader X reader h = Ret hr"
      using run by (cases "wal_entry_header_from_reader X reader h") auto
    show ?thesis
    proof (cases hr)
      case (Err e)
      then show ?thesis using run opn hr from_reader_from_bytes [OF hr] 1(3)
        by (subst read_wal_bytes_loop.simps) auto
    next
      case (Ok p)
      then obtain eh rest where p: "hr = Ok (eh, rest)" by (cases p) auto
      let ?i = "weh_entry_id eh" and ?c = "cursor + wal_entry_header_size h"
      from from_reader_from_bytes [OF hr] p 1(3)
      have fb: "wal_entry_header_from_bytes X (drop cursor content) h = Ret (Ok eh)"
        "rest = drop ?c content" "?c \<le> length content" "cursor < length content"
        using from_bytes_long_enough [of X "drop cursor content" h eh] 1(4) by (auto simp: add.commute)
      show ?thesis
      proof (cases "past_range until_id ?i")
        case True
        then show ?thesis using run opn hr p fb by (subst read_wal_bytes_loop.simps) (simp add: Let_def)
      next
        case np: False
        then obtain rr where rr: "read_record X eh rest = Ret rr"
          using run opn hr p by (cases "read_record X eh rest") (auto simp: Let_def)
        show ?thesis
        proof (cases rr)
          case None
          then show ?thesis using run opn hr p fb np rr read_record_slice_record [of X eh ?c content None] assms
            by (subst read_wal_bytes_loop.simps) (simp add: Let_def)
        next
          case (Some q)
          then obtain d rest' where q: "rr = Some (d, rest')" by (cases q) auto
          obtain stop where stop: "slice_record X eh content ?c = Ret (Some (d, stop))"
            "rest' = drop stop content" "stop \<le> length content"
            using read_record_slice_record [of X eh ?c content rr] rr q fb assms by auto
          obtain u where u: "offer_entry from_id until_id step src closed (Suc t) lr sent ?i d = Ret u"
            using run opn hr p np rr q
            by (cases "offer_entry from_id until_id step src closed (Suc t) lr sent ?i d") (auto simp: Let_def)
          obtain t' lr' sent' k where u': "u = (t', lr', sent', k)" by (cases u) auto
          show ?thesis
            using run opn hr p np rr q u u' fb stop 1(1)
            by (subst read_wal_bytes_loop.simps) (cases k; force simp: Let_def)
        qed
      qed
    qed
  qed
qed

section \<open>From files to results\<close>

lemma file_loop_stop:
  assumes "stops X h tail"
  shows "\<exists>res. read_wal_file_loop X h from_id until_id step src (\<lambda>_. False) t lr lp sent tail = Ret (sent, res)"
  using assms
  by (subst read_wal_file_loop.simps)
     (auto simp: stops_def Let_def split: option.splits result.splits)

lemma file_loop_Nil:
  "valid_sizes h \<Longrightarrow> read_wal_file_loop X h from_id until_id step src (\<lambda>_. False) t lr lp sent [] =
   Ret (sent, range_result from_id until_id lr lp False)"
  using from_reader_short [of h "[]" X]
  by (subst read_wal_file_loop.simps)
     (simp add: wal_entry_header_size_def WAL_ENTRY_HEADER_FIXED_OVERHEAD_def)

lemma ascending_last: "ascending es \<Longrightarrow> e \<in> set es \<Longrightarrow> uval (fst e) \<le> uval (fst (last es))"
  by (induction es) (auto simp: less_imp_le dest: last_in_set)

definition range_outcome ::
  "uintn \<Rightarrow> uintn option \<Rightarrow> usize \<Rightarrow> (uintn \<times> bytes) list \<Rightarrow> read_range_result" where
  "range_outcome from_id until_id step es =
     (if \<exists>e \<in> set es. reached_end until_id (fst e) then Complete
      else PartialRead
        (let sel = selected from_id until_id step es in if sel = [] then None else Some (fst (last sel)))
        (if es = [] then from_id else fst (last es)))"

lemma range_result_last:
  assumes "ascending es"
  shows "range_result from_id until_id
      (if selected from_id until_id step es = [] then None
       else Some (fst (last (selected from_id until_id step es))))
      (if es = [] then None else Some (fst (last es))) False =
    range_outcome from_id until_id step es"
proof (cases "\<exists>e \<in> set es. reached_end until_id (fst e)")
  case True
  then obtain e u where e: "e \<in> set es" "until_id = Some u" "uval u \<le> uval (fst e)"
    by (auto simp: reached_end_def split: option.splits)
  then have "uval u \<le> uval (fst (last es))" using ascending_last [OF assms e(1)] by linarith
  with e True show ?thesis by (auto simp: range_result_def range_outcome_def)
next
  case False
  then have "es \<noteq> [] \<Longrightarrow> \<not> reached_end until_id (fst (last es))" by auto
  with False show ?thesis
    by (auto simp: range_result_def range_outcome_def reached_end_def Let_def split: option.splits)
qed

lemma file_loop_file:
  assumes "ubig_bytes_ok X" "valid_sizes h" "1 \<le> step" "step < 2 ^ 64"
    and "list_all (entry_ok h) es" "ascending es" "stops X h tail"
  shows "\<exists>res. read_wal_file_loop X h from_id until_id step src (\<lambda>_. False) 0 None None []
           (entries_enc X h es @ tail) =
         Ret (map (as_read src) (selected from_id until_id step es), res) \<and>
         (tail = [] \<longrightarrow> res = range_outcome from_id until_id step es)"
proof -
  let ?sel = "selected from_id until_id step es"
  let ?loop = "read_wal_file_loop X h from_id until_id step src (\<lambda>_. False)"
  from file_loop_entries [OF assms(1-6), of from_id until_id src 0 None None "[]" tail]
  consider (complete) "?loop 0 None None [] (entries_enc X h es @ tail) =
      Ret (map (as_read src) ?sel, Complete)" "\<exists>e \<in> set es. reached_end until_id (fst e)"
    | (rest) t' where "?loop 0 None None [] (entries_enc X h es @ tail) =
      ?loop t' (if ?sel = [] then None else Some (fst (last ?sel)))
        (if es = [] then None else Some (fst (last es))) (map (as_read src) ?sel) tail"
    unfolding Let_def append_Nil by blast
  then show ?thesis
  proof cases
    case complete
    then show ?thesis by (auto simp: range_outcome_def)
  next
    case (rest t')
    then show ?thesis
      using file_loop_stop [OF assms(7)] file_loop_Nil [OF assms(2)] range_result_last [OF assms(6)]
      by (cases "tail = []") auto
  qed
qed

definition wal_header_readable :: "ext \<Rightarrow> wal_header \<Rightarrow> bool" where
  "wal_header_readable X h \<longleftrightarrow> wal_header_ok X h \<and> valid_sizes h \<and>
     uintn_size_in_bytes X (wh_num_entries_before h) \<le> 10 * 1024 * 1024"

lemma wal_file_from_reader:
  assumes "ubig_bytes_ok X" "wal_header_readable X h"
  shows "wal_header_from_reader X (wal_file_bytes X h es @ tail) =
    Ok (h, length (wal_header_enc X h), entries_enc X h es @ tail)"
  using wal_header_from_reader_enc [OF assms(1)] assms(2)
  by (simp add: wal_file_bytes_def wal_header_readable_def)

lemma wal_file_not_Nil: "ubig_bytes_ok X \<Longrightarrow> wal_file_bytes X h es \<noteq> []"
  by (simp add: wal_file_bytes_def wal_header_enc_eq u64_to_le_bytes_def flip: length_greater_0_conv)

lemma get_wal_range_file:
  assumes "ubig_bytes_ok X" "wal_header_readable X h" "list_all (entry_ok h) es" "stops X h tail"
    and "fs (uintn_to_file_path X file_id base ''wal'') = Ok (wal_file_bytes X h es @ tail)"
  shows "get_wal_range X fs base file_id =
    Ret (Ok (h, if es = [] then None else Some (fst (hd es), fst (last es))))"
proof -
  have sizes: "valid_sizes h" using assms(2) by (simp add: wal_header_readable_def)
  have "\<exists>f l. get_wal_range_loop X h None None (entries_enc X h es @ tail) = Ret (f, l) \<and>
      (es \<noteq> [] \<longrightarrow> f = Some (fst (hd es)) \<and> l = Some (fst (last es))) \<and> (es = [] \<longrightarrow> l = None)"
  proof (cases es)
    case Nil
    then show ?thesis using range_loop_stop [OF assms(4), of None None] by auto
  next
    case (Cons e es')
    then show ?thesis
      using range_loop_entries [OF assms(1) sizes _ assms(4), of es'] assms(3)
      by (auto simp: range_loop_step [OF assms(1) sizes])
  qed
  then show ?thesis
    using assms(5) wal_file_not_Nil [OF assms(1)] wal_file_from_reader [OF assms(1,2)]
    by (auto simp: get_wal_range_def)
qed

lemma read_ranges_agree_lemma:
  assumes "fs (uintn_to_file_path X file_id base ''wal'') = Ok content" "length content < 2 ^ 63"
    and "read_wal_file_range X fs base file_id from_id until_id step closed src = Ret (sent, Ok res)"
  shows "read_wal_bytes_range X content from_id until_id step closed src = Ret (sent, Ok res)"
proof (cases "content = []")
  case False
  then obtain h n reader where h: "wal_header_from_reader X content = Ok (h, n, reader)"
    using assms(1,3) by (auto simp: read_wal_file_range_def split: result.splits)
  then have loop: "read_wal_file_loop X h from_id until_id (max step 1) src closed 0 None None [] reader =
      Ret (sent, res)"
    using assms(1,3) False by (auto simp: read_wal_file_range_def split: bind_splits)
  have n: "n \<le> length content"
    using h by (auto simp: wal_header_from_reader_def read_exact_Some WAL_HEADER_FIXED_SIZE_def Let_def
        split: option.splits if_splits result.splits prod.splits)
  have "read_wal_bytes_loop X h from_id until_id (max step 1) src closed content 0 None None [] n =
      Ret (sent, res)"
    using bytes_loop_agrees [OF assms(2) loop] wal_header_from_reader_from_bytes [OF h] n by simp
  then show ?thesis
    using wal_header_from_reader_from_bytes [OF h] False by (simp add: read_wal_bytes_range_def)
qed (use assms in \<open>simp add: read_wal_file_range_def read_wal_bytes_range_def\<close>)

text \<open>The cursor-based reader, one entry at a time.\<close>

lemma content_loop_step:
  assumes "ubig_bytes_ok X" "valid_sizes h" "entry_ok h e" "length (pre @ entry_enc X h e @ rest) < 2 ^ 63"
  shows "get_wal_content_loop X h (pre @ entry_enc X h e @ rest) n (length pre) =
    get_wal_content_loop X h (pre @ entry_enc X h e @ rest) (n + 1) (length (pre @ entry_enc X h e))"
proof -
  let ?c = "pre @ entry_enc X h e @ rest" and ?eh = "wal_entry_header_new X (fst e) (snd e)"
  have len: "length (entry_enc X h e) = wal_entry_header_size h + length (snd e)"
    by (rule length_entry_enc [OF assms(1-3)])
  have pos: "0 < wal_entry_header_size h"
    by (simp add: wal_entry_header_size_def WAL_ENTRY_HEADER_FIXED_OVERHEAD_def)
  let ?hd = "wal_entry_header_enc X h ?eh"
  have hd: "length ?hd = wal_entry_header_size h"
    by (rule wal_entry_header_write_eq(2) [OF assms(1,2) entry_ok_fits [OF assms(3)]])
  have "drop (length pre + wal_entry_header_size h) ?c = snd e @ rest"
    using hd by (simp add: entry_enc_def)
  then have "slice_record X ?eh ?c (length pre + wal_entry_header_size h) =
      Ret (Some (snd e, length pre + wal_entry_header_size h + length (snd e)))"
    using assms(3,4) len
    by (simp add: slice_record_def wal_entry_header_new_def entry_ok_def usize_add_def slice_def
        unat_of_nat_word)
  then show ?thesis
    using entry_from_bytes [OF assms(1-3)] len pos
    by (subst get_wal_content_loop.simps) (simp add: add.assoc)
qed

lemma content_loop_stop:
  assumes "stops X h tail" "length (pre @ tail) < 2 ^ 63"
  shows "get_wal_content_loop X h (pre @ tail) n (length pre) = Ret n"
proof (cases "wal_entry_header_from_reader X tail h")
  case None
  then show ?thesis using assms(1) by (simp add: stops_def)
next
  case (Some hr)
  show ?thesis
  proof (cases hr)
    case (Err e)
    then show ?thesis using Some from_reader_from_bytes [OF Some]
      by (subst get_wal_content_loop.simps) auto
  next
    case (Ok p)
    then obtain eh rest where p: "hr = Ok (eh, rest)" by (cases p) auto
    from from_reader_from_bytes [OF Some] p
    have fb: "wal_entry_header_from_bytes X tail h = Ret (Ok eh)"
      "wal_entry_header_size h \<le> length tail" "rest = drop (wal_entry_header_size h) tail" by auto
    have "read_record X eh (drop (length pre + wal_entry_header_size h) (pre @ tail)) = Ret None"
      using assms(1) Some p fb by (simp add: stops_def)
    from read_record_slice_record [OF this assms(2)] fb
    have "slice_record X eh (pre @ tail) (length pre + wal_entry_header_size h) = Ret None" by simp
    then show ?thesis using fb by (subst get_wal_content_loop.simps) simp
  qed
qed

lemma content_loop_entries:
  assumes "ubig_bytes_ok X" "valid_sizes h" "stops X h tail"
  shows "list_all (entry_ok h) es \<Longrightarrow> length (pre @ entries_enc X h es @ tail) < 2 ^ 63 \<Longrightarrow>
    get_wal_content_loop X h (pre @ entries_enc X h es @ tail) n (length pre) = Ret (n + of_nat (length es))"
proof (induction es arbitrary: pre n)
  case Nil
  then show ?case using content_loop_stop [OF assms(3)] by simp
next
  case (Cons e es)
  then show ?case
    using content_loop_step [OF assms(1,2), of e pre "entries_enc X h es @ tail" n]
      Cons.IH [of "pre @ entry_enc X h e" "n + 1"] by (simp add: add.assoc)
qed

section \<open>Properties\<close>

lemma read_wal_file_range_file:
  assumes "ubig_bytes_ok X" "wal_header_readable X h" "step < 2 ^ 64"
    and "list_all (entry_ok h) es" "ascending es" "stops X h tail"
    and "fs (uintn_to_file_path X file_id base ''wal'') = Ok (wal_file_bytes X h es @ tail)"
  shows "\<exists>res. read_wal_file_range X fs base file_id from_id until_id step (\<lambda>_. False) src =
      Ret (map (as_read src) (selected from_id until_id (max step 1) es), Ok res) \<and>
    (tail = [] \<longrightarrow> res = range_outcome from_id until_id (max step 1) es)"
proof -
  have "valid_sizes h" "1 \<le> max step 1" "max step 1 < 2 ^ 64"
    using assms(2,3) by (auto simp: wal_header_readable_def)
  from file_loop_file [OF assms(1) this assms(4-6), of from_id until_id src]
  show ?thesis
    using assms(7) wal_file_not_Nil [OF assms(1)] wal_file_from_reader [OF assms(1,2), of es tail]
    by (auto simp: read_wal_file_range_def)
qed

text \<open>
  C10. A range read of a WAL file sends exactly the entries in the range that lie on the
  step, in order, from a file of ascending entries; a rest of the file that holds no further valid
  entry, such as the part of an entry that reached the disk before a crash, adds nothing. Without
  such a rest the read is reported complete exactly when the file has an entry at or beyond the end of the range,
  and otherwise names the last entry sent and the last entry of the file.
\<close>

theorem read_wal_file_range_exact:
  assumes "ubig_bytes_ok X" "wal_header_readable X h" "step < 2 ^ 64"
    and "list_all (entry_ok h) es" "ascending es" "stops X h tail"
    and "fs (uintn_to_file_path X file_id base ''wal'') = Ok (wal_file_bytes X h es @ tail)"
  shows "\<exists>res. read_wal_file_range X fs base file_id from_id until_id step (\<lambda>_. False) src =
      Ret (map (as_read src) (selected from_id until_id (max step 1) es), Ok res) \<and>
    (tail = [] \<longrightarrow> res = range_outcome from_id until_id (max step 1) es)"
  by (rule read_wal_file_range_file [OF assms(1-6), of fs file_id base]) (rule assms(7))

lemma default_header_readable: "wal_header_readable ext_ref wal_header_default"
  by (simp add: wal_header_readable_def wal_header_ok_def wal_header_default_def valid_sizes_def
      uintn_encodable_def uintn_zero_def canonical_def)

definition sample_entries :: "(uintn \<times> bytes) list" where
  "sample_entries = [(U8 0, [10]), (U8 1, []), (U8 2, [12, 13]), (U8 3, [14])]"

lemma sample_entries_ok: "list_all (entry_ok wal_header_default) sample_entries" "ascending sample_entries"
  by (simp_all add: sample_entries_def entry_ok_def wal_header_default_def canonical_def)

theorem read_wal_file_range_exact_witness:
  "\<exists>res. read_wal_file_range ext_ref
     (\<lambda>_. Ok (wal_file_bytes ext_ref wal_header_default sample_entries @
        take 20 (entry_enc ext_ref wal_header_default (U8 4, [1, 2, 3]))))
     ''/q/wal'' (U8 0) (U8 0) (Some (U8 9)) 2 (\<lambda>_. False) DiskWal =
   Ret ([read_entry_new (U8 0) [10] DiskWal, read_entry_new (U8 2) [12, 13] DiskWal], Ok res)"
proof -
  have e: "entry_ok wal_header_default (U8 4, [1, 2, 3])"
    by (simp add: entry_ok_def wal_header_default_def canonical_def)
  have v: "valid_sizes wal_header_default" by (simp add: valid_sizes_def wal_header_default_def)
  have stop: "stops ext_ref wal_header_default
      (take 20 (entry_enc ext_ref wal_header_default (U8 4, [1, 2, 3])))"
    using length_entry_enc [OF _ v e]
    by (intro stops_torn [OF _ v e])
       (simp_all add: wal_entry_header_size_def WAL_ENTRY_HEADER_FIXED_OVERHEAD_def wal_header_default_def)
  have sel: "selected (U8 0) (Some (U8 9)) 2 sample_entries = [(U8 0, [10]), (U8 2, [12, 13])]"
    by (simp add: selected_def sample_entries_def in_range_def on_step_def)
  show ?thesis
    using read_wal_file_range_exact [OF _ default_header_readable _ sample_entries_ok stop,
        where fs = "\<lambda>_. Ok (wal_file_bytes ext_ref wal_header_default sample_entries @
          take 20 (entry_enc ext_ref wal_header_default (U8 4, [1, 2, 3])))"
          and step = 2 and until_id = "Some (U8 9)" and from_id = "U8 0" and base = "''/q/wal''"
          and file_id = "U8 0" and src = DiskWal]
    by (auto simp: as_read_def sel [unfolded numeral_2_eq_2])
qed



text \<open>
  Recovery finds the end of a file: \<open>get_wal_range\<close> returns the header and the first and last
  identifier of the entries before the torn or corrupted rest, and no range for a file without valid
  entries.
\<close>

lemma get_wal_range_exact:
  assumes "ubig_bytes_ok X" "wal_header_readable X h" "list_all (entry_ok h) es" "stops X h tail"
    and "fs (uintn_to_file_path X file_id base ''wal'') = Ok (wal_file_bytes X h es @ tail)"
  shows "get_wal_range X fs base file_id =
    Ret (Ok (h, if es = [] then None else Some (fst (hd es), fst (last es))))"
  using get_wal_range_file [OF assms(1-4)] assms(5) by blast

text \<open>
  \<open>get_wal_content\<close>, which prepares a completed file for the store, counts exactly the valid
  entries and returns the bytes of the file unchanged.
\<close>

lemma get_wal_content_exact:
  assumes "ubig_bytes_ok X" "wal_header_readable X h" "list_all (entry_ok h) es" "stops X h tail"
    and "fs (uintn_to_file_path X file_id base ''wal'') = Ok (wal_file_bytes X h es @ tail)"
    and "length (wal_file_bytes X h es @ tail) < 2 ^ 63"
  shows "get_wal_content X fs base file_id =
    Ret (Ok \<lparr> wc_entries_before = wh_num_entries_before h,
              wc_num_entries = uintn_from_u64 (of_nat (length es)),
              wc_content = wal_file_bytes X h es @ tail \<rparr>)"
proof -
  have h: "wal_header_from_bytes X (wal_file_bytes X h es @ tail) = Ret (Ok (h, length (wal_header_enc X h)))"
    using wal_header_from_bytes_enc [OF assms(1)] assms(2)
    by (simp add: wal_file_bytes_def wal_header_readable_def)
  have "get_wal_content_loop X h (wal_file_bytes X h es @ tail) 0 (length (wal_header_enc X h)) =
      Ret (of_nat (length es))"
    using content_loop_entries [OF assms(1) _ assms(4,3), of "wal_header_enc X h" 0] assms(2,6)
    by (simp add: wal_file_bytes_def wal_header_readable_def)
  then show ?thesis
    using h assms(5) wal_file_not_Nil [OF assms(1)] by (simp add: get_wal_content_def)
qed

text \<open>
  A cropped entry can be reported as read: when the last entry of the range is torn after its
  header, the entry is not sent, but the read is reported \<open>Complete\<close>, because the identifier is noted before the
  record is checked.
\<close>

lemma read_range_complete_without_entry:
  assumes "ubig_bytes_ok X" "wal_header_readable X h" "step < 2 ^ 64"
    and "entry_ok h e" "wal_entry_header_size h \<le> k" "k < length (entry_enc X h e)"
    and "fs (uintn_to_file_path X file_id base ''wal'') =
         Ok (wal_file_bytes X h [] @ take k (entry_enc X h e))"
  shows "read_wal_file_range X fs base file_id (fst e) (Some (fst e)) step (\<lambda>_. False) src =
    Ret ([], Ok Complete)"
proof -
  have v: "valid_sizes h" using assms(2) by (simp add: wal_header_readable_def)
  let ?hd = "wal_entry_header_enc X h (wal_entry_header_new X (fst e) (snd e))"
  have len: "length ?hd = wal_entry_header_size h"
    by (rule wal_entry_header_write_eq(2) [OF assms(1) v entry_ok_fits [OF assms(4)]])
  obtain d where d: "take k (entry_enc X h e) = ?hd @ d" "length d < length (snd e)"
    using assms(5,6) len length_entry_enc [OF assms(1) v assms(4)]
    by (auto simp: entry_enc_def min_def)
  have "read_wal_file_loop X h (fst e) (Some (fst e)) (max step 1) src (\<lambda>_. False) 0 None None []
      (?hd @ d) = Ret ([], Complete)"
    by (subst read_wal_file_loop.simps)
       (simp add: wal_entry_header_from_reader_enc [OF assms(1) v entry_ok_fits [OF assms(4)]]
        read_record_short [OF assms(4) d(2)] past_range_def range_result_def Let_def)
  then show ?thesis
    using assms(7) wal_file_not_Nil [OF assms(1)] wal_file_from_reader [OF assms(1,2), of "[]"] d(1)
    by (simp add: read_wal_file_range_def)
qed

end
