(* ===== verification/Ordered_Buffer.thy ===== *)
theory Ordered_Buffer
  imports Types "HOL-Library.Multiset"
begin

text \<open>
  The reordering buffer of the WAL writer (\<open>normfs-wal/src/writer_buffer.rs\<close>). Entries arrive from
  concurrent producers in any order; the buffer releases them in the order of their identifiers,
  without gaps.

  \<open>sort_unstable_by\<close> is \<open>sort_key\<close> on the identifier: on distinct identifiers every sorting
  algorithm gives that list.

  \<open>next_id\<close> is the identifier the buffer waits for. The lemmas show that what is released is
  consecutive from there, that nothing is lost or invented, and that \<open>wait_for_order\<close> releases as
  much as can be released.
\<close>

section \<open>Model\<close>

record ordered_buffer =
  ob_pending :: "(uintn \<times> bytes) list"
  ob_last_written_id :: "uintn option"
  ob_queue_id :: queue_id

definition ordered_buffer_new :: "uintn option \<Rightarrow> queue_id \<Rightarrow> ordered_buffer" where
  "ordered_buffer_new last_id q =
     \<lparr> ob_pending = [], ob_last_written_id = last_id, ob_queue_id = q \<rparr>"

definition follows :: "uintn option \<Rightarrow> uintn \<Rightarrow> bool" where
  "follows last_id i =
     (case last_id of Some v \<Rightarrow> uintn_eq i (uintn_increment v) | None \<Rightarrow> uintn_is_zero i)"

definition ordered_buffer_check_can_write :: "ordered_buffer \<Rightarrow> uintn \<Rightarrow> bool" where
  "ordered_buffer_check_can_write self i = follows (ob_last_written_id self) i"

definition ordered_buffer_can_write :: "ordered_buffer \<Rightarrow> uintn \<Rightarrow> ordered_buffer \<times> bool" where
  "ordered_buffer_can_write self i =
     (if ordered_buffer_check_can_write self i
      then (self \<lparr> ob_last_written_id := Some i \<rparr>, True)
      else (self, False))"

text \<open>The loop over the sorted buffer: the entries to release and the last identifier.\<close>

fun collect_ready ::
  "uintn option \<Rightarrow> (uintn \<times> bytes) list \<Rightarrow> (uintn \<times> bytes) list \<times> uintn option" where
  "collect_ready last_id [] = ([], last_id)"
| "collect_ready last_id ((i, data) # rest) =
     (if follows last_id i
      then let (ready, l) = collect_ready (Some i) rest in ((i, data) # ready, l)
      else ([], last_id))"

definition ordered_buffer_wait_for_order ::
  "ordered_buffer \<Rightarrow> uintn \<times> bytes \<Rightarrow> ordered_buffer \<times> (uintn \<times> bytes) list" where
  "ordered_buffer_wait_for_order self entry =
     (let pending = sort_key (\<lambda>e. uval (fst e)) (ob_pending self @ [entry]);
          (ready, last_id) = collect_ready (ob_last_written_id self) pending;
          cropped = length ready
      in if cropped > 0
         then (self \<lparr> ob_pending := drop cropped pending, ob_last_written_id := last_id \<rparr>, ready)
         else (self \<lparr> ob_pending := pending \<rparr>, ready))"

text \<open>
  How the writer uses it (\<open>WriterState::write\<close>): an entry that is next in order goes straight
  through, any other is buffered and releases what it completes.
\<close>

definition ordered_buffer_submit ::
  "ordered_buffer \<Rightarrow> uintn \<times> bytes \<Rightarrow> ordered_buffer \<times> (uintn \<times> bytes) list" where
  "ordered_buffer_submit b entry =
     (let (b', direct) = ordered_buffer_can_write b (fst entry)
      in if direct then (b', [entry]) else ordered_buffer_wait_for_order b' entry)"

fun ordered_buffer_submit_all ::
  "ordered_buffer \<Rightarrow> (uintn \<times> bytes) list \<Rightarrow> ordered_buffer \<times> (uintn \<times> bytes) list" where
  "ordered_buffer_submit_all b [] = (b, [])"
| "ordered_buffer_submit_all b (e # es) =
     (let (b', r) = ordered_buffer_submit b e; (b'', r') = ordered_buffer_submit_all b' es
      in (b'', r @ r'))"

section \<open>What is released\<close>

definition next_id :: "uintn option \<Rightarrow> nat" where
  "next_id last_id = (case last_id of Some v \<Rightarrow> uval v + 1 | None \<Rightarrow> 0)"

lemma follows_iff: "follows last_id i \<longleftrightarrow> uval i = next_id last_id"
  by (simp add: follows_def next_id_def uintn_eq_uval split: option.splits)

lemma next_id_Some [simp]: "next_id (Some i) = uval i + 1"
  by (simp add: next_id_def)

lemma next_id_None [simp]: "next_id None = 0"
  by (simp add: next_id_def)

abbreviation ids :: "(uintn \<times> bytes) list \<Rightarrow> nat list" where
  "ids es \<equiv> map (\<lambda>e. uval (fst e)) es"

lemma collect_ready_spec:
  "collect_ready l es = (ready, l') \<Longrightarrow>
   ids ready = [next_id l..<next_id l + length ready] \<and>
   next_id l' = next_id l + length ready \<and>
   es = ready @ drop (length ready) es \<and> (ready = [] \<longrightarrow> l' = l)"
proof (induction l es arbitrary: ready l' rule: collect_ready.induct)
  case (2 l i d rest)
  show ?case
  proof (cases "follows l i")
    case True
    obtain r k where r: "collect_ready (Some i) rest = (r, k)" by fastforce
    with 2 True have ih: "ids r = [uval i + 1..<uval i + 1 + length r]"
      "next_id k = uval i + 1 + length r" "rest = r @ drop (length r) rest" by auto
    have "ready = (i, d) # r" "l' = k" using 2(2) True r by auto
    then show ?thesis using ih True by (auto simp: follows_iff upt_conv_Cons simp del: upt_Suc)
  qed (use 2(2) in auto)
qed auto

lemmas collect_ready_consecutive =
  collect_ready_spec [THEN conjunct1] collect_ready_spec [THEN conjunct2, THEN conjunct1]
  collect_ready_spec [THEN conjunct2, THEN conjunct2, THEN conjunct1]
  collect_ready_spec [THEN conjunct2, THEN conjunct2, THEN conjunct2, rule_format]

text \<open>Unfolding \<open>wait_for_order\<close> once: the case distinction only avoids a copy.\<close>

lemma wait_for_order_eq:
  assumes "collect_ready (ob_last_written_id b) (sort_key (\<lambda>e. uval (fst e)) (ob_pending b @ [e])) = (ready, l)"
  shows "ordered_buffer_wait_for_order b e =
    (b \<lparr> ob_pending := drop (length ready) (sort_key (\<lambda>e. uval (fst e)) (ob_pending b @ [e])),
         ob_last_written_id := l \<rparr>, ready)"
  using collect_ready_consecutive(4) [OF assms] assms
  by (simp add: ordered_buffer_wait_for_order_def Let_def)

lemma submit_cases:
  obtains (direct) "uval (fst e) = next_id (ob_last_written_id b)"
    "ordered_buffer_submit b e = (b \<lparr> ob_last_written_id := Some (fst e) \<rparr>, [e])"
  | (buffered) ready l where "uval (fst e) \<noteq> next_id (ob_last_written_id b)"
    "collect_ready (ob_last_written_id b) (sort_key (\<lambda>e. uval (fst e)) (ob_pending b @ [e])) = (ready, l)"
    "ordered_buffer_submit b e =
      (b \<lparr> ob_pending := drop (length ready) (sort_key (\<lambda>e. uval (fst e)) (ob_pending b @ [e])),
           ob_last_written_id := l \<rparr>, ready)"
proof (cases "uval (fst e) = next_id (ob_last_written_id b)")
  case True
  then show thesis using direct
    by (simp add: ordered_buffer_submit_def ordered_buffer_can_write_def
        ordered_buffer_check_can_write_def follows_iff)
next
  case False
  obtain ready l where r:
    "collect_ready (ob_last_written_id b) (sort_key (\<lambda>e. uval (fst e)) (ob_pending b @ [e])) = (ready, l)"
    by fastforce
  show thesis using buffered [OF False r] wait_for_order_eq [OF r] False
    by (simp add: ordered_buffer_submit_def ordered_buffer_can_write_def
        ordered_buffer_check_can_write_def follows_iff)
qed

lemma submit_consecutive:
  assumes "ordered_buffer_submit b e = (b', r)"
  shows "ids r = [next_id (ob_last_written_id b)..<next_id (ob_last_written_id b) + length r]"
    and "next_id (ob_last_written_id b') = next_id (ob_last_written_id b) + length r"
  using assms by (cases rule: submit_cases [of e b]; use collect_ready_consecutive in force)+

lemma submit_mset:
  assumes "ordered_buffer_submit b e = (b', r)"
  shows "mset r + mset (ob_pending b') = add_mset e (mset (ob_pending b))"
proof (cases rule: submit_cases [of e b])
  case direct
  then show ?thesis using assms by auto
next
  case (buffered ready l)
  have "mset ready + mset (drop (length ready) (sort_key (\<lambda>e. uval (fst e)) (ob_pending b @ [e]))) =
      mset (sort_key (\<lambda>e. uval (fst e)) (ob_pending b @ [e]))"
    using collect_ready_consecutive(3) [OF buffered(2)] by (metis mset_append)
  then show ?thesis using buffered(3) assms by auto
qed

lemma submit_all_spec:
  "ordered_buffer_submit_all b es = (b', r) \<Longrightarrow>
   ids r = [next_id (ob_last_written_id b)..<next_id (ob_last_written_id b) + length r] \<and>
   next_id (ob_last_written_id b') = next_id (ob_last_written_id b) + length r \<and>
   mset r + mset (ob_pending b') = mset es + mset (ob_pending b)"
proof (induction b es arbitrary: b' r rule: ordered_buffer_submit_all.induct)
  case (2 b e es)
  obtain b1 r1 r2 where s: "ordered_buffer_submit b e = (b1, r1)"
    "ordered_buffer_submit_all b1 es = (b', r2)" "r = r1 @ r2"
    using 2(2) by (auto split: prod.splits)
  note one = submit_consecutive [OF s(1)] and perm = submit_mset [OF s(1)]
  from 2(1) [OF s(1) [symmetric] refl s(2)]
  have ih: "ids r2 = [next_id (ob_last_written_id b1)..<next_id (ob_last_written_id b1) + length r2]"
    "next_id (ob_last_written_id b') = next_id (ob_last_written_id b1) + length r2"
    "mset r2 + mset (ob_pending b') = mset es + mset (ob_pending b1)" by auto
  let ?n = "next_id (ob_last_written_id b)"
  have "ids r = [?n..<?n + length r]"
    using one ih(1) s(3) upt_add_eq_append [of ?n "?n + length r1" "length r2"]
    by (simp add: add.assoc)
  moreover have "mset r + mset (ob_pending b') = mset (e # es) + mset (ob_pending b)"
  proof -
    have "mset r + mset (ob_pending b') = mset r1 + (mset r2 + mset (ob_pending b'))"
      by (simp add: s(3))
    also have "\<dots> = mset es + (mset r1 + mset (ob_pending b1))" by (simp add: ih(3))
    finally show ?thesis using perm by simp
  qed
  ultimately show ?case using one(2) ih(2) s(3) by simp
qed auto

lemma submit_all_append:
  "ordered_buffer_submit_all b es = (b', r) \<Longrightarrow> ordered_buffer_submit_all b' fs = (b'', r') \<Longrightarrow>
   ordered_buffer_submit_all b (es @ fs) = (b'', r @ r')"
  by (induction b es arbitrary: b' r rule: ordered_buffer_submit_all.induct) (auto split: prod.splits)

section \<open>What stays in the buffer\<close>

text \<open>
  The buffer invariant: pending entries are sorted, have distinct identifiers, and none is
  behind the identifier the buffer waits for.
\<close>

definition ob_inv :: "ordered_buffer \<Rightarrow> bool" where
  "ob_inv b \<longleftrightarrow> sorted (ids (ob_pending b)) \<and> distinct (ids (ob_pending b)) \<and>
     (\<forall>i \<in> set (ids (ob_pending b)). next_id (ob_last_written_id b) \<le> i)"

lemma collect_ready_maximal:
  "collect_ready l es = (ready, l') \<Longrightarrow> sorted (ids es) \<Longrightarrow> distinct (ids es) \<Longrightarrow>
   \<forall>i \<in> set (ids es). next_id l \<le> i \<Longrightarrow>
   \<forall>i \<in> set (ids (drop (length ready) es)). next_id l' < i"
proof (induction l es arbitrary: ready l' rule: collect_ready.induct)
  case (2 l i d rest)
  show ?case
  proof (cases "follows l i")
    case True
    obtain r k where r: "collect_ready (Some i) rest = (r, k)" by fastforce
    have "\<forall>j \<in> set (ids rest). uval i + 1 \<le> j"
      using 2(3,4) by (auto simp: Suc_le_eq le_neq_implies_less image_iff)
    then show ?thesis using 2(1) [OF True r] 2(2-4) True r by auto
  next
    case False
    then have "next_id l < uval i" using 2(5) by (auto simp: follows_iff le_neq_implies_less)
    then show ?thesis using 2(2,3) False by auto
  qed
qed auto

lemma wait_for_order_inv:
  assumes "ob_inv b" "next_id (ob_last_written_id b) \<le> uval (fst e)"
    and "uval (fst e) \<notin> set (ids (ob_pending b))"
    and "ordered_buffer_wait_for_order b e = (b', r)"
  shows "ob_inv b'" "next_id (ob_last_written_id b') \<notin> set (ids (ob_pending b'))"
proof -
  let ?p = "sort_key (\<lambda>e. uval (fst e)) (ob_pending b @ [e])"
  obtain ready l where r: "collect_ready (ob_last_written_id b) ?p = (ready, l)" by fastforce
  have "mset (ids ?p) = mset (ids (ob_pending b @ [e]))" by simp
  then have "distinct (ids ?p)" "set (ids ?p) = set (ids (ob_pending b @ [e]))"
    using assms(1,3) mset_eq_imp_distinct_iff [of "ids ?p" "ids (ob_pending b @ [e])"]
    by (auto simp: ob_inv_def)
  then have p: "sorted (ids ?p)" "distinct (ids ?p)"
    "\<forall>i \<in> set (ids ?p). next_id (ob_last_written_id b) \<le> i"
    using assms(1,2) by (auto simp: ob_inv_def)
  have b': "b' = b \<lparr> ob_pending := drop (length ready) ?p, ob_last_written_id := l \<rparr>"
    using assms(4) wait_for_order_eq [OF r] by (metis Pair_inject)
  have gt: "\<forall>i \<in> set (ids (drop (length ready) ?p)). next_id l < i"
    by (rule collect_ready_maximal [OF r p])
  have "sorted (ids (drop (length ready) ?p))" "distinct (ids (drop (length ready) ?p))"
    using p(1,2) sorted_wrt_drop distinct_drop drop_map by metis+
  with gt show "ob_inv b'" by (simp add: b' ob_inv_def less_imp_le)
  from gt show "next_id (ob_last_written_id b') \<notin> set (ids (ob_pending b'))"
    by (fastforce simp: b')
qed

section \<open>Properties\<close>

text \<open>
  C14. Entries leave the buffer in order, without gaps and without duplicates, whatever order
  they arrive in: over any sequence of submissions the released identifiers are consecutive from the
  one the buffer waited for, and the released and the still pending entries together are
  exactly the entries that came in.
\<close>

theorem ordered_buffer_releases_in_order:
  "let (b', released) = ordered_buffer_submit_all b es;
       start = next_id (ob_last_written_id b)
   in map (\<lambda>e. uval (fst e)) released = [start..<start + length released] \<and>
      next_id (ob_last_written_id b') = start + length released \<and>
      mset released + mset (ob_pending b') = mset es + mset (ob_pending b)"
  using submit_all_spec [of b es] by (cases "ordered_buffer_submit_all b es") (simp add: Let_def)

text \<open>
  \<open>wait_for_order\<close> releases as much as can be released: on a buffer that is sorted, without
  duplicates and not behind, a new entry leaves the buffer so, and the identifier the
  buffer then waits for is not among the pending ones.
\<close>

lemma wait_for_order_maximal:
  assumes "ob_inv b" "next_id (ob_last_written_id b) \<le> uval (fst e)"
    and "uval (fst e) \<notin> set (ids (ob_pending b))"
  shows "let (b', released) = ordered_buffer_wait_for_order b e
         in ob_inv b' \<and> next_id (ob_last_written_id b') \<notin> set (ids (ob_pending b'))"
  using wait_for_order_inv [OF assms surjective_pairing] by (simp add: split_beta)

text \<open>
  An entry can stay in the buffer although it is the next one: when the missing entry
  arrives it is written directly, and the entries that waited for it are looked at again only
  when another entry arrives out of order. After entry 1 and then entry 0, the buffer has
  released entry 0 only and holds entry 1, for which it waits.
\<close>

lemma ordered_buffer_direct_write_strands_successor:
  "let (b', released) = ordered_buffer_submit_all (ordered_buffer_new None q) [(U8 1, a), (U8 0, d)]
   in released = [(U8 0, d)] \<and> ob_pending b' = [(U8 1, a)] \<and>
      ordered_buffer_check_can_write b' (U8 1)"
  by (simp add: ordered_buffer_new_def ordered_buffer_submit_def ordered_buffer_can_write_def
      ordered_buffer_check_can_write_def ordered_buffer_wait_for_order_def follows_iff)

end
