(* ===== verification/Transition.thy ===== *)
theory Transition
  imports Main
begin

text \<open>
  The contract of a component that runs forever on a stream of requests: a set of initial states, a
  labelled step relation, and an invariant. What a component proves of one step holds of every
  state it can reach (\<open>invariant_system\<close>); \<open>measured_system\<close> adds an observation that every
  step extends, so that what has been observed is never taken back.
\<close>

inductive reachable :: "('s \<Rightarrow> bool) \<Rightarrow> ('s \<Rightarrow> 'l \<Rightarrow> 's \<Rightarrow> bool) \<Rightarrow> 's \<Rightarrow> bool"
  for init :: "'s \<Rightarrow> bool" and step :: "'s \<Rightarrow> 'l \<Rightarrow> 's \<Rightarrow> bool" where
  reachable_init: "init s \<Longrightarrow> reachable init step s"
| reachable_step: "reachable init step s \<Longrightarrow> step s l t \<Longrightarrow> reachable init step t"

inductive steps :: "('s \<Rightarrow> 'l \<Rightarrow> 's \<Rightarrow> bool) \<Rightarrow> 's \<Rightarrow> 'l list \<Rightarrow> 's \<Rightarrow> bool"
  for step :: "'s \<Rightarrow> 'l \<Rightarrow> 's \<Rightarrow> bool" where
  steps_Nil: "steps step s [] s"
| steps_Cons: "step s l t \<Longrightarrow> steps step t ls u \<Longrightarrow> steps step s (l # ls) u"

inductive_cases steps_NilE [elim!]: "steps step s [] t"
inductive_cases steps_ConsE [elim!]: "steps step s (l # ls) u"

inductive_simps steps_Nil_iff [simp]: "steps step s [] t"
inductive_simps steps_Cons_iff [simp]: "steps step s (l # ls) u"

lemma steps_append: "steps step s (ls @ ms) u \<longleftrightarrow> (\<exists>t. steps step s ls t \<and> steps step t ms u)"
  by (induction ls arbitrary: s) auto

lemma reachable_steps:
  "steps step s ls t \<Longrightarrow> reachable init step s \<Longrightarrow> reachable init step t"
  by (induction rule: steps.induct) (auto intro: reachable_step)

locale invariant_system =
  fixes init :: "'s \<Rightarrow> bool"
    and step :: "'s \<Rightarrow> 'l \<Rightarrow> 's \<Rightarrow> bool"
    and inv :: "'s \<Rightarrow> bool"
  assumes inv_init: "init s \<Longrightarrow> inv s"
    and inv_step: "inv s \<Longrightarrow> step s l t \<Longrightarrow> inv t"
begin

lemma inv_reachable: "reachable init step s \<Longrightarrow> inv s"
  by (induction rule: reachable.induct) (auto intro: inv_init inv_step)

lemma inv_steps: "steps step s ls t \<Longrightarrow> inv s \<Longrightarrow> inv t"
  by (induction rule: steps.induct) (auto intro: inv_step)

end

locale measured_system = invariant_system +
  fixes obs :: "'a \<Rightarrow> 'b list"
  assumes obs_step: "inv s \<Longrightarrow> step s l t \<Longrightarrow> \<exists>new. obs t = obs s @ new"
begin

lemma obs_steps: "steps step s ls t \<Longrightarrow> inv s \<Longrightarrow> \<exists>new. obs t = obs s @ new"
proof (induction rule: steps.induct)
  case (steps_Cons s l t ls u)
  then obtain a b where "obs t = obs s @ a" "obs u = obs t @ b"
    using obs_step inv_step by blast
  then show ?case by simp
qed simp

end

end
