(* ===== verification/Ack_File_Writer.thy ===== *)
theory Ack_File_Writer
  imports Types Transition
begin

text \<open>
  The file writer of the WAL (\<open>normfs-wal/src/ack_file_writer.rs\<close>): entries are collected in a buffer,
  a background task writes the buffer to the file, and the identifier of the last entry of
  each written block is acknowledged.

  The writer and the task share their state under a mutex. The task takes the buffer
  (\<open>ack_flush_begin\<close>), writes it without the lock (\<open>ack_flush_attempts\<close>) and, when every
  attempt failed, puts it back in front of what arrived meanwhile (\<open>ack_flush_end\<close>); entries may
  arrive between the two. What the operating system does with an attempt is an argument: it
  fails after a number of bytes, the sync fails after all of them, or it succeeds. The timer and the
  notification that decide when the task runs are the freedom of the step relation.
\<close>

section \<open>Model\<close>

record ack_settings =
  as_max_buffer_size :: usize
  as_max_file_size :: u64
  as_fsync :: bool

definition ack_settings_default :: ack_settings where
  "ack_settings_default =
     \<lparr> as_max_buffer_size = 128 * 1024 * 1024, as_max_file_size = 128 * 1024 * 1024,
       as_fsync = True \<rparr>"

type_synonym ack = "queue_id \<times> uintn"

record ack_writer =
  aw_settings :: ack_settings
  aw_file :: bytes
  aw_buffer :: bytes
  aw_acks :: "ack list"
  aw_current_size :: u64
  aw_inflight :: "(bytes \<times> ack list) option"
  aw_sent :: "ack list"
  aw_notified :: bool
  aw_closed :: bool

datatype attempt = WriteFailed usize | SyncFailed | Written

definition MAX_RETRIES :: nat where
  "MAX_RETRIES = 1000"

definition ack_writer_new :: "ack_settings \<Rightarrow> bytes \<Rightarrow> ack_writer" where
  "ack_writer_new settings header =
     (let initial_size = of_nat (length header)
      in \<lparr> aw_settings = settings, aw_file = header, aw_buffer = [], aw_acks = [],
           aw_current_size = initial_size, aw_inflight = None, aw_sent = [], aw_notified = False,
           aw_closed = False \<rparr>)"

definition u64_add :: "u64 \<Rightarrow> u64 \<Rightarrow> u64 run" where
  "u64_add a b = checked_add a b"

definition ack_writer_can_add :: "ack_writer \<Rightarrow> usize \<Rightarrow> bool run" where
  "ack_writer_can_add self sz = do {
     s \<leftarrow> u64_add (aw_current_size self) (of_nat sz);
     Ret (s \<le> as_max_file_size (aw_settings self)) }"

definition ack_writer_write :: "ack_writer \<Rightarrow> queue_id \<Rightarrow> uintn \<Rightarrow> bytes \<Rightarrow> ack_writer run" where
  "ack_writer_write self q entry_id entry = do {
     sz \<leftarrow> u64_add (aw_current_size self) (of_nat (length entry));
     let buffer = aw_buffer self @ entry;
     Ret (self \<lparr> aw_buffer := buffer, aw_acks := aw_acks self @ [(q, entry_id)],
                aw_current_size := sz,
                aw_notified := (aw_notified self \<or>
                  as_max_buffer_size (aw_settings self) \<le> length buffer) \<rparr>) }"

definition ack_flush_begin :: "ack_writer \<Rightarrow> ack_writer" where
  "ack_flush_begin self =
     (if aw_buffer self = [] then self \<lparr> aw_notified := False \<rparr>
      else
        let data = aw_buffer self;
            acks_to_send = (if aw_acks self = [] then [] else [last (aw_acks self)])
        in self \<lparr> aw_buffer := [], aw_acks := [], aw_inflight := Some (data, acks_to_send),
                  aw_notified := False \<rparr>)"

text \<open>
  The retry loop: the outcomes of the successive attempts, the number of attempts left, the
  contents of the file. An attempt whose outcome is not listed succeeds.
\<close>

fun ack_flush_attempts :: "bool \<Rightarrow> bytes \<Rightarrow> attempt list \<Rightarrow> nat \<Rightarrow> bytes \<Rightarrow> bytes \<times> bool" where
  "ack_flush_attempts fsync data outcomes 0 file = (file, False)"
| "ack_flush_attempts fsync data [] (Suc n) file = (file @ data, True)"
| "ack_flush_attempts fsync data (outcome # outcomes) (Suc n) file =
     (case outcome of
        WriteFailed k \<Rightarrow> ack_flush_attempts fsync data outcomes n (file @ take k data)
      | SyncFailed \<Rightarrow>
          if fsync then ack_flush_attempts fsync data outcomes n (file @ data)
          else (file @ data, True)
      | Written \<Rightarrow> (file @ data, True))"

definition ack_flush_end :: "attempt list \<Rightarrow> ack_writer \<Rightarrow> ack_writer" where
  "ack_flush_end outcomes self =
     (case aw_inflight self of
        None \<Rightarrow> self
      | Some (data_to_write, acks_to_send) \<Rightarrow>
          let (file, write_successful) =
                ack_flush_attempts (as_fsync (aw_settings self)) data_to_write outcomes MAX_RETRIES
                  (aw_file self)
          in if write_successful
             then self \<lparr> aw_file := file, aw_inflight := None, aw_sent := aw_sent self @ acks_to_send \<rparr>
             else self \<lparr> aw_file := file, aw_inflight := None,
                         aw_buffer := data_to_write @ aw_buffer self,
                         aw_acks := acks_to_send @ aw_acks self \<rparr>)"

definition flush_buffer :: "attempt list \<Rightarrow> ack_writer \<Rightarrow> ack_writer" where
  "flush_buffer outcomes self = ack_flush_end outcomes (ack_flush_begin self)"

text \<open>
  \<open>close\<close> makes the task flush once more and waits for it. The task finishes a flush that is
  under way first. A second \<open>close\<close> finds no task and does nothing.
\<close>

definition ack_writer_close :: "attempt list \<Rightarrow> attempt list \<Rightarrow> ack_writer \<Rightarrow> ack_writer" where
  "ack_writer_close pending outcomes self =
     (if aw_closed self then self
      else (flush_buffer outcomes (ack_flush_end pending self)) \<lparr> aw_closed := True \<rparr>)"

section \<open>Steps\<close>

text \<open>
  The interleavings of the writer and its task. The second component of a state is a
  ghost: the entries written so far. An attempt is \<open>clean\<close> when it succeeds or leaves the file
  as it was.
\<close>

datatype ack_label = AckWrite queue_id uintn bytes | FlushBegin | FlushEnd "attempt list"

type_synonym ack_state = "ack_writer \<times> (uintn \<times> bytes) list"

inductive ack_step :: "ack_state \<Rightarrow> ack_label \<Rightarrow> ack_state \<Rightarrow> bool" where
  ack_step_write:
    "ack_writer_write w q i d = Ret w' \<Longrightarrow> ack_step (w, es) (AckWrite q i d) (w', es @ [(i, d)])"
| ack_step_begin:
    "aw_inflight w = None \<Longrightarrow> \<not> aw_closed w \<Longrightarrow>
     ack_step (w, es) FlushBegin (ack_flush_begin w, es)"
| ack_step_end:
    "ack_step (w, es) (FlushEnd outcomes) (ack_flush_end outcomes w, es)"

inductive_cases ack_step_writeE: "ack_step s (AckWrite q i d) t"
inductive_cases ack_step_beginE: "ack_step s FlushBegin t"
inductive_cases ack_step_endE: "ack_step s (FlushEnd outcomes) t"

fun clean_attempt :: "bool \<Rightarrow> attempt \<Rightarrow> bool" where
  "clean_attempt fsync (WriteFailed k) = (k = 0)"
| "clean_attempt fsync SyncFailed = (\<not> fsync)"
| "clean_attempt fsync Written = True"

fun clean_label :: "bool \<Rightarrow> ack_label \<Rightarrow> bool" where
  "clean_label fsync (FlushEnd outcomes) = list_all (clean_attempt fsync) outcomes"
| "clean_label fsync _ = True"

lemma flush_attempts_clean:
  "list_all (clean_attempt fsync) outcomes \<Longrightarrow>
   ack_flush_attempts fsync data outcomes n f = (f', ok) \<Longrightarrow>
   f' = (if ok then f @ data else f)"
  by (induction fsync data outcomes n f rule: ack_flush_attempts.induct)
     (auto split: attempt.splits if_splits)

text \<open>
  The invariant: the entries split into durable, in flight and buffered ones; every
  acknowledgement that has been sent is for a durable entry.
\<close>

definition ack_inv :: "bytes \<Rightarrow> bool \<Rightarrow> ack_state \<Rightarrow> bool" where
  "ack_inv header fsync = (\<lambda>(w, es). as_fsync (aw_settings w) = fsync \<and> \<not> aw_closed w \<and>
     (\<exists>durable flight buffered. es = durable @ flight @ buffered \<and>
       aw_file w = header @ concat (map snd durable) \<and>
       aw_buffer w = concat (map snd buffered) \<and>
       (case aw_inflight w of
          None \<Rightarrow> flight = []
        | Some (data, acks) \<Rightarrow> data = concat (map snd flight) \<and> snd ` set acks \<subseteq> fst ` set flight) \<and>
       snd ` set (aw_acks w) \<subseteq> fst ` set buffered \<and>
       snd ` set (aw_sent w) \<subseteq> fst ` set durable))"

lemma ack_inv_new: "ack_inv header (as_fsync settings) (ack_writer_new settings header, [])"
  by (simp add: ack_inv_def ack_writer_new_def Let_def)

lemma ack_invE:
  assumes "ack_inv header fsync (w, es)"
  obtains durable flight buffered where "es = durable @ flight @ buffered"
    "aw_file w = header @ concat (map snd durable)" "aw_buffer w = concat (map snd buffered)"
    "snd ` set (aw_acks w) \<subseteq> fst ` set buffered"
    "case aw_inflight w of None \<Rightarrow> flight = []
     | Some (data, acks) \<Rightarrow> data = concat (map snd flight) \<and> snd ` set acks \<subseteq> fst ` set flight"
    "snd ` set (aw_sent w) \<subseteq> fst ` set durable" "as_fsync (aw_settings w) = fsync" "\<not> aw_closed w"
  using assms by (auto simp: ack_inv_def)

lemma ack_invI:
  assumes "es = durable @ flight @ buffered"
    "aw_file w = header @ concat (map snd durable)" "aw_buffer w = concat (map snd buffered)"
    "snd ` set (aw_acks w) \<subseteq> fst ` set buffered"
    "case aw_inflight w of None \<Rightarrow> flight = []
     | Some (data, acks) \<Rightarrow> data = concat (map snd flight) \<and> snd ` set acks \<subseteq> fst ` set flight"
    "snd ` set (aw_sent w) \<subseteq> fst ` set durable" "as_fsync (aw_settings w) = fsync" "\<not> aw_closed w"
  shows "ack_inv header fsync (w, es)"
  using assms unfolding ack_inv_def by blast

lemma ack_writer_write_fields:
  assumes "ack_writer_write w q i d = Ret w'"
  shows "aw_settings w' = aw_settings w" "aw_file w' = aw_file w" "aw_buffer w' = aw_buffer w @ d"
    "aw_acks w' = aw_acks w @ [(q, i)]" "aw_inflight w' = aw_inflight w" "aw_sent w' = aw_sent w"
    "aw_closed w' = aw_closed w"
    "unat (aw_current_size w') = unat (aw_current_size w) + unat (of_nat (length d) :: u64)"
  using assms
  by (auto simp: ack_writer_write_def u64_add_def checked_add_def unat_word_add_small
      split: if_splits)

lemma ack_inv_write:
  assumes "ack_inv header fsync (w, es)" "ack_writer_write w q i d = Ret w'"
  shows "ack_inv header fsync (w', es @ [(i, d)])"
  using assms(1)
proof (cases rule: ack_invE)
  case (1 D F B)
  show ?thesis
    by (rule ack_invI [of _ D F "B @ [(i, d)]"])
       (use 1 in \<open>auto simp: ack_writer_write_fields [OF assms(2)] split: option.splits\<close>)
qed

lemma ack_inv_begin:
  assumes "ack_inv header fsync (w, es)" "aw_inflight w = None"
  shows "ack_inv header fsync (ack_flush_begin w, es)"
  using assms(1)
proof (cases rule: ack_invE)
  case (1 D F B)
  have F: "F = []" using 1 assms(2) by simp
  show ?thesis
  proof (cases "aw_buffer w = []")
    case True
    then show ?thesis
      by (intro ack_invI [of _ D F B]) (use 1 assms(2) in \<open>auto simp: ack_flush_begin_def\<close>)
  next
    case False
    moreover have "snd (last (aw_acks w)) \<in> fst ` set B" if "aw_acks w \<noteq> []"
      using 1(4) that by (meson image_subset_iff last_in_set)
    ultimately show ?thesis
      by (intro ack_invI [of _ D B "[]"])
         (use 1 F in \<open>auto simp: ack_flush_begin_def Let_def\<close>)
  qed
qed

lemma ack_inv_end:
  assumes "ack_inv header fsync (w, es)" "list_all (clean_attempt fsync) outcomes"
  shows "ack_inv header fsync (ack_flush_end outcomes w, es)"
  using assms(1)
proof (cases rule: ack_invE)
  case (1 D F B)
  show ?thesis
  proof (cases "aw_inflight w")
    case None
    then show ?thesis using assms(1) by (simp add: ack_flush_end_def)
  next
    case (Some da)
    then obtain data acks where da: "aw_inflight w = Some (data, acks)" by (cases da) auto
    obtain f ok where f:
      "ack_flush_attempts fsync data outcomes MAX_RETRIES (aw_file w) = (f, ok)" by fastforce
    have f': "f = (if ok then aw_file w @ data else aw_file w)"
      by (rule flush_attempts_clean [OF assms(2) f])
    show ?thesis
    proof (cases ok)
      case True
      then show ?thesis
        by (intro ack_invI [of _ "D @ F" "[]" B])
           (use 1 da f f' in \<open>auto simp: ack_flush_end_def\<close>)
    next
      case False
      then show ?thesis
        by (intro ack_invI [of _ D "[]" "F @ B"])
           (use 1 da f f' in \<open>auto simp: ack_flush_end_def\<close>)
    qed
  qed
qed

interpretation ack_system:
  invariant_system "\<lambda>s. s = (ack_writer_new settings header, [])"
    "\<lambda>s l t. ack_step s l t \<and> clean_label (as_fsync settings) l"
    "ack_inv header (as_fsync settings)" for settings header
proof unfold_locales
  fix s l t
  assume inv: "ack_inv header (as_fsync settings) s"
    and step: "ack_step s l t \<and> clean_label (as_fsync settings) l"
  then show "ack_inv header (as_fsync settings) t"
    by (auto elim!: ack_step.cases intro: ack_inv_write ack_inv_begin ack_inv_end)
qed (simp add: ack_inv_new)

text \<open>The ghost component is the sequence of writes of the run.\<close>

fun written_entries :: "ack_label list \<Rightarrow> (uintn \<times> bytes) list" where
  "written_entries [] = []"
| "written_entries (AckWrite q i d # ls) = (i, d) # written_entries ls"
| "written_entries (_ # ls) = written_entries ls"

lemma ack_ghost:
  "steps (\<lambda>s l t. ack_step s l t \<and> clean_label fsync l) s ls t \<Longrightarrow> snd t = snd s @ written_entries ls"
proof (induction rule: steps.induct)
  case (steps_Cons s l t ls u)
  then show ?case by (cases l) (auto elim!: ack_step.cases)
qed simp

lemma ack_run_inv:
  assumes "steps (\<lambda>s l t. ack_step s l t \<and> clean_label (as_fsync settings) l)
             (ack_writer_new settings header, []) ls (w, es)"
  shows "ack_inv header (as_fsync settings) (w, written_entries ls)"
  using ack_system.inv_steps [OF assms ack_inv_new] ack_ghost [OF assms] by simp

lemma flush_attempts_succeed [simp]: "ack_flush_attempts fsync data [] MAX_RETRIES f = (f @ data, True)"
  by (simp add: MAX_RETRIES_def numeral_eq_Suc)

lemma flush_buffer_file:
  "aw_inflight w = None \<Longrightarrow> aw_file (flush_buffer [] w) = aw_file w @ aw_buffer w"
  by (cases "aw_buffer w = []") (simp_all add: flush_buffer_def ack_flush_begin_def ack_flush_end_def)

lemma ack_inv_close:
  assumes "ack_inv header fsync (w, es)"
  shows "aw_file (ack_writer_close [] [] w) = header @ concat (map snd es)"
proof -
  have 1: "ack_inv header fsync (ack_flush_end [] w, es)"
    by (rule ack_inv_end [OF assms]) simp
  have 2: "aw_inflight (ack_flush_end [] w) = None"
    by (simp add: ack_flush_end_def split: option.splits)
  let ?w = "ack_flush_end [] w"
  obtain D B where *: "es = D @ B" "aw_file ?w = header @ concat (map snd D)"
    "aw_buffer ?w = concat (map snd B)"
    using 1 2 by (auto elim!: ack_invE)
  have "\<not> aw_closed w" using assms by (rule ack_invE)
  then show ?thesis using * flush_buffer_file [OF 2] by (simp add: ack_writer_close_def)
qed

text \<open>
  The contents a file will have once everything is flushed: writing appends to them, a clean
  flush and a close leave them as they are.
\<close>

definition aw_content :: "ack_writer \<Rightarrow> bytes" where
  "aw_content w = aw_file w @ (case aw_inflight w of None \<Rightarrow> [] | Some (data, _) \<Rightarrow> data) @ aw_buffer w"

lemma aw_content_write: "ack_writer_write w q i d = Ret w' \<Longrightarrow> aw_content w' = aw_content w @ d"
  by (simp add: aw_content_def ack_writer_write_fields)

lemma aw_content_begin: "aw_inflight w = None \<Longrightarrow> aw_content (ack_flush_begin w) = aw_content w"
  by (simp add: aw_content_def ack_flush_begin_def Let_def)

lemma aw_content_end:
  assumes "list_all (clean_attempt (as_fsync (aw_settings w))) outcomes"
  shows "aw_content (ack_flush_end outcomes w) = aw_content w"
proof (cases "aw_inflight w")
  case (Some p)
  obtain data acks where p: "p = (data, acks)" by fastforce
  obtain f ok where f: "ack_flush_attempts (as_fsync (aw_settings w)) data outcomes MAX_RETRIES
      (aw_file w) = (f, ok)" by fastforce
  show ?thesis
    using flush_attempts_clean [OF assms f] Some p f by (simp add: aw_content_def ack_flush_end_def)
qed (simp add: ack_flush_end_def)

lemma aw_file_close:
  assumes "\<not> aw_closed w"
  shows "aw_file (ack_writer_close [] [] w) = aw_content w"
proof -
  have 1: "aw_inflight (ack_flush_end [] w) = None"
    by (simp add: ack_flush_end_def split: option.splits)
  have 2: "aw_content (ack_flush_end [] w) = aw_content w" by (rule aw_content_end) simp
  show ?thesis using assms flush_buffer_file [OF 1] 2 1 by (simp add: ack_writer_close_def aw_content_def)
qed

lemma aw_content_close: "aw_content (ack_writer_close [] [] w) = aw_content w"
proof (cases "aw_closed w")
  case False
  have 1: "aw_inflight (ack_flush_end [] w) = None" "aw_content (ack_flush_end [] w) = aw_content w"
    using aw_content_end [of w "[]"] by (simp_all add: ack_flush_end_def split: option.splits)
  have "aw_content (flush_buffer [] (ack_flush_end [] w)) = aw_content w"
    using aw_content_begin [OF 1(1)] aw_content_end [of "ack_flush_begin (ack_flush_end [] w)" "[]"] 1(2)
    by (simp add: flush_buffer_def)
  with False show ?thesis by (simp add: ack_writer_close_def aw_content_def)
qed (simp add: ack_writer_close_def)

lemma ack_flush_fields [simp]:
  "aw_settings (ack_flush_begin w) = aw_settings w" "aw_settings (ack_flush_end os w) = aw_settings w"
  "aw_current_size (ack_flush_begin w) = aw_current_size w"
  "aw_current_size (ack_flush_end os w) = aw_current_size w"
  "aw_closed (ack_flush_begin w) = aw_closed w" "aw_closed (ack_flush_end os w) = aw_closed w"
  by (simp_all add: ack_flush_begin_def ack_flush_end_def Let_def split: option.splits prod.splits)

lemma ack_close_fields [simp]:
  "aw_settings (ack_writer_close p os w) = aw_settings w"
  "aw_current_size (ack_writer_close p os w) = aw_current_size w" "aw_closed (ack_writer_close p os w)"
  by (simp_all add: ack_writer_close_def flush_buffer_def)

section \<open>Properties\<close>

text \<open>
  C3. An acknowledged entry is in the file. In every run of the writer and its background
  task, in any interleaving and with any number of failed attempts that leave the file as it was, the
  file holds the header and a prefix of the written entries, whole and in order, and
  every acknowledgement that was sent is for an entry of that prefix.
\<close>

theorem acked_entries_durable:
  assumes "steps (\<lambda>s l t. ack_step s l t \<and> clean_label (as_fsync settings) l)
             (ack_writer_new settings header, []) ls (w, es)"
  shows "\<exists>durable rest. written_entries ls = durable @ rest \<and>
           aw_file w = header @ concat (map snd durable) \<and>
           snd ` set (aw_sent w) \<subseteq> fst ` set durable"
  using ack_run_inv [OF assms] by (auto elim!: ack_invE)

theorem acked_entries_durable_witness:
  "\<exists>durable rest. [(U8 0, [1, 2])] = durable @ rest \<and> U8 0 \<in> fst ` set durable \<and>
     aw_file (ack_flush_end [WriteFailed 0, Written] (ack_flush_begin (the (ack_writer_write
       (ack_writer_new ack_settings_default [9]) \<lparr> qid_path = ''/q'' \<rparr> (U8 0) [1, 2])))) =
     [9] @ concat (map snd durable)"
proof -
  let ?init = "ack_writer_new ack_settings_default [9]" and ?q = "\<lparr> qid_path = ''/q'' \<rparr>"
  obtain w where w: "ack_writer_write ?init ?q (U8 0) [1, 2] = Ret w"
    by (simp add: ack_writer_write_def u64_add_def checked_add_def ack_writer_new_def)
  let ?v = "ack_flush_end [WriteFailed 0, Written] (ack_flush_begin w)"
  have w1: "aw_inflight w = None" "aw_buffer w = [1, 2]" "aw_acks w = [(?q, U8 0)]" "aw_sent w = []"
    "\<not> aw_closed w"
    using ack_writer_write_fields [OF w] by (simp_all add: ack_writer_new_def)
  then have "ack_step (w, [(U8 0, [1, 2])]) FlushBegin (ack_flush_begin w, [(U8 0, [1, 2])])"
    by (intro ack_step_begin)
  then have "steps (\<lambda>s l t. ack_step s l t \<and> clean_label (as_fsync ack_settings_default) l) (?init, [])
      [AckWrite ?q (U8 0) [1, 2], FlushBegin, FlushEnd [WriteFailed 0, Written]] (?v, [(U8 0, [1, 2])])"
    using ack_step_write [OF w, of "[]"] ack_step_end
    by (intro steps_Cons [OF _ steps_Cons [OF _ steps_Cons [OF _ steps_Nil]]]) simp_all
  from acked_entries_durable [OF this] obtain durable rest where
    "[(U8 0, [1, 2])] = durable @ rest" "aw_file ?v = [9] @ concat (map snd durable)"
    "snd ` set (aw_sent ?v) \<subseteq> fst ` set durable" by auto
  moreover have "aw_sent ?v = [(?q, U8 0)]"
    using w1 by (simp add: ack_flush_end_def ack_flush_begin_def MAX_RETRIES_def numeral_eq_Suc)
  ultimately show ?thesis using w by auto
qed

text \<open>
  Closing the writer loses nothing: after a close whose attempts succeed, the file is the
  header followed by every entry written, whatever was buffered or in flight.
\<close>

lemma ack_close_flushes_everything:
  assumes "steps (\<lambda>s l t. ack_step s l t \<and> clean_label (as_fsync settings) l)
             (ack_writer_new settings header, []) ls (w, es)"
  shows "aw_file (ack_writer_close [] [] w) = header @ concat (map snd (written_entries ls))"
  using ack_inv_close [OF ack_run_inv [OF assms]] .

text \<open>
  C28. A failed sync duplicates the block: the retry writes the whole block again
  although the first attempt had already appended it, so after one failed sync the file
  holds the block twice.
\<close>

theorem ack_sync_failure_duplicates:
  assumes "aw_inflight w = None" "aw_buffer w \<noteq> []" "as_fsync (aw_settings w)"
  shows "aw_file (flush_buffer [SyncFailed] w) = aw_file w @ aw_buffer w @ aw_buffer w"
  using assms
  by (simp add: flush_buffer_def ack_flush_begin_def ack_flush_end_def MAX_RETRIES_def
      numeral_eq_Suc Let_def)

theorem ack_sync_failure_duplicates_witness:
  "aw_file (flush_buffer [SyncFailed]
     (ack_writer_new ack_settings_default [9] \<lparr> aw_buffer := [1, 2] \<rparr>)) = [9, 1, 2, 1, 2]"
  using ack_sync_failure_duplicates [of "ack_writer_new ack_settings_default [9] \<lparr> aw_buffer := [1, 2] \<rparr>"]
  by (simp add: ack_writer_new_def ack_settings_default_def)

end
