(* ===== verification/Wal_Writer.thy ===== *)
theory Wal_Writer
  imports Wal_Correct Ordered_Buffer Ack_File_Writer
begin

text \<open>
  The WAL writer of a queue (\<open>normfs-wal/src/writer.rs\<close>) with the settings and messages of
  \<open>normfs-wal/src/lib.rs\<close>: a task takes requests from a channel, orders the entries, writes
  them to the current file and rotates to a new file when the current one is full or its
  header too narrow.

  \<open>writer_state\<close> has the fields of \<open>WriterState\<close>; the senders of the two channels are the lists
  of what has been sent (\<open>ws_acked\<close> collects what the closed file writers acknowledged), the task loop
  is \<open>ws_running\<close>, and the file system is \<open>ws_disk\<close> for the files that are closed and the file
  writer's own \<open>aw_file\<close> for the file at \<open>ws_path\<close>. What the operating system answers is the record
  \<open>writer_io\<close>: whether a file can be created (and what a failed creation leaves behind) and how
  the last flushes of a file go.
\<close>

section \<open>Model\<close>

record wal_settings =
  wset_max_file_size :: usize
  wset_write_buffer_size :: usize
  wset_enable_fsync :: bool
  wset_encryption_type :: encryption_type
  wset_compression_type :: compression_type

definition wal_settings_default :: wal_settings where
  "wal_settings_default =
     \<lparr> wset_max_file_size = 128 * 1024 * 1024, wset_write_buffer_size = 128 * 1024 * 1024,
       wset_enable_fsync = True, wset_encryption_type = Aes, wset_compression_type = Zstd \<rparr>"

record wal_file =
  wf_queue_id :: queue_id
  wf_file_id :: uintn
  wf_encryption_type :: encryption_type
  wf_compression_type :: compression_type

datatype write_request = EnqueueReq uintn bytes | EnqueueBatchReq "(uintn \<times> bytes) list" | CloseReq

record writer_io =
  wio_create :: "string \<Rightarrow> (unit, string \<times> bytes option) result"
  wio_close :: "string \<Rightarrow> attempt list \<times> attempt list"

record writer_state =
  ws_queue_path :: string
  ws_queue_id :: queue_id
  ws_file_id :: uintn
  ws_header :: wal_header
  ws_settings :: wal_settings
  ws_acked :: "ack list"
  ws_completed :: "wal_file list"
  ws_file_writer :: ack_writer
  ws_has_written :: bool
  ws_buffer :: ordered_buffer
  ws_running :: bool
  ws_path :: string
  ws_disk :: "string \<rightharpoonup> bytes"

definition new_file_writer ::
  "ext \<Rightarrow> writer_io \<Rightarrow> string \<Rightarrow> uintn \<Rightarrow> wal_header \<Rightarrow> wal_settings \<Rightarrow>
   string \<times> (ack_writer, string \<times> bytes option) result" where
  "new_file_writer X io queue_path file_id h settings =
     (let file_path = uintn_to_file_path X file_id queue_path ''wal'';
          (header_buf, _) = wal_header_write_to_bytes X h []
      in (file_path,
          case wio_create io file_path of
            Err e \<Rightarrow> Err e
          | Ok _ \<Rightarrow> Ok (ack_writer_new
              \<lparr> as_max_buffer_size = wset_write_buffer_size settings,
                as_max_file_size = of_nat (wset_max_file_size settings),
                as_fsync = wset_enable_fsync settings \<rparr> header_buf)))"

definition leave_behind :: "(string \<rightharpoonup> bytes) \<Rightarrow> string \<Rightarrow> bytes option \<Rightarrow> (string \<rightharpoonup> bytes)" where
  "leave_behind disk path left = (case left of None \<Rightarrow> disk | Some bs \<Rightarrow> disk(path \<mapsto> bs))"

definition wal_writer_new ::
  "ext \<Rightarrow> writer_io \<Rightarrow> (string \<rightharpoonup> bytes) \<Rightarrow> queue_id \<Rightarrow> string \<Rightarrow> uintn \<Rightarrow> wal_header \<Rightarrow> wal_settings \<Rightarrow>
   uintn option \<Rightarrow> (writer_state, wal_error) result" where
  "wal_writer_new X io disk q root file_id h settings last_entry_id =
     (let queue_fs_path = queue_id_to_wal_dir q root in
      case new_file_writer X io queue_fs_path file_id h settings of
        (path, Err (e, _)) \<Rightarrow> Err (IoError e)
      | (path, Ok file_writer) \<Rightarrow>
          Ok \<lparr> ws_queue_path = queue_fs_path, ws_queue_id = q, ws_file_id = file_id,
               ws_header = h, ws_settings = settings, ws_acked = [], ws_completed = [],
               ws_file_writer = file_writer, ws_has_written = False,
               ws_buffer = ordered_buffer_new last_entry_id q, ws_running = True,
               ws_path = path, ws_disk = disk \<rparr>)"

text \<open>
  \<open>rotate\<close> closes the current file, announces it, and opens the next one. When the new file
  cannot be created the error is returned after the identifier and the header have changed, and
  the closed file writer stays in place.
\<close>

definition writer_rotate ::
  "ext \<Rightarrow> writer_io \<Rightarrow> writer_state \<Rightarrow> uintn \<Rightarrow> usize \<Rightarrow> writer_state \<times> (unit, wal_error) result" where
  "writer_rotate X io self next_entry_id next_data_size =
     (let (pending, final) = wio_close io (ws_path self);
          old = ack_writer_close pending final (ws_file_writer self);
          self = self \<lparr> ws_file_writer := old,
                        ws_disk := (ws_disk self)(ws_path self \<mapsto> aw_file old),
                        ws_completed := ws_completed self @
                          [\<lparr> wf_queue_id = ws_queue_id self, wf_file_id = ws_file_id self,
                             wf_encryption_type = wset_encryption_type (ws_settings self),
                             wf_compression_type = wset_compression_type (ws_settings self) \<rparr>] \<rparr>;
          self = self \<lparr> ws_file_id := uintn_increment (ws_file_id self),
                        ws_header := (wal_header_resize X (ws_header self) next_entry_id next_data_size)
                          \<lparr> wh_num_entries_before := next_entry_id \<rparr> \<rparr>
      in case new_file_writer X io (ws_queue_path self) (ws_file_id self) (ws_header self)
                (ws_settings self) of
           (path, Err (e, left)) \<Rightarrow>
             (self \<lparr> ws_disk := leave_behind (ws_disk self) path left \<rparr>, Err (IoError e))
         | (path, Ok file_writer) \<Rightarrow>
             (self \<lparr> ws_file_writer := file_writer, ws_path := path,
                     ws_acked := ws_acked self @ aw_sent old, ws_has_written := False \<rparr>, Ok ()))"

text \<open>The body of the loop over the entries that are in order, and the loop.\<close>

definition writer_write_entry ::
  "ext \<Rightarrow> writer_io \<Rightarrow> writer_state \<Rightarrow> uintn \<times> bytes \<Rightarrow> (writer_state \<times> (unit, wal_error) result) run" where
  "writer_write_entry X io self entry =
     (let (entry_id, data) = entry in do {
        full \<leftarrow> (if ws_has_written self
                then do { can \<leftarrow> ack_writer_can_add (ws_file_writer self) (length data); Ret (\<not> can) }
                else Ret False);
        let (self, rotated) =
              (if full \<or> \<not> wal_header_can_hold_entry X (ws_header self) entry_id (length data)
               then writer_rotate X io self entry_id (length data)
               else (self, Ok ()));
        case rotated of
          Err e \<Rightarrow> Ret (self, Err e)
        | Ok _ \<Rightarrow>
            (case wal_entry_header_write_to_bytes X (wal_entry_header_new X entry_id data) []
                    (ws_header self) of
               Err e \<Rightarrow> Ret (self, Err (wal_error_from_uintn e))
             | Ok entry_buf \<Rightarrow> do {
                 fw \<leftarrow> ack_writer_write (ws_file_writer self) (ws_queue_id self) entry_id
                        (entry_buf @ data);
                 Ret (self \<lparr> ws_file_writer := fw, ws_has_written := True \<rparr>, Ok ()) }) })"

fun writer_write_entries ::
  "ext \<Rightarrow> writer_io \<Rightarrow> writer_state \<Rightarrow> (uintn \<times> bytes) list \<Rightarrow>
   (writer_state \<times> (unit, wal_error) result) run" where
  "writer_write_entries X io self [] = Ret (self, Ok ())"
| "writer_write_entries X io self (entry # entries) = do {
     (self, r) \<leftarrow> writer_write_entry X io self entry;
     case r of Err e \<Rightarrow> Ret (self, Err e) | Ok _ \<Rightarrow> writer_write_entries X io self entries }"

definition writer_write ::
  "ext \<Rightarrow> writer_io \<Rightarrow> writer_state \<Rightarrow> uintn \<times> bytes \<Rightarrow> (writer_state \<times> (unit, wal_error) result) run" where
  "writer_write X io self entry =
     (let (buffer, entries) = ordered_buffer_submit (ws_buffer self) entry;
          self = self \<lparr> ws_buffer := buffer \<rparr>
      in writer_write_entries X io self entries)"

fun writer_write_batch ::
  "ext \<Rightarrow> writer_io \<Rightarrow> writer_state \<Rightarrow> (uintn \<times> bytes) list \<Rightarrow>
   (writer_state \<times> (unit, wal_error) result) run" where
  "writer_write_batch X io self [] = Ret (self, Ok ())"
| "writer_write_batch X io self (entry # entries) = do {
     (self, r) \<leftarrow> writer_write X io self entry;
     case r of Err e \<Rightarrow> Ret (self, Err e) | Ok _ \<Rightarrow> writer_write_batch X io self entries }"

definition writer_close :: "writer_io \<Rightarrow> writer_state \<Rightarrow> writer_state" where
  "writer_close io self =
     (let (pending, final) = wio_close io (ws_path self)
      in self \<lparr> ws_file_writer := ack_writer_close pending final (ws_file_writer self),
                ws_running := False \<rparr>)"

text \<open>One round of the task: an error is logged and the loop goes on.\<close>

fun writer_handle :: "ext \<Rightarrow> writer_io \<Rightarrow> writer_state \<Rightarrow> write_request \<Rightarrow> writer_state run" where
  "writer_handle X io self (EnqueueReq entry_id data) = do {
     (self, _) \<leftarrow> writer_write X io self (entry_id, data); Ret self }"
| "writer_handle X io self (EnqueueBatchReq entries) = do {
     (self, _) \<leftarrow> writer_write_batch X io self entries; Ret self }"
| "writer_handle X io self CloseReq = Ret (writer_close io self)"

section \<open>The files of a queue\<close>

text \<open>
  A chain of WAL files from file \<open>k\<close> and entry \<open>n\<close> on: consecutive file identifiers,
  consecutive entry identifiers across the files, every header readable, counting the entries
  before it and wide enough for its entries.
\<close>

type_synonym log_file = "uintn \<times> wal_header \<times> (uintn \<times> bytes) list"

fun wal_chain :: "ext \<Rightarrow> nat \<Rightarrow> nat \<Rightarrow> log_file list \<Rightarrow> bool" where
  "wal_chain X k n [] \<longleftrightarrow> True"
| "wal_chain X k n ((f, h, es) # fs) \<longleftrightarrow>
     uval f = k \<and> uval (wh_num_entries_before h) = n \<and> ids es = [n..<n + length es] \<and>
     wal_header_readable X h \<and> uintn_size_in_bytes X (wh_num_entries_before h) \<le> 16 \<and>
     list_all (entry_ok h) es \<and> wal_chain X (k + 1) (n + length es) fs"

definition logged :: "log_file list \<Rightarrow> (uintn \<times> bytes) list" where
  "logged files = concat (map (\<lambda>(f, h, es). es) files)"

lemma logged_simps [simp]:
  "logged [] = []" "logged ((f, h, es) # fs) = es @ logged fs" "logged (fs @ gs) = logged fs @ logged gs"
  by (simp_all add: logged_def)

lemma wal_chain_append:
  "wal_chain X k n (fs @ gs) \<longleftrightarrow>
   wal_chain X k n fs \<and> wal_chain X (k + length fs) (n + length (logged fs)) gs"
  by (induction X k n fs rule: wal_chain.induct) (auto simp: add.assoc)

lemma wal_chain_file_less: "wal_chain X k n fs \<Longrightarrow> (f, h, es) \<in> set fs \<Longrightarrow> uval f < k + length fs"
  by (induction X k n fs rule: wal_chain.induct) fastforce+

lemma wal_chain_readable:
  "wal_chain X k n fs \<Longrightarrow> (f, h, es) \<in> set fs \<Longrightarrow> wal_header_readable X h \<and> list_all (entry_ok h) es"
  by (induction X k n fs rule: wal_chain.induct) auto

lemma wal_chain_logged: "wal_chain X k n fs \<Longrightarrow> ids (logged fs) = [n..<n + length (logged fs)]"
proof (induction X k n fs rule: wal_chain.induct)
  case (2 X k n f h es fs)
  then show ?case
    using upt_add_eq_append [of n "n + length es" "length (logged fs)"] by (simp add: add.assoc)
qed simp

abbreviation on_disk :: "ext \<Rightarrow> string \<Rightarrow> (string \<rightharpoonup> bytes) \<Rightarrow> log_file \<Rightarrow> bool" where
  "on_disk X dir disk \<equiv>
     \<lambda>(f, h, es). disk (uintn_to_file_path X f dir ''wal'') = Some (wal_file_bytes X h es)"

definition writer_inv ::
  "ext \<Rightarrow> nat \<Rightarrow> nat \<Rightarrow> writer_state \<Rightarrow> log_file list \<Rightarrow> (uintn \<times> bytes) list \<Rightarrow> bool" where
  "writer_inv X k n st files cur \<longleftrightarrow>
     wal_chain X k n (files @ [(ws_file_id st, ws_header st, cur)]) \<and>
     wset_max_file_size (ws_settings st) < 2 ^ 62 \<and>
     as_max_file_size (aw_settings (ws_file_writer st)) = of_nat (wset_max_file_size (ws_settings st)) \<and>
     ws_path st = uintn_to_file_path X (ws_file_id st) (ws_queue_path st) ''wal'' \<and>
     aw_content (ws_file_writer st) = wal_file_bytes X (ws_header st) cur \<and>
     unat (aw_current_size (ws_file_writer st)) = length (aw_content (ws_file_writer st)) \<and>
     length (aw_content (ws_file_writer st)) \<le> 2 ^ 62 + 96 \<and>
     (ws_has_written st \<longleftrightarrow> cur \<noteq> []) \<and>
     (aw_closed (ws_file_writer st) \<longleftrightarrow> \<not> ws_running st) \<and>
     (aw_closed (ws_file_writer st) \<longrightarrow>
        aw_file (ws_file_writer st) = aw_content (ws_file_writer st)) \<and>
     map wf_file_id (ws_completed st) = map fst files \<and>
     list_all (on_disk X (ws_queue_path st) (ws_disk st)) files"

lemma writer_invD:
  assumes "writer_inv X k n st files cur"
  shows "wal_chain X k n (files @ [(ws_file_id st, ws_header st, cur)])"
    and "wset_max_file_size (ws_settings st) < 2 ^ 62"
    and "as_max_file_size (aw_settings (ws_file_writer st)) = of_nat (wset_max_file_size (ws_settings st))"
    and "ws_path st = uintn_to_file_path X (ws_file_id st) (ws_queue_path st) ''wal''"
    and "aw_content (ws_file_writer st) = wal_file_bytes X (ws_header st) cur"
    and "unat (aw_current_size (ws_file_writer st)) = length (aw_content (ws_file_writer st))"
    and "length (aw_content (ws_file_writer st)) \<le> 2 ^ 62 + 96"
    and "ws_has_written st \<longleftrightarrow> cur \<noteq> []"
    and "aw_closed (ws_file_writer st) \<longleftrightarrow> \<not> ws_running st"
    and "aw_closed (ws_file_writer st) \<Longrightarrow> aw_file (ws_file_writer st) = aw_content (ws_file_writer st)"
    and "map wf_file_id (ws_completed st) = map fst files"
    and "list_all (on_disk X (ws_queue_path st) (ws_disk st)) files"
  using assms unfolding writer_inv_def by blast+

text \<open>The operating system creates every file and completes the last flush of every file.\<close>

definition io_ok :: "writer_io \<Rightarrow> bool" where
  "io_ok io \<longleftrightarrow> (\<forall>p. wio_create io p = Ok ()) \<and> (\<forall>p. wio_close io p = ([], []))"

definition good_entry :: "uintn \<times> bytes \<Rightarrow> bool" where
  "good_entry e \<longleftrightarrow> canonical (fst e) \<and> uval (fst e) < 2 ^ 128 \<and> length (snd e) < 2 ^ 62"

lemma good_entry_size: "good_entry e \<Longrightarrow> uintn_size_in_bytes X (fst e) \<le> 16"
  using size_of_fixed_width [of "fst e" X] by (auto simp: good_entry_def)

lemma can_hold_entry_ok:
  assumes "ubig_bytes_ok X" "good_entry e"
    and "wal_header_can_hold_entry X h (fst e) (length (snd e))"
  shows "entry_ok h e"
proof -
  have "entry_header_fits h (wal_entry_header_new X (fst e) (snd e))"
    using assms(2) good_entry_size [OF assms(2), of X]
    by (intro can_hold_entry_fits [OF assms(1) _ _ assms(3)]) (simp_all add: good_entry_def)
  then show ?thesis using assms(2)
    by (simp add: entry_ok_def entry_header_fits_def wal_entry_header_new_def good_entry_def
        unat_of_nat_word)
qed

lemma length_wal_header_enc:
  "ubig_bytes_ok X \<Longrightarrow> length (wal_header_enc X h) = 32 + uintn_size_in_bytes X (wh_num_entries_before h)"
  by (simp add: wal_header_enc_eq uintn_enc_eq)

lemma length_entry_enc_le:
  "ubig_bytes_ok X \<Longrightarrow> valid_sizes h \<Longrightarrow> entry_ok h e \<Longrightarrow> length (entry_enc X h e) \<le> 48 + length (snd e)"
  using valid_sizes_bound [of h]
  by (simp add: length_entry_enc wal_entry_header_size_def WAL_ENTRY_HEADER_FIXED_OVERHEAD_def)

lemma new_file_writer_ok:
  assumes "ubig_bytes_ok X" "io_ok io"
  shows "new_file_writer X io dir f h settings = (uintn_to_file_path X f dir ''wal'',
    Ok (ack_writer_new \<lparr> as_max_buffer_size = wset_write_buffer_size settings,
          as_max_file_size = of_nat (wset_max_file_size settings),
          as_fsync = wset_enable_fsync settings \<rparr> (wal_header_enc X h)))"
  using assms by (simp add: new_file_writer_def io_ok_def wal_header_write_eq)

lemma aw_new_fields [simp]:
  "aw_content (ack_writer_new s h) = h" "aw_settings (ack_writer_new s h) = s"
  "aw_current_size (ack_writer_new s h) = of_nat (length h)" "\<not> aw_closed (ack_writer_new s h)"
  by (simp_all add: aw_content_def ack_writer_new_def)

section \<open>Writing keeps the chain\<close>

lemma writer_rotate_fields:
  assumes "ubig_bytes_ok X" "io_ok io"
  obtains st' where "writer_rotate X io st i len = (st', Ok ())"
    "ws_queue_path st' = ws_queue_path st" "ws_file_id st' = uintn_increment (ws_file_id st)"
    "ws_header st' = (wal_header_resize X (ws_header st) i len) \<lparr> wh_num_entries_before := i \<rparr>"
    "ws_settings st' = ws_settings st"
    "ws_file_writer st' = ack_writer_new
       \<lparr> as_max_buffer_size = wset_write_buffer_size (ws_settings st),
         as_max_file_size = of_nat (wset_max_file_size (ws_settings st)),
         as_fsync = wset_enable_fsync (ws_settings st) \<rparr> (wal_header_enc X (ws_header st'))"
    "ws_path st' = uintn_to_file_path X (ws_file_id st') (ws_queue_path st) ''wal''"
    "ws_disk st' = (ws_disk st)(ws_path st \<mapsto> aw_file (ack_writer_close [] [] (ws_file_writer st)))"
    "map wf_file_id (ws_completed st') = map wf_file_id (ws_completed st) @ [ws_file_id st]"
    "\<not> ws_has_written st'" "ws_buffer st' = ws_buffer st" "ws_running st' = ws_running st"
proof -
  have "writer_rotate X io st i len = (fst (writer_rotate X io st i len), Ok ())"
    using assms(2) by (simp add: writer_rotate_def new_file_writer_ok [OF assms] io_ok_def Let_def)
  from that [OF this] show thesis
    using assms(2) by (simp add: writer_rotate_def new_file_writer_ok [OF assms] io_ok_def Let_def)
qed

lemma resized_header_readable:
  assumes "valid_sizes h" "good_entry e"
  shows "wal_header_readable X ((wal_header_resize X h (fst e) len) \<lparr> wh_num_entries_before := fst e \<rparr>)"
  using resize_valid_sizes [of h "fst e" X len] assms good_entry_size [OF assms(2), of X]
  by (simp add: wal_header_readable_def wal_header_ok_def uintn_encodable_def valid_sizes_def good_entry_def)

lemma writer_rotate_ok:
  assumes "ubig_bytes_ok X" "ubig_hex_ok X" "io_ok io" "writer_inv X k n st files cur" "good_entry e"
    and "uval (fst e) = n + length (logged files @ cur)" "ws_running st"
  obtains st' where "writer_rotate X io st (fst e) (length (snd e)) = (st', Ok ())"
    "writer_inv X k n st' (files @ [(ws_file_id st, ws_header st, cur)]) []"
    "wal_header_can_hold_entry X (ws_header st') (fst e) (length (snd e))"
    "ws_buffer st' = ws_buffer st" "ws_running st'"
proof (rule writer_rotate_fields [OF assms(1,3), of st "fst e" "length (snd e)"])
  fix st'
  assume r: "writer_rotate X io st (fst e) (length (snd e)) = (st', Ok ())"
    and f: "ws_queue_path st' = ws_queue_path st" "ws_file_id st' = uintn_increment (ws_file_id st)"
      "ws_header st' = (wal_header_resize X (ws_header st) (fst e) (length (snd e)))
         \<lparr> wh_num_entries_before := fst e \<rparr>"
      "ws_settings st' = ws_settings st"
      "ws_file_writer st' = ack_writer_new
         \<lparr> as_max_buffer_size = wset_write_buffer_size (ws_settings st),
           as_max_file_size = of_nat (wset_max_file_size (ws_settings st)),
           as_fsync = wset_enable_fsync (ws_settings st) \<rparr> (wal_header_enc X (ws_header st'))"
      "ws_path st' = uintn_to_file_path X (ws_file_id st') (ws_queue_path st) ''wal''"
      "ws_disk st' = (ws_disk st)(ws_path st \<mapsto> aw_file (ack_writer_close [] [] (ws_file_writer st)))"
      "map wf_file_id (ws_completed st') = map wf_file_id (ws_completed st) @ [ws_file_id st]"
      "\<not> ws_has_written st'" "ws_buffer st' = ws_buffer st" "ws_running st' = ws_running st"
  note inv = writer_invD [OF assms(4)]
  note chain = inv(1)
  have sizes: "valid_sizes (ws_header st)"
    using chain by (simp add: wal_chain_append wal_header_readable_def)
  have "uval (ws_file_id st) = k + length files" using chain by (simp add: wal_chain_append)
  then have "uintn_to_file_path X g (ws_queue_path st) ''wal'' \<noteq> ws_path st"
    if mem: "(g, h, es) \<in> set files" for g h es
  proof -
    have "wal_chain X k n files" using chain by (simp add: wal_chain_append)
    from wal_chain_file_less [OF this mem] have "uval g \<noteq> uval (ws_file_id st)"
      using \<open>uval (ws_file_id st) = _\<close> by simp
    then show ?thesis
      using to_file_path_same [OF assms(2), of "''wal''" g "ws_queue_path st" "ws_file_id st"] inv(4) by auto
  qed
  then have disk: "list_all (on_disk X (ws_queue_path st) (ws_disk st')) files"
    using inv(12) f(7) by (auto simp: list_all_iff)
  have "aw_file (ack_writer_close [] [] (ws_file_writer st)) = wal_file_bytes X (ws_header st) cur"
    using aw_file_close inv(5,9) assms(7) by simp
  with disk have "list_all (on_disk X (ws_queue_path st) (ws_disk st'))
      (files @ [(ws_file_id st, ws_header st, cur)])"
    using inv(4) f(7) by simp
  moreover have "wal_chain X k n ((files @ [(ws_file_id st, ws_header st, cur)]) @
      [(ws_file_id st', ws_header st', [])])"
    using chain f assms(6) resized_header_readable [OF sizes assms(5)] good_entry_size [OF assms(5)]
    by (simp add: wal_chain_append)
  moreover have len: "length (wal_header_enc X (ws_header st')) \<le> 48"
    using good_entry_size [OF assms(5), of X] by (simp add: length_wal_header_enc [OF assms(1)] f(3))
  ultimately have "writer_inv X k n st' (files @ [(ws_file_id st, ws_header st, cur)]) []"
    unfolding writer_inv_def using f(1,4-6,8,9,11) inv(2,9,11) assms(7)
    by (simp add: wal_file_bytes_def unat_of_nat_word)
  moreover have "wal_header_can_hold_entry X (ws_header st') (fst e) (length (snd e))"
    using resize_can_hold [of X "ws_header st" "fst e" "length (snd e)"]
    by (simp add: f(3) wal_header_can_hold_entry_def)
  ultimately show thesis using that [OF r] f(10,11) assms(7) by blast
qed

lemma can_add_no_panic:
  assumes "writer_inv X k n st files cur" "len < 2 ^ 62"
  obtains b where "ack_writer_can_add (ws_file_writer st) len = Ret b"
    "b \<longleftrightarrow> length (aw_content (ws_file_writer st)) + len \<le> wset_max_file_size (ws_settings st)"
proof -
  note inv = writer_invD [OF assms(1)]
  let ?s = "aw_current_size (ws_file_writer st)"
  have len: "unat (of_nat len :: u64) = len" using assms(2) by (intro unat_of_nat_word) simp
  have max: "unat (of_nat (wset_max_file_size (ws_settings st)) :: u64) = wset_max_file_size (ws_settings st)"
    using inv(2) by (intro unat_of_nat_word) simp
  have size: "unat ?s = length (aw_content (ws_file_writer st))" "unat ?s \<le> 2 ^ 62 + 96"
    using inv(6,7) by linarith+
  have fits: "unat ?s + unat (of_nat len :: u64) < 2 ^ LENGTH(64)"
    unfolding len using size(2) assms(2) by simp
  then have "unat (?s + of_nat len) = length (aw_content (ws_file_writer st)) + len"
    using size len by (simp add: unat_word_add_small)
  then show thesis using that max fits inv(3)
    by (simp add: ack_writer_can_add_def u64_add_def checked_add_def word_le_nat_alt)
qed

text \<open>Appending an entry the header can hold to the current file.\<close>

lemma append_entry_ok:
  assumes "ubig_bytes_ok X" "writer_inv X k n st files cur" "good_entry e"
    and "uval (fst e) = n + length (logged files @ cur)"
    and "wal_header_can_hold_entry X (ws_header st) (fst e) (length (snd e))"
    and small: "cur = [] \<or> length (aw_content (ws_file_writer st)) + length (snd e) < 2 ^ 62"
    and running: "ws_running st"
  obtains fw where "wal_entry_header_write_to_bytes X (wal_entry_header_new X (fst e) (snd e)) []
      (ws_header st) = Ok (wal_entry_header_enc X (ws_header st) (wal_entry_header_new X (fst e) (snd e)))"
    "ack_writer_write (ws_file_writer st) (ws_queue_id st) (fst e)
       (wal_entry_header_enc X (ws_header st) (wal_entry_header_new X (fst e) (snd e)) @ snd e) = Ret fw"
    "writer_inv X k n (st \<lparr> ws_file_writer := fw, ws_has_written := True \<rparr>) files (cur @ [e])"
proof -
  note inv = writer_invD [OF assms(2)]
  let ?c = "aw_content (ws_file_writer st)" and ?b = "entry_enc X (ws_header st) e"
  have ok: "entry_ok (ws_header st) e" by (rule can_hold_entry_ok [OF assms(1,3,5)])
  note chain = inv(1)
  have sizes: "valid_sizes (ws_header st)"
    using chain by (simp add: wal_chain_append wal_header_readable_def)
  have b: "length ?b \<le> 48 + length (snd e)" by (rule length_entry_enc_le [OF assms(1) sizes ok])
  have "length (wal_header_enc X (ws_header st)) \<le> 48"
    using chain by (simp add: wal_chain_append length_wal_header_enc [OF assms(1)])
  then have c: "length ?c \<le> 48 \<or> length ?c + length (snd e) < 2 ^ 62"
    using small inv(5) by (auto simp: wal_file_bytes_def)
  have d: "length (snd e) < 2 ^ 62" using assms(3) by (simp add: good_entry_def)
  have lb: "unat (of_nat (length ?b) :: u64) = length ?b" using b d by (intro unat_of_nat_word) simp
  have size: "unat (aw_current_size (ws_file_writer st)) = length ?c" by (rule inv(6))
  then have "unat (aw_current_size (ws_file_writer st)) + unat (of_nat (length ?b) :: u64) < 2 ^ LENGTH(64)"
    unfolding lb using b c d by auto
  then obtain fw where fw: "ack_writer_write (ws_file_writer st) (ws_queue_id st) (fst e) ?b = Ret fw"
    by (simp add: ack_writer_write_def u64_add_def checked_add_def)
  note fields = ack_writer_write_fields [OF fw] and content = aw_content_write [OF fw]
  have "wal_chain X k n (files @ [(ws_file_id st, ws_header st, cur @ [e])])"
    using chain ok assms(4) by (simp add: wal_chain_append)
  moreover have "length (aw_content fw) \<le> 2 ^ 62 + 96" using b c d content by auto
  moreover have "unat (aw_current_size fw) = length (aw_content fw)" using fields(8) size content lb by simp
  moreover have "aw_content fw = wal_file_bytes X (ws_header st) (cur @ [e])"
    using inv(5) content by (simp add: wal_file_bytes_def entry_enc_def)
  ultimately have "writer_inv X k n (st \<lparr> ws_file_writer := fw, ws_has_written := True \<rparr>) files (cur @ [e])"
    unfolding writer_inv_def using inv(2-4,9,11,12) fields running by simp
  then show thesis
    using that wal_entry_header_write_eq(1) [OF assms(1) sizes entry_ok_fits [OF ok, of X], of "[]"] fw
    by (simp add: entry_enc_def)
qed

lemma writer_write_entry_ok:
  assumes "ubig_bytes_ok X" "ubig_hex_ok X" "io_ok io" "writer_inv X k n st files cur" "good_entry e"
    and "uval (fst e) = n + length (logged files @ cur)" "ws_running st"
  obtains st' new cur' where "writer_write_entry X io st e = Ret (st', Ok ())"
    "writer_inv X k n st' (files @ new) cur'" "logged (files @ new) @ cur' = (logged files @ cur) @ [e]"
    "ws_buffer st' = ws_buffer st" "ws_running st'"
proof -
  obtain i d where e: "e = (i, d)" by fastforce
  have d: "length d < 2 ^ 62" using assms(5) e by (simp add: good_entry_def)
  obtain b where b: "ack_writer_can_add (ws_file_writer st) (length d) = Ret b"
    "b \<longleftrightarrow> length (aw_content (ws_file_writer st)) + length d \<le> wset_max_file_size (ws_settings st)"
    using can_add_no_panic [OF assms(4) d] by blast
  have hw: "ws_has_written st \<longleftrightarrow> cur \<noteq> []" "wset_max_file_size (ws_settings st) < 2 ^ 62"
    using writer_invD(2,8) [OF assms(4)] by blast+
  show thesis
  proof (cases "ws_has_written st \<and> \<not> b \<or> \<not> wal_header_can_hold_entry X (ws_header st) i (length d)")
    case False
    then have hold: "wal_header_can_hold_entry X (ws_header st) (fst e) (length (snd e))"
      and small: "cur = [] \<or> length (aw_content (ws_file_writer st)) + length (snd e) < 2 ^ 62"
      using b(2) hw e by auto
    show thesis
    proof (rule append_entry_ok [OF assms(1,4-6) hold small assms(7)])
      fix fw
      assume a: "wal_entry_header_write_to_bytes X (wal_entry_header_new X (fst e) (snd e)) []
        (ws_header st) = Ok (wal_entry_header_enc X (ws_header st) (wal_entry_header_new X (fst e) (snd e)))"
        "ack_writer_write (ws_file_writer st) (ws_queue_id st) (fst e)
         (wal_entry_header_enc X (ws_header st) (wal_entry_header_new X (fst e) (snd e)) @ snd e) = Ret fw"
        "writer_inv X k n (st \<lparr> ws_file_writer := fw, ws_has_written := True \<rparr>) files (cur @ [e])"
      show thesis
        by (rule that [of "st \<lparr> ws_file_writer := fw, ws_has_written := True \<rparr>" "[]" "cur @ [e]"])
           (use a False b e assms(7) in \<open>simp_all add: writer_write_entry_def\<close>)
    qed
  next
    case True
    show thesis
    proof (rule writer_rotate_ok [OF assms])
      fix s
      assume r: "writer_rotate X io st (fst e) (length (snd e)) = (s, Ok ())"
        "writer_inv X k n s (files @ [(ws_file_id st, ws_header st, cur)]) []"
        "wal_header_can_hold_entry X (ws_header s) (fst e) (length (snd e))"
        "ws_buffer s = ws_buffer st" "ws_running s"
      have pos: "uval (fst e) = n + length (logged (files @ [(ws_file_id st, ws_header st, cur)]) @ [])"
        using assms(6) by simp
      show thesis
      proof (rule append_entry_ok [OF assms(1) r(2) assms(5) pos r(3) disjI1 [OF refl] r(5)])
        fix fw
        assume a: "wal_entry_header_write_to_bytes X (wal_entry_header_new X (fst e) (snd e)) []
          (ws_header s) = Ok (wal_entry_header_enc X (ws_header s) (wal_entry_header_new X (fst e) (snd e)))"
          "ack_writer_write (ws_file_writer s) (ws_queue_id s) (fst e)
           (wal_entry_header_enc X (ws_header s) (wal_entry_header_new X (fst e) (snd e)) @ snd e) = Ret fw"
          "writer_inv X k n (s \<lparr> ws_file_writer := fw, ws_has_written := True \<rparr>)
             (files @ [(ws_file_id st, ws_header st, cur)]) ([] @ [e])"
        show thesis
          by (rule that [of "s \<lparr> ws_file_writer := fw, ws_has_written := True \<rparr>"
                "[(ws_file_id st, ws_header st, cur)]" "[e]"])
             (use a True b e r in \<open>auto simp: writer_write_entry_def\<close>)
      qed
    qed
  qed
qed

lemma writer_write_entries_ok:
  assumes "ubig_bytes_ok X" "ubig_hex_ok X" "io_ok io"
  shows "writer_inv X k n st files cur \<Longrightarrow> ws_running st \<Longrightarrow> list_all good_entry es \<Longrightarrow>
    ids es = [n + length (logged files @ cur)..<n + length (logged files @ cur) + length es] \<Longrightarrow>
    \<exists>st' new cur'. writer_write_entries X io st es = Ret (st', Ok ()) \<and>
      writer_inv X k n st' (files @ new) cur' \<and>
      logged (files @ new) @ cur' = (logged files @ cur) @ es \<and>
      ws_buffer st' = ws_buffer st \<and> ws_running st'"
proof (induction es arbitrary: st files cur)
  case Nil
  then show ?case by (intro exI [of _ st] exI [of _ "[]"] exI [of _ cur]) simp
next
  case (Cons e es)
  let ?p = "n + length (logged files @ cur)"
  have e: "uval (fst e) = ?p" "ids es = [?p + 1..<?p + 1 + length es]"
    using Cons.prems(4) by (simp_all add: upt_conv_Cons del: upt_Suc)
  from Cons.prems(3) have "good_entry e" by simp
  from writer_write_entry_ok [OF assms Cons.prems(1) this e(1) Cons.prems(2)]
  obtain st1 new1 cur1 where 1: "writer_write_entry X io st e = Ret (st1, Ok ())"
    "writer_inv X k n st1 (files @ new1) cur1" "logged (files @ new1) @ cur1 = (logged files @ cur) @ [e]"
    "ws_buffer st1 = ws_buffer st" "ws_running st1" by blast
  have "length (logged (files @ new1) @ cur1) = length (logged files @ cur) + 1" by (simp only: 1(3)) simp
  then have "ids es = [n + length (logged (files @ new1) @ cur1)..<
      n + length (logged (files @ new1) @ cur1) + length es]"
    using e(2) by (simp add: add.assoc)
  with Cons.IH [OF 1(2,5)] Cons.prems(3)
  obtain st2 new2 cur2 where 2: "writer_write_entries X io st1 es = Ret (st2, Ok ())"
    "writer_inv X k n st2 ((files @ new1) @ new2) cur2"
    "logged ((files @ new1) @ new2) @ cur2 = (logged (files @ new1) @ cur1) @ es"
    "ws_buffer st2 = ws_buffer st1" "ws_running st2" by auto
  show ?case
    by (intro exI [of _ st2] exI [of _ "new1 @ new2"] exI [of _ cur2])
       (use 1 2 in simp)
qed

lemma writer_inv_buffer [simp]:
  "writer_inv X k n (st \<lparr> ws_buffer := b \<rparr>) files cur = writer_inv X k n st files cur"
  by (simp add: writer_inv_def)

lemma writer_write_ok:
  assumes "ubig_bytes_ok X" "ubig_hex_ok X" "io_ok io" "writer_inv X k n st files cur" "ws_running st"
    and "next_id (ob_last_written_id (ws_buffer st)) = n + length (logged files @ cur)"
    and "list_all good_entry (ob_pending (ws_buffer st))" "good_entry e"
  obtains st' new cur' r where "writer_write X io st e = Ret (st', Ok ())"
    "ordered_buffer_submit (ws_buffer st) e = (ws_buffer st', r)"
    "writer_inv X k n st' (files @ new) cur'"
    "logged (files @ new) @ cur' = (logged files @ cur) @ r" "ws_running st'"
    "next_id (ob_last_written_id (ws_buffer st')) = n + length (logged (files @ new) @ cur')"
    "list_all good_entry (ob_pending (ws_buffer st'))"
proof -
  obtain b r where s: "ordered_buffer_submit (ws_buffer st) e = (b, r)" by fastforce
  let ?st = "st \<lparr> ws_buffer := b \<rparr>"
  have "mset r + mset (ob_pending b) = add_mset e (mset (ob_pending (ws_buffer st)))"
    by (rule submit_mset [OF s])
  then have "set_mset (mset r + mset (ob_pending b)) = insert e (set (ob_pending (ws_buffer st)))" by simp
  then have "set r \<union> set (ob_pending b) = insert e (set (ob_pending (ws_buffer st)))" by simp
  then have "\<forall>x \<in> set r \<union> set (ob_pending b). good_entry x" using assms(7,8) by (simp add: list_all_iff)
  then have good: "list_all good_entry r" "list_all good_entry (ob_pending b)" by (auto simp: list_all_iff)
  have inv: "writer_inv X k n ?st files cur" "ws_running ?st"
    using assms(4,5) by simp_all
  from writer_write_entries_ok [OF assms(1-3) inv good(1)] submit_consecutive [OF s]
  obtain st' new cur' where w: "writer_write_entries X io ?st r = Ret (st', Ok ())"
    "writer_inv X k n st' (files @ new) cur'" "logged (files @ new) @ cur' = (logged files @ cur) @ r"
    "ws_buffer st' = b" "ws_running st'"
    unfolding assms(6) by auto
  have "length (logged (files @ new) @ cur') = length (logged files @ cur) + length r"
    by (simp only: w(3)) simp
  then show thesis
    using that [of st' r new cur'] w s good submit_consecutive(2) [OF s] assms(6)
    by (simp add: writer_write_def)
qed

lemma writer_write_batch_ok:
  assumes "ubig_bytes_ok X" "ubig_hex_ok X" "io_ok io"
  shows "writer_inv X k n st files cur \<Longrightarrow> ws_running st \<Longrightarrow>
    next_id (ob_last_written_id (ws_buffer st)) = n + length (logged files @ cur) \<Longrightarrow>
    list_all good_entry (ob_pending (ws_buffer st)) \<Longrightarrow> list_all good_entry es \<Longrightarrow>
    \<exists>st' new cur' r. writer_write_batch X io st es = Ret (st', Ok ()) \<and>
      ordered_buffer_submit_all (ws_buffer st) es = (ws_buffer st', r) \<and>
      writer_inv X k n st' (files @ new) cur' \<and>
      logged (files @ new) @ cur' = (logged files @ cur) @ r \<and> ws_running st' \<and>
      next_id (ob_last_written_id (ws_buffer st')) = n + length (logged (files @ new) @ cur') \<and>
      list_all good_entry (ob_pending (ws_buffer st'))"
proof (induction es arbitrary: st files cur)
  case Nil
  then show ?case by (intro exI [of _ st] exI [of _ "[]"] exI [of _ cur] exI [of _ "[]"]) simp
next
  case (Cons e es)
  from Cons.prems(5) have ges: "good_entry e" "list_all good_entry es" by auto
  obtain st1 new1 cur1 r1 where 1: "writer_write X io st e = Ret (st1, Ok ())"
    "ordered_buffer_submit (ws_buffer st) e = (ws_buffer st1, r1)"
    "writer_inv X k n st1 (files @ new1) cur1"
    "logged (files @ new1) @ cur1 = (logged files @ cur) @ r1" "ws_running st1"
    "next_id (ob_last_written_id (ws_buffer st1)) = n + length (logged (files @ new1) @ cur1)"
    "list_all good_entry (ob_pending (ws_buffer st1))"
    by (rule writer_write_ok [OF assms Cons.prems(1-4) ges(1)])
  obtain st2 new2 cur2 r2 where 2: "writer_write_batch X io st1 es = Ret (st2, Ok ())"
    "ordered_buffer_submit_all (ws_buffer st1) es = (ws_buffer st2, r2)"
    "writer_inv X k n st2 ((files @ new1) @ new2) cur2"
    "logged ((files @ new1) @ new2) @ cur2 = (logged (files @ new1) @ cur1) @ r2" "ws_running st2"
    "next_id (ob_last_written_id (ws_buffer st2)) = n + length (logged ((files @ new1) @ new2) @ cur2)"
    "list_all good_entry (ob_pending (ws_buffer st2))"
    using Cons.IH [OF 1(3,5,6,7) ges(2)] by (elim exE conjE)
  have "writer_write_batch X io st (e # es) = Ret (st2, Ok ())"
    "ordered_buffer_submit_all (ws_buffer st) (e # es) = (ws_buffer st2, r1 @ r2)"
    using 1(1,2) 2(1,2) by simp_all
  moreover have "logged (files @ new1 @ new2) @ cur2 = (logged files @ cur) @ r1 @ r2"
    using 1(4) 2(4) by simp
  ultimately show ?case
    using 2(3,5-7)
    by (intro exI [of _ st2] exI [of _ "new1 @ new2"] exI [of _ cur2] exI [of _ "r1 @ r2"])
       (simp only: append_assoc simp_thms)
qed

section \<open>Runs\<close>

text \<open>
  The interleavings of the writer task, which handles requests, with the flush task of the
  current file. The second component of a state is a ghost: the entries requested so far. A label
  is fine when the entries are \<open>good_entry\<close> and failed flush attempts leave the file as it was.
\<close>

datatype writer_label = Request write_request | WFlushBegin | WFlushEnd "attempt list"

type_synonym writer_config = "writer_state \<times> (uintn \<times> bytes) list"

primrec request_entries :: "write_request \<Rightarrow> (uintn \<times> bytes) list" where
  "request_entries (EnqueueReq i d) = [(i, d)]"
| "request_entries (EnqueueBatchReq es) = es"
| "request_entries CloseReq = []"

inductive writer_step :: "ext \<Rightarrow> writer_io \<Rightarrow> writer_config \<Rightarrow> writer_label \<Rightarrow> writer_config \<Rightarrow> bool"
  for X io where
  writer_step_request:
    "ws_running st \<Longrightarrow> writer_handle X io st req = Ret st' \<Longrightarrow>
     writer_step X io (st, es) (Request req) (st', es @ request_entries req)"
| writer_step_begin:
    "ws_running st \<Longrightarrow> aw_inflight (ws_file_writer st) = None \<Longrightarrow>
     writer_step X io (st, es) WFlushBegin
       (st \<lparr> ws_file_writer := ack_flush_begin (ws_file_writer st) \<rparr>, es)"
| writer_step_end:
    "ws_running st \<Longrightarrow>
     writer_step X io (st, es) (WFlushEnd outcomes)
       (st \<lparr> ws_file_writer := ack_flush_end outcomes (ws_file_writer st) \<rparr>, es)"

fun fine_label :: "writer_config \<Rightarrow> writer_label \<Rightarrow> bool" where
  "fine_label s (Request req) = list_all good_entry (request_entries req)"
| "fine_label s WFlushBegin = True"
| "fine_label s (WFlushEnd outcomes) =
     list_all (clean_attempt (as_fsync (aw_settings (ws_file_writer (fst s))))) outcomes"

definition fine_step :: "ext \<Rightarrow> writer_io \<Rightarrow> writer_config \<Rightarrow> writer_label \<Rightarrow> writer_config \<Rightarrow> bool" where
  "fine_step X io s l t \<longleftrightarrow> writer_step X io s l t \<and> fine_label s l"

definition config_inv ::
  "ext \<Rightarrow> nat \<Rightarrow> ordered_buffer \<Rightarrow> writer_config \<Rightarrow> log_file list \<Rightarrow> (uintn \<times> bytes) list \<Rightarrow> bool" where
  "config_inv X k b0 s files cur \<longleftrightarrow>
     writer_inv X k (next_id (ob_last_written_id b0)) (fst s) files cur \<and>
     ordered_buffer_submit_all b0 (snd s) = (ws_buffer (fst s), logged files @ cur) \<and>
     next_id (ob_last_written_id (ws_buffer (fst s))) =
       next_id (ob_last_written_id b0) + length (logged files @ cur) \<and>
     list_all good_entry (ob_pending (ws_buffer (fst s)))"

lemma writer_inv_flush:
  assumes "writer_inv X k n st files cur" "ws_running st" "aw_content fw = aw_content (ws_file_writer st)"
    "aw_settings fw = aw_settings (ws_file_writer st)"
    "aw_current_size fw = aw_current_size (ws_file_writer st)"
    "aw_closed fw = aw_closed (ws_file_writer st)"
  shows "writer_inv X k n (st \<lparr> ws_file_writer := fw \<rparr>) files cur"
proof -
  note inv = writer_invD [OF assms(1)]
  have "length (aw_content fw) \<le> 2 ^ 62 + 96" using inv(7) assms(3) by simp
  moreover have "unat (aw_current_size fw) = length (aw_content fw)" using inv(6) assms(3,5) by simp
  moreover have "aw_content fw = wal_file_bytes X (ws_header st) cur" using inv(5) assms(3) by simp
  ultimately show ?thesis
    unfolding writer_inv_def using inv(1-4,8,9,11,12) assms(2,4,6) by simp
qed

lemma writer_close_inv:
  assumes "writer_inv X k n st files cur" "ws_running st" "io_ok io"
  shows "writer_inv X k n (writer_close io st) files cur" "ws_buffer (writer_close io st) = ws_buffer st"
proof -
  note inv = writer_invD [OF assms(1)]
  let ?fw = "ack_writer_close [] [] (ws_file_writer st)"
  have st': "writer_close io st = st \<lparr> ws_file_writer := ?fw, ws_running := False \<rparr>"
    using assms(3) by (simp add: writer_close_def io_ok_def)
  have "length (aw_content ?fw) \<le> 2 ^ 62 + 96" using inv(7) by (simp add: aw_content_close)
  moreover have "unat (aw_current_size ?fw) = length (aw_content ?fw)"
    using inv(6) by (simp add: aw_content_close)
  moreover have "aw_content ?fw = wal_file_bytes X (ws_header st) cur"
    using inv(5) by (simp add: aw_content_close)
  moreover have "aw_file ?fw = aw_content ?fw"
    using aw_file_close [of "ws_file_writer st"] inv(9) assms(2) by (simp add: aw_content_close)
  ultimately show "writer_inv X k n (writer_close io st) files cur"
    unfolding st' writer_inv_def using inv(1-4,8,11,12) by simp
  show "ws_buffer (writer_close io st) = ws_buffer st" by (simp add: st')
qed

text \<open>Every request is handled, and a step only adds files.\<close>

lemma writer_write_batch_single: "writer_write_batch X io st [e] = writer_write X io st e"
proof (cases "writer_write X io st e")
  case (Some p)
  obtain st' r where "p = (st', r)" by fastforce
  with Some show ?thesis by (cases r) simp_all
qed simp

lemma handle_as_batch:
  "req \<noteq> CloseReq \<Longrightarrow>
   writer_handle X io st req = do { (st', _) \<leftarrow> writer_write_batch X io st (request_entries req); Ret st' }"
  by (cases req) (simp_all add: writer_write_batch_single del: writer_write_batch.simps)

lemma writer_handle_ok:
  assumes "ubig_bytes_ok X" "ubig_hex_ok X" "io_ok io" "config_inv X k b0 (st, es) files cur"
    and "ws_running st" "list_all good_entry (request_entries req)"
  obtains st' new cur' where "writer_handle X io st req = Ret st'"
    "config_inv X k b0 (st', es @ request_entries req) (files @ new) cur'"
proof (cases "req = CloseReq")
  case True
  note inv = assms(4) [unfolded config_inv_def fst_conv snd_conv]
  show thesis
    using that [of "writer_close io st" "[]" cur] True inv
      writer_close_inv [OF conjunct1 [OF inv] assms(5,3)]
    by (simp add: config_inv_def)
next
  case False
  from assms(4) have i: "writer_inv X k (next_id (ob_last_written_id b0)) st files cur"
    "ordered_buffer_submit_all b0 es = (ws_buffer st, logged files @ cur)"
    "next_id (ob_last_written_id (ws_buffer st)) =
       next_id (ob_last_written_id b0) + length (logged files @ cur)"
    "list_all good_entry (ob_pending (ws_buffer st))"
    unfolding config_inv_def fst_conv snd_conv by blast+
  obtain st' new cur' r where b:
    "writer_write_batch X io st (request_entries req) = Ret (st', Ok ())"
    "ordered_buffer_submit_all (ws_buffer st) (request_entries req) = (ws_buffer st', r)"
    "writer_inv X k (next_id (ob_last_written_id b0)) st' (files @ new) cur'"
    "logged (files @ new) @ cur' = (logged files @ cur) @ r"
    "next_id (ob_last_written_id (ws_buffer st')) =
       next_id (ob_last_written_id b0) + length (logged (files @ new) @ cur')"
    "list_all good_entry (ob_pending (ws_buffer st'))"
    using writer_write_batch_ok [OF assms(1-3) i(1) assms(5) i(3,4) assms(6)] by (elim exE conjE)
  show thesis
  proof (rule that)
    show "writer_handle X io st req = Ret st'" using handle_as_batch [OF False] b(1) by simp
    show "config_inv X k b0 (st', es @ request_entries req) (files @ new) cur'"
      unfolding config_inv_def fst_conv snd_conv
      using b(3,5,6) submit_all_append [OF i(2) b(2)] b(4) by metis
  qed
qed

lemma fine_step_inv:
  assumes "ubig_bytes_ok X" "ubig_hex_ok X" "io_ok io" "config_inv X k b0 s files cur"
    and "fine_step X io s l t"
  shows "\<exists>new cur'. config_inv X k b0 t (files @ new) cur'"
proof -
  from assms(5) have "writer_step X io s l t" "fine_label s l" by (auto simp: fine_step_def)
  from this(1) show ?thesis
  proof cases
    case (writer_step_request st req st' es)
    with assms(4) \<open>fine_label s l\<close>
    obtain u new cur' where "writer_handle X io st req = Ret u"
      "config_inv X k b0 (u, es @ request_entries req) (files @ new) cur'"
      by (auto intro: writer_handle_ok [OF assms(1-3), of k b0 st es files cur req])
    with writer_step_request show ?thesis by auto
  next
    case (writer_step_begin st es)
    then have "config_inv X k b0 t (files @ []) cur"
      using assms(4) writer_inv_flush [OF _ writer_step_begin(4), of X k _ files cur]
      by (simp add: config_inv_def aw_content_begin)
    then show ?thesis by blast
  next
    case (writer_step_end st es outcomes)
    then have "config_inv X k b0 t (files @ []) cur"
      using assms(4) \<open>fine_label s l\<close> writer_inv_flush [OF _ writer_step_end(4), of X k _ files cur]
      by (simp add: config_inv_def aw_content_end)
    then show ?thesis by blast
  qed
qed

text \<open>The start of a writer, and what an observer sees: the completed files and their bytes.\<close>

definition good_start :: "ext \<Rightarrow> writer_io \<Rightarrow> wal_header \<Rightarrow> wal_settings \<Rightarrow> uintn option \<Rightarrow> bool" where
  "good_start X io h settings last_id \<longleftrightarrow>
     ubig_bytes_ok X \<and> ubig_hex_ok X \<and> io_ok io \<and> wal_header_readable X h \<and>
     uintn_size_in_bytes X (wh_num_entries_before h) \<le> 16 \<and>
     uval (wh_num_entries_before h) = next_id last_id \<and> wset_max_file_size settings < 2 ^ 62"

definition completed_files :: "ext \<Rightarrow> writer_config \<Rightarrow> (uintn \<times> bytes option) list" where
  "completed_files X s =
     map (\<lambda>f. (f, ws_disk (fst s) (uintn_to_file_path X f (ws_queue_path (fst s)) ''wal'')))
       (map wf_file_id (ws_completed (fst s)))"

lemma completed_files_eq:
  assumes "writer_inv X k n (fst s) files cur"
  shows "completed_files X s = map (\<lambda>(f, h, es). (f, Some (wal_file_bytes X h es))) files"
  using writer_invD(12) [OF assms]
  by (auto simp: completed_files_def writer_invD(11) [OF assms] list_all_iff)

lemma writer_start_inv:
  assumes "good_start X io h settings last_id"
    and "wal_writer_new X io disk q root f h settings last_id = Ok st"
  shows "config_inv X (uval f) (ordered_buffer_new last_id q) (st, []) [] []" "ws_running st"
proof -
  note g = assms(1) [unfolded good_start_def]
  have ok: "ubig_bytes_ok X" "io_ok io" using g by blast+
  have len: "length (wal_header_enc X h) \<le> 48" using g by (simp add: length_wal_header_enc)
  have st: "ws_buffer st = ordered_buffer_new last_id q"
    "ws_file_id st = f" "ws_header st = h" "ws_settings st = settings" "ws_completed st = []"
    "ws_file_writer st = ack_writer_new
       \<lparr> as_max_buffer_size = wset_write_buffer_size settings,
         as_max_file_size = of_nat (wset_max_file_size settings),
         as_fsync = wset_enable_fsync settings \<rparr> (wal_header_enc X h)"
    "\<not> ws_has_written st" "ws_running st"
    "ws_path st = uintn_to_file_path X f (ws_queue_path st) ''wal''"
    using assms(2) by (auto simp: wal_writer_new_def new_file_writer_ok [OF ok] Let_def)
  show "ws_running st" by (rule st)
  have "writer_inv X (uval f) (next_id last_id) st [] []"
    unfolding writer_inv_def using st g len by (simp add: wal_file_bytes_def unat_of_nat_word)
  then show "config_inv X (uval f) (ordered_buffer_new last_id q) (st, []) [] []"
    using st by (simp add: config_inv_def ordered_buffer_new_def)
qed

interpretation writer_system:
  measured_system
    "\<lambda>s. good_start X io h settings last_id \<and> snd s = [] \<and>
         wal_writer_new X io disk q root f h settings last_id = Ok (fst s)"
    "fine_step X io"
    "\<lambda>s. good_start X io h settings last_id \<and>
         (\<exists>files cur. config_inv X (uval f) (ordered_buffer_new last_id q) s files cur)"
    "completed_files X" for X io disk q root f h settings last_id
proof unfold_locales
  fix s l t
  assume inv: "good_start X io h settings last_id \<and>
      (\<exists>files cur. config_inv X (uval f) (ordered_buffer_new last_id q) s files cur)"
    and step: "fine_step X io s l t"
  then obtain files cur new cur' where c:
    "config_inv X (uval f) (ordered_buffer_new last_id q) s files cur"
    "config_inv X (uval f) (ordered_buffer_new last_id q) t (files @ new) cur'"
    using fine_step_inv unfolding good_start_def by metis
  then show "good_start X io h settings last_id \<and>
      (\<exists>files cur. config_inv X (uval f) (ordered_buffer_new last_id q) t files cur)"
    using inv by blast
  show "\<exists>new. completed_files X t = completed_files X s @ new"
    using c completed_files_eq [of X _ _ s files cur] completed_files_eq [of X _ _ t "files @ new" cur']
    by (auto simp: config_inv_def)
next
  fix s :: writer_config
  assume "good_start X io h settings last_id \<and> snd s = [] \<and>
    wal_writer_new X io disk q root f h settings last_id = Ok (fst s)"
  then show "good_start X io h settings last_id \<and>
      (\<exists>files cur. config_inv X (uval f) (ordered_buffer_new last_id q) s files cur)"
    using writer_start_inv(1) by (metis prod.collapse)
qed

primrec label_entries :: "writer_label \<Rightarrow> (uintn \<times> bytes) list" where
  "label_entries (Request req) = request_entries req"
| "label_entries WFlushBegin = []"
| "label_entries (WFlushEnd _) = []"

lemma fine_step_ghost: "steps (fine_step X io) s ls t \<Longrightarrow> snd t = snd s @ concat (map label_entries ls)"
proof (induction rule: steps.induct)
  case (steps_Cons s l t ls u)
  from steps_Cons.hyps(1) have "writer_step X io s l t" by (simp add: fine_step_def)
  then have "snd t = snd s @ label_entries l" by cases simp_all
  then show ?case using steps_Cons.IH by simp
qed simp

lemma writer_run_inv:
  assumes "good_start X io h settings last_id"
    and "wal_writer_new X io disk q root f h settings last_id = Ok st0"
    and "steps (fine_step X io) (st0, []) ls (st, es)"
  obtains files cur where
    "config_inv X (uval f) (ordered_buffer_new last_id q) (st, concat (map label_entries ls)) files cur"
  using writer_system.inv_steps [OF assms(3), of h settings last_id f q]
    writer_start_inv(1) [OF assms(1,2)] fine_step_ghost [OF assms(3)] assms(1) by auto

section \<open>Properties\<close>

text \<open>
  C6. The files the writer leaves behind are exactly the entries in order. Whatever
  requests arrive and however the flush task interleaves with them, the completed files and
  the current one form a chain: consecutive file identifiers from the first file on, consecutive
  entry identifiers across the files from the next identifier on, headers that count the entries before
  them and are wide enough, every completed file on disk byte for byte, and the current one
  once it is closed. The entries in the chain are what the reordering buffer released of the
  requested entries.
\<close>

theorem wal_writer_files:
  assumes "good_start X io h settings last_id"
    and "wal_writer_new X io disk q root f h settings last_id = Ok st0"
    and "steps (fine_step X io) (st0, []) ls (st, es)"
  shows "\<exists>files cur.
    wal_chain X (uval f) (next_id last_id) (files @ [(ws_file_id st, ws_header st, cur)]) \<and>
    logged files @ cur =
      snd (ordered_buffer_submit_all (ordered_buffer_new last_id q) (concat (map label_entries ls))) \<and>
    map wf_file_id (ws_completed st) = map fst files \<and>
    list_all (on_disk X (ws_queue_path st) (ws_disk st)) files \<and>
    aw_file (ack_writer_close [] [] (ws_file_writer st)) = wal_file_bytes X (ws_header st) cur"
proof (rule writer_run_inv [OF assms])
  fix files cur
  assume c: "config_inv X (uval f) (ordered_buffer_new last_id q) (st, concat (map label_entries ls)) files cur"
  then have inv: "writer_inv X (uval f) (next_id last_id) st files cur"
    by (simp add: config_inv_def ordered_buffer_new_def)
  have "aw_file (ack_writer_close [] [] (ws_file_writer st)) = wal_file_bytes X (ws_header st) cur"
    using aw_file_close [of "ws_file_writer st"] writer_invD(5,10) [OF inv]
    by (cases "aw_closed (ws_file_writer st)") (simp_all add: ack_writer_close_def)
  then show ?thesis
    using c writer_invD(1,11,12) [OF inv] by (intro exI [of _ files] exI [of _ cur]) (simp add: config_inv_def)
qed

definition sample_io :: writer_io where
  "sample_io = \<lparr> wio_create = (\<lambda>_. Ok ()), wio_close = (\<lambda>_. ([], [])) \<rparr>"

definition sample_start :: "(writer_state, wal_error) result" where
  "sample_start = wal_writer_new ext_ref sample_io Map.empty \<lparr> qid_path = ''/q'' \<rparr> ''/data'' (U8 0)
     wal_header_default wal_settings_default None"

lemma sample_good_start: "good_start ext_ref sample_io wal_header_default wal_settings_default None"
  using default_header_readable
  by (simp add: good_start_def sample_io_def io_ok_def wal_header_default_def wal_settings_default_def
      uintn_zero_def)

lemma sample_start_Ok: "\<exists>st. sample_start = Ok st"
  by (simp add: sample_start_def wal_writer_new_def new_file_writer_def sample_io_def Let_def
      split: prod.splits)

lemma sample_run:
  obtains st0 st where "sample_start = Ok st0" "ws_running st0"
    "steps (fine_step ext_ref sample_io) (st0, []) [Request (EnqueueReq (U8 0) [1])] (st, [(U8 0, [1])])"
proof -
  obtain st0 where st0: "sample_start = Ok st0" using sample_start_Ok by blast
  note start = writer_start_inv [OF sample_good_start st0 [unfolded sample_start_def]]
  have good: "list_all good_entry (request_entries (EnqueueReq (U8 0) [1]))"
    by (simp add: good_entry_def canonical_def)
  have ok: "ubig_bytes_ok ext_ref" "ubig_hex_ok ext_ref" "io_ok sample_io"
    by (simp_all add: sample_io_def io_ok_def)
  obtain st where st: "writer_handle ext_ref sample_io st0 (EnqueueReq (U8 0) [1]) = Ret st"
    by (rule writer_handle_ok [OF ok start good])
  from writer_step_request [OF start(2) st, of "[]"] good
  have "fine_step ext_ref sample_io (st0, []) (Request (EnqueueReq (U8 0) [1])) (st, [(U8 0, [1])])"
    by (simp add: fine_step_def)
  then show thesis using that [OF st0 start(2)] by simp
qed

theorem wal_writer_files_witness:
  "\<exists>st0 st files cur. sample_start = Ok st0 \<and>
     steps (fine_step ext_ref sample_io) (st0, []) [Request (EnqueueReq (U8 0) [1])] (st, [(U8 0, [1])]) \<and>
     logged files @ cur = [(U8 0, [1])] \<and>
     aw_file (ack_writer_close [] [] (ws_file_writer st)) = wal_file_bytes ext_ref (ws_header st) cur"
proof (rule sample_run)
  fix st0 st
  assume s: "sample_start = Ok st0" "ws_running st0"
    "steps (fine_step ext_ref sample_io) (st0, []) [Request (EnqueueReq (U8 0) [1])] (st, [(U8 0, [1])])"
  have "snd (ordered_buffer_submit_all (ordered_buffer_new None \<lparr> qid_path = ''/q'' \<rparr>)
      (concat (map label_entries [Request (EnqueueReq (U8 0) [1])]))) = [(U8 0, [1])]"
    by (simp add: ordered_buffer_new_def ordered_buffer_submit_def ordered_buffer_can_write_def
        ordered_buffer_check_can_write_def follows_iff)
  with wal_writer_files [OF sample_good_start s(1) [unfolded sample_start_def] s(3)] s
  show ?thesis by fastforce
qed






definition full_state :: writer_state where
  "full_state =
     \<lparr> ws_queue_path = ''/data/q/wal'', ws_queue_id = \<lparr> qid_path = ''/q'' \<rparr>, ws_file_id = U8 0,
       ws_header = wal_header_default, ws_settings = wal_settings_default, ws_acked = [],
       ws_completed = [],
       ws_file_writer = ack_writer_new
         \<lparr> as_max_buffer_size = 10, as_max_file_size = 3, as_fsync = True \<rparr> [1, 2, 3],
       ws_has_written = True, ws_buffer = ordered_buffer_new (Some (U8 4)) \<lparr> qid_path = ''/q'' \<rparr>,
       ws_running = True, ws_path = ''/data/q/wal/000.wal'', ws_disk = Map.empty \<rparr>"


end
