(* ===== verification/Store_Format.thy ===== *)
theory Store_Format
  imports Crypto Wal_Writer
begin

text \<open>
  The format of a store file (\<open>normfs-store/src/header.rs\<close>, \<open>parser.rs\<close>, and \<open>extract_wal_bytes\<close> of
  \<open>lib.rs\<close>): an authentication block with two signatures, the store header, and the bytes of a WAL file,
  compressed and encrypted as the header says. \<open>maybe_compress_and_encrypt\<close> and the layout written by
  \<open>write_store_file\<close> (\<open>writer.rs\<close>) are here too, so that reading undoes writing
  is a theorem of this theory.

  The compressors (\<open>compression.rs\<close> calls third-party crates) are the fields of \<open>compress_ext\<close>; \<open>zstd_ok\<close>
  is the law that decompression undoes compression.
\<close>

section \<open>Compression\<close>

record compress_ext =
  zstd_compress :: "bytes \<Rightarrow> (bytes, string) result"
  zstd_decompress :: "bytes \<Rightarrow> (bytes, string) result"
  xz_decompress :: "bytes \<Rightarrow> (bytes, string) result"

definition zstd_ok :: "compress_ext \<Rightarrow> bool" where
  "zstd_ok Z \<longleftrightarrow> (\<forall>data c. zstd_compress Z data = Ok c \<longrightarrow> zstd_decompress Z c = Ok data)"

definition compress_ref :: compress_ext where
  "compress_ref = \<lparr>
     zstd_compress = (\<lambda>data. Ok (40 # data)),
     zstd_decompress = (\<lambda>c. case c of [] \<Rightarrow> Err ''empty'' | b # data \<Rightarrow> if b = 40 then Ok data else Err ''magic''),
     xz_decompress = (\<lambda>c. Err ''unsupported'') \<rparr>"

lemma compress_ref_ok [simp]: "zstd_ok compress_ref"
  by (auto simp: zstd_ok_def compress_ref_def)

section \<open>Tags\<close>

datatype store_header_error =
    StoreHeader_SliceTooShort
  | StoreHeader_UintN uintn_error
  | UnsupportedVersion u64
  | UnsupportedCompression u64
  | UnsupportedEncryption u64
  | UnsupportedSignature u64

datatype store_header_version = StoreV0

definition store_header_version_try_from :: "u64 \<Rightarrow> (store_header_version, store_header_error) result" where
  "store_header_version_try_from value = (if value = 0 then Ok StoreV0 else Err (UnsupportedVersion value))"

primrec store_header_version_to_u64 :: "store_header_version \<Rightarrow> u64" where
  "store_header_version_to_u64 StoreV0 = 0"

definition compression_type_from_u64 :: "u64 \<Rightarrow> (compression_type, store_header_error) result" where
  "compression_type_from_u64 value =
     map_err (\<lambda>_. UnsupportedCompression value) (compression_type_try_from value)"

definition encryption_type_from_u64 :: "u64 \<Rightarrow> (encryption_type, store_header_error) result" where
  "encryption_type_from_u64 value =
     map_err (\<lambda>_. UnsupportedEncryption value) (encryption_type_try_from value)"

datatype signature_type = Ed25519

definition signature_type_try_from :: "u64 \<Rightarrow> (signature_type, store_header_error) result" where
  "signature_type_try_from value = (if value = 0 then Ok Ed25519 else Err (UnsupportedSignature value))"

primrec signature_type_to_u64 :: "signature_type \<Rightarrow> u64" where
  "signature_type_to_u64 Ed25519 = 0"

datatype file_auth_version = AuthV0

definition file_auth_version_try_from :: "u64 \<Rightarrow> (file_auth_version, store_header_error) result" where
  "file_auth_version_try_from value = (if value = 0 then Ok AuthV0 else Err (UnsupportedVersion value))"

primrec file_auth_version_to_u64 :: "file_auth_version \<Rightarrow> u64" where
  "file_auth_version_to_u64 AuthV0 = 0"

section \<open>Authentication block\<close>

record file_authentication =
  fa_version :: file_auth_version
  fa_header_signature_type :: signature_type
  fa_header_signature :: bytes
  fa_content_signature_type :: signature_type
  fa_content_signature :: bytes

definition file_authentication_new :: "bytes \<Rightarrow> bytes \<Rightarrow> file_authentication" where
  "file_authentication_new header_signature content_signature =
     \<lparr> fa_version = AuthV0, fa_header_signature_type = Ed25519, fa_header_signature = header_signature,
       fa_content_signature_type = Ed25519, fa_content_signature = content_signature \<rparr>"

definition file_authentication_from_bytes ::
  "bytes \<Rightarrow> (file_authentication \<times> usize, store_header_error) result" where
  "file_authentication_from_bytes data =
     (if length data < 152 then Err StoreHeader_SliceTooShort
      else case file_auth_version_try_from (u64_from_le_bytes (take 8 data)) of
        Err e \<Rightarrow> Err e
      | Ok version \<Rightarrow>
          (case signature_type_try_from (u64_from_le_bytes (take 8 (drop 8 data))) of
             Err e \<Rightarrow> Err e
           | Ok header_signature_type \<Rightarrow>
               let header_signature = take 64 (drop 16 data) in
               (case signature_type_try_from (u64_from_le_bytes (take 8 (drop 80 data))) of
                  Err e \<Rightarrow> Err e
                | Ok content_signature_type \<Rightarrow>
                    let content_signature = take 64 (drop 88 data) in
                    Ok (\<lparr> fa_version = version, fa_header_signature_type = header_signature_type,
                          fa_header_signature = header_signature,
                          fa_content_signature_type = content_signature_type,
                          fa_content_signature = content_signature \<rparr>, 152))))"

definition file_authentication_write_to_bytes :: "file_authentication \<Rightarrow> bytes \<Rightarrow> bytes \<times> usize" where
  "file_authentication_write_to_bytes self dest =
     (let dest = dest @ u64_to_le_bytes (file_auth_version_to_u64 (fa_version self));
          dest = dest @ u64_to_le_bytes (signature_type_to_u64 (fa_header_signature_type self));
          dest = dest @ fa_header_signature self;
          dest = dest @ u64_to_le_bytes (signature_type_to_u64 (fa_content_signature_type self));
          dest = dest @ fa_content_signature self
      in (dest, 152))"

definition file_authentication_size :: "file_authentication \<Rightarrow> usize" where
  "file_authentication_size self = 152"

section \<open>Store header\<close>

record store_header =
  sh_version :: store_header_version
  sh_compression :: compression_type
  sh_encryption :: encryption_type
  sh_num_entries_before :: uintn
  sh_num_entries :: uintn

definition store_header_new ::
  "compression_type \<Rightarrow> encryption_type \<Rightarrow> uintn \<Rightarrow> uintn \<Rightarrow> store_header" where
  "store_header_new compression encryption num_entries_before num_entries =
     \<lparr> sh_version = StoreV0, sh_compression = compression, sh_encryption = encryption,
       sh_num_entries_before = num_entries_before, sh_num_entries = num_entries \<rparr>"

definition store_header_from_bytes ::
  "ext \<Rightarrow> bytes \<Rightarrow> (store_header \<times> usize, store_header_error) result run" where
  "store_header_from_bytes X data =
     (if length data < 24 then Ret (Err StoreHeader_SliceTooShort)
      else case store_header_version_try_from (u64_from_le_bytes (take 8 data)) of
        Err e \<Rightarrow> Ret (Err e)
      | Ok version \<Rightarrow>
          (case compression_type_from_u64 (u64_from_le_bytes (take 8 (drop 8 data))) of
             Err e \<Rightarrow> Ret (Err e)
           | Ok compression \<Rightarrow>
               (case encryption_type_from_u64 (u64_from_le_bytes (take 8 (drop 16 data))) of
                  Err e \<Rightarrow> Ret (Err e)
                | Ok encryption \<Rightarrow> do {
                    r \<leftarrow> uintn_read_from_slice X (drop 24 data);
                    (case r of
                       Err e \<Rightarrow> Ret (Err (StoreHeader_UintN e))
                     | Ok (num_entries_before, bytes_read_before) \<Rightarrow> do {
                         let offset = 24 + bytes_read_before;
                         r \<leftarrow> uintn_read_from_slice X (drop offset data);
                         Ret (case r of
                              Err e \<Rightarrow> Err (StoreHeader_UintN e)
                            | Ok (num_entries, bytes_read_after) \<Rightarrow>
                                Ok (\<lparr> sh_version = version, sh_compression = compression,
                                      sh_encryption = encryption,
                                      sh_num_entries_before = num_entries_before,
                                      sh_num_entries = num_entries \<rparr>,
                                    offset + bytes_read_after)) }) })))"

definition store_header_size :: "ext \<Rightarrow> store_header \<Rightarrow> usize" where
  "store_header_size X self =
     8 + 8 + 8 + (8 + uintn_size_in_bytes X (sh_num_entries_before self)) +
     (8 + uintn_size_in_bytes X (sh_num_entries self))"

definition store_header_write_to_bytes :: "ext \<Rightarrow> store_header \<Rightarrow> bytes \<Rightarrow> bytes \<times> usize" where
  "store_header_write_to_bytes X self dest =
     (let dest = dest @ u64_to_le_bytes (store_header_version_to_u64 (sh_version self));
          dest = dest @ u64_to_le_bytes (compression_type_to_u64 (sh_compression self));
          dest = dest @ u64_to_le_bytes (encryption_type_to_u64 (sh_encryption self));
          (dest, _) = uintn_write_to_buffer X (sh_num_entries_before self) dest;
          (dest, _) = uintn_write_to_buffer X (sh_num_entries self) dest
      in (dest, store_header_size X self))"

definition store_header_is_encrypted :: "store_header \<Rightarrow> bool" where
  "store_header_is_encrypted self \<longleftrightarrow> sh_encryption self \<noteq> NoEncryption"

definition store_header_is_compressed :: "store_header \<Rightarrow> bool" where
  "store_header_is_compressed self \<longleftrightarrow> sh_compression self \<noteq> NoCompression"

section \<open>The formats as codecs\<close>

definition file_authentication_enc :: "file_authentication \<Rightarrow> bytes" where
  "file_authentication_enc fa = fst (file_authentication_write_to_bytes fa [])"

definition file_authentication_ok :: "file_authentication \<Rightarrow> bool" where
  "file_authentication_ok fa \<longleftrightarrow> length (fa_header_signature fa) = 64 \<and> length (fa_content_signature fa) = 64"

lemma file_authentication_enc_eq:
  "file_authentication_enc fa = u64_to_le_bytes 0 @ u64_to_le_bytes 0 @ fa_header_signature fa @
     u64_to_le_bytes 0 @ fa_content_signature fa"
  by (cases "fa_version fa"; cases "fa_header_signature_type fa"; cases "fa_content_signature_type fa")
     (simp add: file_authentication_enc_def file_authentication_write_to_bytes_def Let_def)

lemma length_file_authentication_enc [simp]:
  "file_authentication_ok fa \<Longrightarrow> length (file_authentication_enc fa) = 152"
  by (simp add: file_authentication_enc_eq file_authentication_ok_def)

lemma file_authentication_from_bytes_enc:
  assumes "file_authentication_ok fa"
  shows "file_authentication_from_bytes (file_authentication_enc fa @ rest) = Ok (fa, 152)"
proof -
  have "fa = \<lparr> fa_version = AuthV0, fa_header_signature_type = Ed25519,
      fa_header_signature = fa_header_signature fa, fa_content_signature_type = Ed25519,
      fa_content_signature = fa_content_signature fa \<rparr>"
    by (cases fa; cases "fa_version fa"; cases "fa_header_signature_type fa"; cases "fa_content_signature_type fa")
       simp
  then show ?thesis using assms
    by (simp add: file_authentication_from_bytes_def file_authentication_enc_eq file_authentication_ok_def
        file_auth_version_try_from_def signature_type_try_from_def Let_def)
qed

text \<open>The parser of the block as a computation that never panics.\<close>

definition file_authentication_dec ::
  "bytes \<Rightarrow> (file_authentication \<times> nat, store_header_error) result run" where
  "file_authentication_dec data = Ret (file_authentication_from_bytes data)"

interpretation file_authentication_codec:
  byte_codec file_authentication_enc file_authentication_dec file_authentication_ok
  by unfold_locales (simp add: file_authentication_dec_def file_authentication_from_bytes_enc)

definition store_header_enc :: "ext \<Rightarrow> store_header \<Rightarrow> bytes" where
  "store_header_enc X h = fst (store_header_write_to_bytes X h [])"

definition store_header_ok :: "ext \<Rightarrow> store_header \<Rightarrow> bool" where
  "store_header_ok X h \<longleftrightarrow>
     uintn_encodable X (sh_num_entries_before h) \<and> uintn_encodable X (sh_num_entries h)"

lemma store_header_enc_eq:
  assumes "ubig_bytes_ok X"
  shows "store_header_enc X h =
    u64_to_le_bytes 0 @ u64_to_le_bytes (compression_type_to_u64 (sh_compression h)) @
    u64_to_le_bytes (encryption_type_to_u64 (sh_encryption h)) @
    uintn_enc X (sh_num_entries_before h) @ uintn_enc X (sh_num_entries h)"
  by (cases "sh_version h")
     (simp add: store_header_enc_def store_header_write_to_bytes_def uintn_write_to_buffer_eq [OF assms])

lemma store_header_write_eq:
  assumes "ubig_bytes_ok X"
  shows "store_header_write_to_bytes X h dest = (dest @ store_header_enc X h, length (store_header_enc X h))"
  by (cases "sh_version h")
     (simp add: store_header_enc_eq [OF assms] store_header_write_to_bytes_def store_header_size_def
      uintn_write_to_buffer_eq [OF assms] uintn_enc_eq assms Let_def)

lemma store_header_from_bytes_enc:
  assumes "ubig_bytes_ok X" "store_header_ok X h"
  shows "store_header_from_bytes X (store_header_enc X h @ rest) = Ret (Ok (h, length (store_header_enc X h)))"
proof -
  have h: "\<lparr> sh_version = StoreV0, sh_compression = sh_compression h, sh_encryption = sh_encryption h,
      sh_num_entries_before = sh_num_entries_before h, sh_num_entries = sh_num_entries h \<rparr> = h"
    by (cases h; cases "sh_version h") simp
  have "uintn_read_from_slice X (uintn_enc X (sh_num_entries_before h) @ uintn_enc X (sh_num_entries h) @ rest) =
      Ret (Ok (sh_num_entries_before h, length (uintn_enc X (sh_num_entries_before h))))"
    "uintn_read_from_slice X (uintn_enc X (sh_num_entries h) @ rest) =
      Ret (Ok (sh_num_entries h, length (uintn_enc X (sh_num_entries h))))"
    using assms by (simp_all add: uintn_read_enc store_header_ok_def)
  then show ?thesis
    by (simp add: store_header_from_bytes_def store_header_enc_eq [OF assms(1)] h
        store_header_version_try_from_def compression_type_from_u64_def encryption_type_from_u64_def Let_def)
qed

interpretation store_header_codec:
  byte_codec "store_header_enc X" "store_header_from_bytes X"
    "\<lambda>h. ubig_bytes_ok X \<and> store_header_ok X h" for X
  by unfold_locales (simp add: store_header_from_bytes_enc)

text \<open>What the parser accepts lies within the data, so the slices at the returned length cannot panic.\<close>

lemma uintn_read_from_slice_bound:
  "uintn_read_from_slice X data = Some (Ok (u, n)) \<Longrightarrow> n \<le> length data"
  by (auto simp: uintn_read_from_slice_def usize_add_def Let_def
      split: if_splits result.splits bind_splits)

lemma store_header_from_bytes_bound:
  assumes "store_header_from_bytes X data = Some (Ok (h, n))"
  shows "n \<le> length data"
  using assms
  by (auto simp: store_header_from_bytes_def Let_def
      split: if_splits result.splits bind_splits dest!: uintn_read_from_slice_bound)

section \<open>Reading a store file\<close>

datatype range_store_error =
    Range_Io string
  | Range_Header store_header_error
  | Range_Path path_error
  | Range_UintN uintn_error
  | Range_FileNotFound
  | Range_SignatureVerificationFailed

datatype store_error =
    Store_Io string
  | Store_Header store_header_error
  | Store_Decrypt
  | Store_Wal wal_error
  | Store_UintN uintn_error
  | Store_Range range_store_error
  | Store_Path path_error
  | Store_WalHeaderError wal_header_error
  | Store_FileNotFound
  | SignatureVerificationFailed

record store_ext =
  se_ext :: ext
  se_crypto :: crypto_ext
  se_compress :: compress_ext

definition verify_file ::
  "store_ext \<Rightarrow> crypto_context \<Rightarrow> file_authentication \<Rightarrow> bytes \<Rightarrow> bytes \<Rightarrow> (unit, store_error) result" where
  "verify_file S ctx file_auth header_bytes encrypted_content =
     (case crypto_verify (se_crypto S) ctx header_bytes (fa_header_signature file_auth) of
        Err _ \<Rightarrow> Err SignatureVerificationFailed
      | Ok _ \<Rightarrow>
          map_err (\<lambda>_. SignatureVerificationFailed)
            (crypto_verify (se_crypto S) ctx encrypted_content (fa_content_signature file_auth)))"

definition decrypt_content ::
  "store_ext \<Rightarrow> crypto_context \<Rightarrow> queue_id \<Rightarrow> uintn \<Rightarrow> store_header \<Rightarrow> bytes \<Rightarrow> (bytes, store_error) result" where
  "decrypt_content S ctx q file_id h encrypted_content =
     (if store_header_is_encrypted h then
        if length encrypted_content < 12 then Err Store_Decrypt
        else
          let nonce = take 12 encrypted_content;
              ciphertext = drop 12 encrypted_content
          in map_err (\<lambda>_. Store_Decrypt)
               (crypto_decrypt (se_ext S) (se_crypto S) ctx q file_id nonce ciphertext)
      else Ok encrypted_content)"

definition decompress_content ::
  "store_ext \<Rightarrow> store_header \<Rightarrow> bytes \<Rightarrow> (bytes, store_error) result" where
  "decompress_content S h wal_content_bytes =
     (if store_header_is_compressed h then
        (case sh_compression h of
           Gzip \<Rightarrow> map_err Store_Io (zstd_decompress (se_compress S) wal_content_bytes)
         | Xz \<Rightarrow> map_err Store_Io (xz_decompress (se_compress S) wal_content_bytes)
         | Zstd \<Rightarrow> map_err Store_Io (zstd_decompress (se_compress S) wal_content_bytes)
         | NoCompression \<Rightarrow> Ok wal_content_bytes)
      else Ok wal_content_bytes)"

definition extract_wal_bytes ::
  "store_ext \<Rightarrow> crypto_context \<Rightarrow> queue_id \<Rightarrow> uintn \<Rightarrow> bytes \<Rightarrow> bool \<Rightarrow> (bytes, store_error) result run" where
  "extract_wal_bytes S ctx q file_id content verify_signatures =
     (case file_authentication_from_bytes content of
        Err e \<Rightarrow> Ret (Err (Store_Header e))
      | Ok (file_auth, auth_size) \<Rightarrow> do {
          let content_after_auth = drop auth_size content;
          r \<leftarrow> store_header_from_bytes (se_ext S) content_after_auth;
          Ret (case r of
              Err e \<Rightarrow> Err (Store_Header e)
            | Ok (h, header_size) \<Rightarrow>
                let header_bytes = take header_size content_after_auth;
                    encrypted_content = drop header_size content_after_auth
                in case (if verify_signatures then verify_file S ctx file_auth header_bytes encrypted_content
                         else Ok ()) of
                     Err e \<Rightarrow> Err e
                   | Ok _ \<Rightarrow>
                       (case decrypt_content S ctx q file_id h encrypted_content of
                          Err e \<Rightarrow> Err e
                        | Ok wal_content_bytes \<Rightarrow> decompress_content S h wal_content_bytes)) })"

text \<open>
  \<open>extract_wal_header\<close> of \<open>parser.rs\<close> repeats the steps of \<open>extract_wal_bytes\<close> on a function of its own
  and parses the WAL header of the result.
\<close>

definition extract_wal_header ::
  "store_ext \<Rightarrow> bytes \<Rightarrow> crypto_context \<Rightarrow> queue_id \<Rightarrow> uintn \<Rightarrow> bool \<Rightarrow> (wal_header, store_error) result run" where
  "extract_wal_header S store_file_bytes ctx q file_id verify_signatures =
     (case file_authentication_from_bytes store_file_bytes of
        Err e \<Rightarrow> Ret (Err (Store_Header e))
      | Ok (file_auth, auth_size) \<Rightarrow> do {
          let content_after_auth = drop auth_size store_file_bytes;
          r \<leftarrow> store_header_from_bytes (se_ext S) content_after_auth;
          (case r of
              Err e \<Rightarrow> Ret (Err (Store_Header e))
            | Ok (h, header_size) \<Rightarrow>
                let header_bytes = take header_size content_after_auth;
                    content_bytes = drop header_size content_after_auth
                in case (if verify_signatures then verify_file S ctx file_auth header_bytes content_bytes
                         else Ok ()) of
                     Err e \<Rightarrow> Ret (Err e)
                   | Ok _ \<Rightarrow>
                       (case decrypt_content S ctx q file_id h content_bytes of
                          Err e \<Rightarrow> Ret (Err e)
                        | Ok wal_content_bytes \<Rightarrow>
                            (case decompress_content S h wal_content_bytes of
                               Err e \<Rightarrow> Ret (Err e)
                             | Ok wal_content_bytes \<Rightarrow> do {
                                 r \<leftarrow> get_wal_header (se_ext S) wal_content_bytes;
                                 Ret (map_err Store_WalHeaderError r) }))) })"

section \<open>Writing a store file\<close>

definition maybe_compress_and_encrypt ::
  "store_ext \<Rightarrow> crypto_context \<Rightarrow> bytes \<Rightarrow> wal_file \<Rightarrow> (bytes, string) result" where
  "maybe_compress_and_encrypt S ctx data wal_file =
     (case (if wf_compression_type wal_file \<noteq> NoCompression then
              (case wf_compression_type wal_file of
                 Zstd \<Rightarrow> zstd_compress (se_compress S) data
               | NoCompression \<Rightarrow> Ok data
               | _ \<Rightarrow> Err ''Unsupported compression type'')
            else Ok data) of
        Err e \<Rightarrow> Err e
      | Ok data_to_process \<Rightarrow>
          if wf_encryption_type wal_file \<noteq> NoEncryption then
            (case crypto_encrypt (se_ext S) (se_crypto S) ctx (wf_queue_id wal_file) (wf_file_id wal_file)
                    data_to_process of
               Err _ \<Rightarrow> Err ''encryption''
             | Ok (nonce, ciphertext) \<Rightarrow> Ok (nonce @ ciphertext))
          else Ok data_to_process)"

definition store_file_header :: "wal_file \<Rightarrow> wal_content \<Rightarrow> store_header" where
  "store_file_header wal_file wal_data =
     store_header_new (wf_compression_type wal_file) (wf_encryption_type wal_file)
       (wc_entries_before wal_data) (wc_num_entries wal_data)"

definition store_file_auth ::
  "store_ext \<Rightarrow> crypto_context \<Rightarrow> wal_file \<Rightarrow> wal_content \<Rightarrow> bytes \<Rightarrow> file_authentication" where
  "store_file_auth S ctx wal_file wal_data data =
     (let (header_bytes, _) = store_header_write_to_bytes (se_ext S) (store_file_header wal_file wal_data) [];
          header_signature = crypto_sign (se_crypto S) ctx header_bytes;
          content_signature = crypto_sign (se_crypto S) ctx data
      in file_authentication_new header_signature content_signature)"

definition store_file_bytes :: "store_ext \<Rightarrow> crypto_context \<Rightarrow> wal_file \<Rightarrow> wal_content \<Rightarrow> bytes \<Rightarrow> bytes" where
  "store_file_bytes S ctx wal_file wal_data data =
     fst (file_authentication_write_to_bytes (store_file_auth S ctx wal_file wal_data data) []) @
     fst (store_header_write_to_bytes (se_ext S) (store_file_header wal_file wal_data) []) @ data"

section \<open>Reading undoes writing\<close>

definition store_ext_ok :: "store_ext \<Rightarrow> bool" where
  "store_ext_ok S \<longleftrightarrow> ubig_bytes_ok (se_ext S) \<and> cipher_ok (se_crypto S) \<and> signature_ok (se_crypto S) \<and>
     zstd_ok (se_compress S)"

definition wal_content_ok :: "ext \<Rightarrow> wal_content \<Rightarrow> bool" where
  "wal_content_ok X c \<longleftrightarrow> uintn_encodable X (wc_entries_before c) \<and> uintn_encodable X (wc_num_entries c)"

lemma store_file_header_sel [simp]:
  "sh_compression (store_file_header w c) = wf_compression_type w"
  "sh_encryption (store_file_header w c) = wf_encryption_type w"
  "sh_num_entries_before (store_file_header w c) = wc_entries_before c"
  "sh_num_entries (store_file_header w c) = wc_num_entries c"
  by (simp_all add: store_file_header_def store_header_new_def)

lemma store_file_header_ok [simp]:
  "wal_content_ok X c \<Longrightarrow> store_header_ok X (store_file_header w c)"
  by (simp add: wal_content_ok_def store_header_ok_def)

lemma store_file_auth_sel:
  assumes "store_ext_ok S"
  shows "file_authentication_ok (store_file_auth S ctx w c data)"
    and "fa_header_signature (store_file_auth S ctx w c data) =
      crypto_sign (se_crypto S) ctx (store_header_enc (se_ext S) (store_file_header w c))"
    and "fa_content_signature (store_file_auth S ctx w c data) = crypto_sign (se_crypto S) ctx data"
  using assms
  by (simp_all add: store_ext_ok_def store_file_auth_def file_authentication_new_def file_authentication_ok_def
      store_header_write_eq)

lemma store_file_bytes_eq:
  "store_file_bytes S ctx w c data =
     file_authentication_enc (store_file_auth S ctx w c data) @
     store_header_enc (se_ext S) (store_file_header w c) @ data"
  by (simp add: store_file_bytes_def file_authentication_enc_def store_header_enc_def)

lemma decompress_decrypt:
  assumes "store_ext_ok S" "maybe_compress_and_encrypt S ctx content w = Ok data"
    and "sh_compression h = wf_compression_type w" "sh_encryption h = wf_encryption_type w"
  shows "\<exists>mid. decrypt_content S ctx (wf_queue_id w) (wf_file_id w) h data = Ok mid \<and>
           decompress_content S h mid = Ok content"
proof -
  define step1 where "step1 = (if wf_compression_type w \<noteq> NoCompression then
              (case wf_compression_type w of
                 Zstd \<Rightarrow> zstd_compress (se_compress S) content
               | NoCompression \<Rightarrow> Ok content
               | _ \<Rightarrow> Err ''Unsupported compression type'')
            else Ok content)"
  obtain mid where mid: "step1 = Ok mid"
    using assms(2) by (cases step1) (auto simp: maybe_compress_and_encrypt_def step1_def)
  have "decompress_content S h mid = Ok content"
    using mid assms(1,3)
    by (auto simp: step1_def decompress_content_def store_header_is_compressed_def store_ext_ok_def zstd_ok_def
        split: if_splits compression_type.splits)
  moreover have "decrypt_content S ctx (wf_queue_id w) (wf_file_id w) h data = Ok mid"
    using assms mid decrypt_encrypt
    by (auto simp: maybe_compress_and_encrypt_def step1_def [symmetric] decrypt_content_def
        store_header_is_encrypted_def store_ext_ok_def split: if_splits result.splits)
  ultimately show ?thesis by blast
qed

lemma verify_file_written:
  assumes "store_ext_ok S"
  shows "verify_file S ctx (store_file_auth S ctx w c data)
           (store_header_enc (se_ext S) (store_file_header w c)) data = Ok ()"
  using assms store_file_auth_sel [OF assms] by (simp add: verify_file_def store_ext_ok_def)

lemma extract_wal_bytes_written:
  assumes "store_ext_ok S" "wal_content_ok (se_ext S) c"
    and "maybe_compress_and_encrypt S ctx content w = Ok data"
  shows "extract_wal_bytes S ctx (wf_queue_id w) (wf_file_id w) (store_file_bytes S ctx w c data) verify =
         Ret (Ok content)"
proof -
  let ?h = "store_file_header w c" and ?fa = "store_file_auth S ctx w c data"
  have X: "ubig_bytes_ok (se_ext S)" using assms(1) by (simp add: store_ext_ok_def)
  obtain mid where "decrypt_content S ctx (wf_queue_id w) (wf_file_id w) ?h data = Ok mid"
    "decompress_content S ?h mid = Ok content"
    using decompress_decrypt [OF assms(1,3), of ?h] by auto
  then show ?thesis
    using verify_file_written [OF assms(1)] store_file_auth_sel(1) [OF assms(1)] assms(2) X
    by (simp add: extract_wal_bytes_def store_file_bytes_eq file_authentication_from_bytes_enc
        store_header_from_bytes_enc Let_def)
qed

text \<open>The two extraction functions agree: the header one parses what the other returns.\<close>

lemma extract_wal_header_eq:
  "extract_wal_header S content ctx q f verify = do {
     r \<leftarrow> extract_wal_bytes S ctx q f content verify;
     (case r of
        Err e \<Rightarrow> Ret (Err e)
      | Ok wal_bytes \<Rightarrow> do { r \<leftarrow> get_wal_header (se_ext S) wal_bytes; Ret (map_err Store_WalHeaderError r) }) }"
  by (auto simp: extract_wal_header_def extract_wal_bytes_def Let_def bind_eq_Some_conv
      split: result.splits bind_splits)

definition store_ext_ref :: store_ext where
  "store_ext_ref = \<lparr> se_ext = ext_ref, se_crypto = crypto_ref, se_compress = compress_ref \<rparr>"

lemma store_ext_ref_ok [simp]: "store_ext_ok store_ext_ref"
  by (simp add: store_ext_ok_def store_ext_ref_def)

section \<open>Properties\<close>

text \<open>
  C9. Reading a store file undoes writing it: whatever compression and encryption the writer
  applied to the content of a WAL file, \<open>extract_wal_bytes\<close> on the file it wrote returns that content, with
  and without the verification of the signatures, and \<open>extract_wal_header\<close> returns its WAL header.
\<close>

theorem store_file_roundtrip:
  assumes "store_ext_ok S" "wal_content_ok (se_ext S) c"
    and "maybe_compress_and_encrypt S ctx content w = Ok data"
  shows "extract_wal_bytes S ctx (wf_queue_id w) (wf_file_id w) (store_file_bytes S ctx w c data) verify =
           Ret (Ok content) \<and>
         extract_wal_header S (store_file_bytes S ctx w c data) ctx (wf_queue_id w) (wf_file_id w) verify =
           do { r \<leftarrow> get_wal_header (se_ext S) content; Ret (map_err Store_WalHeaderError r) }"
  using extract_wal_bytes_written [OF assms] by (simp add: extract_wal_header_eq)

definition sample_wal_file :: wal_file where
  "sample_wal_file = \<lparr> wf_queue_id = \<lparr> qid_path = ''/i/q'' \<rparr>, wf_file_id = U8 1, wf_encryption_type = Aes,
     wf_compression_type = Zstd \<rparr>"

definition sample_wal_content :: wal_content where
  "sample_wal_content = \<lparr> wc_entries_before = U8 5, wc_num_entries = U8 2, wc_content = [1, 2, 3] \<rparr>"

definition sample_context :: crypto_context where
  "sample_context = \<lparr> cc_seed = replicate 32 7, cc_signing_key = replicate 32 7,
     cc_instance_id = replicate 32 1, cc_instance_id_hex = ''00'' \<rparr>"

lemma sample_wal_content_ok [simp]: "wal_content_ok (se_ext store_ext_ref) sample_wal_content"
  by (simp add: wal_content_ok_def sample_wal_content_def uintn_encodable_def canonical_def)

lemma sample_compress_ok:
  "\<exists>data. maybe_compress_and_encrypt store_ext_ref sample_context [1, 2, 3] sample_wal_file = Ok data"
  by (simp add: maybe_compress_and_encrypt_def sample_wal_file_def store_ext_ref_def compress_ref_def
      crypto_encrypt_def derive_rng_def crypto_ref_def Let_def)

theorem store_file_roundtrip_witness:
  "\<exists>data. maybe_compress_and_encrypt store_ext_ref sample_context [1, 2, 3] sample_wal_file = Ok data \<and>
     extract_wal_bytes store_ext_ref sample_context \<lparr> qid_path = ''/i/q'' \<rparr> (U8 1)
       (store_file_bytes store_ext_ref sample_context sample_wal_file sample_wal_content data) True =
     Ret (Ok [1, 2, 3])"
proof -
  obtain data where
    1: "maybe_compress_and_encrypt store_ext_ref sample_context [1, 2, 3] sample_wal_file = Ok data"
    using sample_compress_ok by blast
  from store_file_roundtrip [OF store_ext_ref_ok sample_wal_content_ok 1, of True] 1
  show ?thesis by (simp add: sample_wal_file_def)
qed

end
