(* ===== verification/Wal_Store.thy ===== *)
theory Wal_Store
  imports Wal_Writer "HOL-Library.AList"
begin

text \<open>
  The WAL store (\<open>WalStore\<close> of \<open>normfs-wal/src/lib.rs\<close>): the writers of all queues and the reads of WAL files
  by queue and file identifier.

  \<open>fs_view\<close> is the file system as the readers see it: the contents of a path, the directory at a path, and
  whether directories can be created there. A writer is the sending end of the request channel together
  with the state of the task that empties it; sending fails once the task has ended. The map of
  writers is an association list, since the order of a hash map is open.
\<close>

section \<open>Files\<close>

record fs_view =
  fv_read :: file_system
  fv_tree :: "string \<Rightarrow> node option"
  fv_mkdir :: "string \<Rightarrow> (unit, string) result"
  fv_walk :: "string \<Rightarrow> (string \<times> bool) option list"

definition created_dir :: "fs_view \<Rightarrow> string \<Rightarrow> node option" where
  "created_dir V path = (case fv_tree V path of None \<Rightarrow> Some (Dir []) | Some n \<Rightarrow> Some n)"

definition wal_find_last_file_id :: "ext \<Rightarrow> fs_view \<Rightarrow> string \<Rightarrow> queue_id \<Rightarrow> (uintn, wal_error) result" where
  "wal_find_last_file_id X V root queue =
     (let queue_path = queue_id_to_wal_dir queue root in
      case fv_mkdir V queue_path of
        Err e \<Rightarrow> Err (IoError e)
      | Ok _ \<Rightarrow> map_err PathError (find_max_id X (created_dir V queue_path) ''wal''))"

definition wal_get_file_end ::
  "ext \<Rightarrow> file_system \<Rightarrow> string \<Rightarrow> queue_id \<Rightarrow> uintn \<Rightarrow> (uintn option, wal_error) result run" where
  "wal_get_file_end X fs root queue file_id =
     (let queue_path = queue_id_to_wal_dir queue root in do {
        r \<leftarrow> get_wal_range X fs queue_path file_id;
        Ret (case r of
            Ok (_, entries) \<Rightarrow> Ok (map_option snd entries)
          | Err (WalEmpty _) \<Rightarrow> Ok None
          | Err WalNotFound \<Rightarrow> Ok None
          | Err e \<Rightarrow> Err e) })"

definition wal_get_entries_before ::
  "ext \<Rightarrow> file_system \<Rightarrow> string \<Rightarrow> queue_id \<Rightarrow> uintn \<Rightarrow> (uintn, wal_error) result" where
  "wal_get_entries_before X fs root queue file_id =
     (case read_wal_header X fs (queue_id_to_wal_dir queue root) file_id of
        Err e \<Rightarrow> Err e
      | Ok h \<Rightarrow> Ok (wh_num_entries_before h))"

definition wal_get_first_file_id ::
  "ext \<Rightarrow> fs_view \<Rightarrow> string \<Rightarrow> queue_id \<Rightarrow> (uintn option, wal_error) result" where
  "wal_get_first_file_id X V root queue =
     (let queue_path = queue_id_to_wal_dir queue root in
      case fv_mkdir V queue_path of
        Err e \<Rightarrow> Err (IoError e)
      | Ok _ \<Rightarrow>
          (case find_min_id X (created_dir V queue_path) ''wal'' of
             Ok i \<Rightarrow> Ok (Some i)
           | Err NoFilesFound \<Rightarrow> Ok None
           | Err e \<Rightarrow> Err (PathError e)))"

definition wal_get_last_file_id ::
  "ext \<Rightarrow> fs_view \<Rightarrow> string \<Rightarrow> queue_id \<Rightarrow> (uintn option, wal_error) result" where
  "wal_get_last_file_id X V root queue =
     (let queue_path = queue_id_to_wal_dir queue root in
      case fv_mkdir V queue_path of
        Err e \<Rightarrow> Err (IoError e)
      | Ok _ \<Rightarrow>
          (case find_max_id X (created_dir V queue_path) ''wal'' of
             Err NoFilesFound \<Rightarrow> Ok None
           | Err e \<Rightarrow> Err (PathError e)
           | Ok last_file \<Rightarrow> Ok (Some last_file)))"

definition wal_get_queue_start ::
  "ext \<Rightarrow> fs_view \<Rightarrow> string \<Rightarrow> queue_id \<Rightarrow> (uintn option, wal_error) result" where
  "wal_get_queue_start X V root queue =
     (case wal_get_first_file_id X V root queue of
        Err e \<Rightarrow> Err e
      | Ok None \<Rightarrow> Ok None
      | Ok (Some first_file_id) \<Rightarrow>
          (case wal_get_entries_before X (fv_read V) root queue first_file_id of
             Err e \<Rightarrow> Err e
           | Ok entries_before \<Rightarrow> Ok (Some entries_before)))"

definition get_wal_file_content ::
  "ext \<Rightarrow> file_system \<Rightarrow> string \<Rightarrow> queue_id \<Rightarrow> uintn \<Rightarrow> (wal_content, wal_error) result run" where
  "get_wal_file_content X fs root queue file_id =
     get_wal_content X fs (queue_id_to_wal_dir queue root) file_id"

definition read_wal_range ::
  "ext \<Rightarrow> file_system \<Rightarrow> string \<Rightarrow> queue_id \<Rightarrow> uintn \<Rightarrow> uintn \<Rightarrow> uintn option \<Rightarrow> usize \<Rightarrow> channel \<Rightarrow>
   data_source \<Rightarrow> (read_entry list \<times> (read_range_result, wal_error) result) run" where
  "read_wal_range X fs root queue file_id from_id until_id step tx src =
     read_wal_file_range X fs (queue_id_to_wal_dir queue root) file_id from_id until_id step tx src"

definition read_wal_content_range ::
  "ext \<Rightarrow> bytes \<Rightarrow> uintn \<Rightarrow> uintn option \<Rightarrow> usize \<Rightarrow> channel \<Rightarrow> data_source \<Rightarrow>
   (read_entry list \<times> (read_range_result, wal_error) result) run" where
  "read_wal_content_range X content from_id until_id step tx src =
     read_wal_bytes_range X content from_id until_id step tx src"

definition wal_get_file_header ::
  "ext \<Rightarrow> file_system \<Rightarrow> string \<Rightarrow> queue_id \<Rightarrow> uintn \<Rightarrow> (wal_header option, wal_error) result" where
  "wal_get_file_header X fs root queue file_id =
     (case read_wal_header X fs (queue_id_to_wal_dir queue root) file_id of
        Ok h \<Rightarrow> Ok (Some h)
      | Err WalNotFound \<Rightarrow> Ok None
      | Err e \<Rightarrow> Err e)"

definition get_wal_bytes ::
  "ext \<Rightarrow> file_system \<Rightarrow> string \<Rightarrow> queue_id \<Rightarrow> uintn \<Rightarrow> (bytes option, wal_error) result" where
  "get_wal_bytes X fs root queue file_id =
     (case fs (queue_id_to_wal_path X queue root file_id) of
        Ok bs \<Rightarrow> Ok (Some bs)
      | Err NotFound \<Rightarrow> Ok None
      | Err (OtherIo e) \<Rightarrow> Err (IoError e))"

text \<open>
  Deletions change the disk: the flat map from paths to contents that the writers use. Removing a
  directory removes every path below it.
\<close>

definition remove_file :: "(string \<Rightarrow> string option) \<Rightarrow> (string \<rightharpoonup> bytes) \<Rightarrow> string \<Rightarrow> (string \<rightharpoonup> bytes) \<times> (unit, string) result" where
  "remove_file fails disk path =
     (case fails path of
        Some e \<Rightarrow> (disk, Err e)
      | None \<Rightarrow> if disk path = None then (disk, Err ''not found'') else (disk(path := None), Ok ()))"

definition delete_wal_file ::
  "ext \<Rightarrow> (string \<Rightarrow> string option) \<Rightarrow> (string \<rightharpoonup> bytes) \<Rightarrow> string \<Rightarrow> queue_id \<Rightarrow> uintn \<Rightarrow>
   (string \<rightharpoonup> bytes) \<times> (unit, wal_error) result" where
  "delete_wal_file X fails disk root queue file_id =
     (case remove_file fails disk (queue_id_to_wal_path X queue root file_id) of
        (disk, Err e) \<Rightarrow> (disk, Err (IoError e))
      | (disk, Ok _) \<Rightarrow> (disk, Ok ()))"

definition wal_truncate ::
  "(string \<Rightarrow> string option) \<Rightarrow> (string \<rightharpoonup> bytes) \<Rightarrow> string \<Rightarrow> queue_id \<Rightarrow> (string \<rightharpoonup> bytes) \<times> (unit, wal_error) result" where
  "wal_truncate fails disk root queue =
     (let queue_path = queue_id_to_wal_dir queue root in
      case fails queue_path of
        Some e \<Rightarrow> (disk, Err (IoError e))
      | None \<Rightarrow> (\<lambda>p. if strip_prefix (queue_path @ ''/'') p = None then disk p else None, Ok ()))"

section \<open>Writers\<close>

record wal_writer =
  ww_chan :: "write_request list"
  ww_task :: writer_state

definition wal_writer_send :: "wal_writer \<Rightarrow> write_request \<Rightarrow> wal_writer \<times> (unit, wal_error) result" where
  "wal_writer_send self req =
     (if ws_running (ww_task self) then (self \<lparr> ww_chan := ww_chan self @ [req] \<rparr>, Ok ())
      else (self, Err SendError))"

definition wal_writer_enqueue :: "wal_writer \<Rightarrow> uintn \<Rightarrow> bytes \<Rightarrow> wal_writer \<times> (unit, wal_error) result" where
  "wal_writer_enqueue self entry_id data = wal_writer_send self (EnqueueReq entry_id data)"

definition wal_writer_enqueue_batch ::
  "wal_writer \<Rightarrow> (uintn \<times> bytes) list \<Rightarrow> wal_writer \<times> (unit, wal_error) result" where
  "wal_writer_enqueue_batch self entries = wal_writer_send self (EnqueueBatchReq entries)"

text \<open>The task takes requests in the order they were sent until the close request.\<close>

fun writer_run :: "ext \<Rightarrow> writer_io \<Rightarrow> writer_state \<Rightarrow> write_request list \<Rightarrow> writer_state run" where
  "writer_run X io self [] = Ret self"
| "writer_run X io self (req # reqs) = do {
     self \<leftarrow> writer_handle X io self req;
     if ws_running self then writer_run X io self reqs else Ret self }"

definition wal_writer_close :: "ext \<Rightarrow> writer_io \<Rightarrow> wal_writer \<Rightarrow> wal_writer \<times> (unit, wal_error) result" where
  "wal_writer_close X io self =
     (case wal_writer_send self CloseReq of
        (self, Err e) \<Rightarrow> (self, Err e)
      | (self, Ok _) \<Rightarrow>
          (case writer_run X io (ww_task self) (ww_chan self) of
             None \<Rightarrow> (self, Err SendError)
           | Some task \<Rightarrow> (self \<lparr> ww_chan := [], ww_task := task \<rparr>, Ok ())))"

section \<open>The store\<close>

record wal_store =
  wst_root :: string
  wst_writers :: "(queue_id \<times> wal_writer) list"
  wst_completed :: "wal_file list"
  wst_complete_open :: bool

definition wal_store_new :: "string \<Rightarrow> wal_store" where
  "wal_store_new root = \<lparr> wst_root = root, wst_writers = [], wst_completed = [], wst_complete_open = True \<rparr>"

definition has_writer :: "wal_store \<Rightarrow> queue_id \<Rightarrow> bool" where
  "has_writer self queue \<longleftrightarrow> map_of (wst_writers self) queue \<noteq> None"

definition start_writer ::
  "ext \<Rightarrow> fs_view \<Rightarrow> writer_io \<Rightarrow> (string \<rightharpoonup> bytes) \<Rightarrow> wal_store \<Rightarrow> queue_id \<Rightarrow> uintn \<Rightarrow> wal_header \<Rightarrow> wal_settings \<Rightarrow>
   uintn option \<Rightarrow> wal_store \<times> (unit, wal_error) result" where
  "start_writer X V io disk self queue file_id h settings last_entry_id =
     (case fv_mkdir V (queue_id_to_wal_dir queue (wst_root self)) of
        Err e \<Rightarrow> (self, Err (IoError e))
      | Ok _ \<Rightarrow>
          (case wal_writer_new X io disk queue (wst_root self) file_id h settings last_entry_id of
             Err e \<Rightarrow> (self, Err e)
           | Ok task \<Rightarrow>
               (self \<lparr> wst_writers :=
                  AList.update queue \<lparr> ww_chan = [], ww_task = task \<rparr> (wst_writers self) \<rparr>, Ok ())))"

definition process_old_files ::
  "ext \<Rightarrow> fs_view \<Rightarrow> wal_store \<Rightarrow> queue_id \<Rightarrow> uintn \<Rightarrow> compression_type \<Rightarrow> encryption_type \<Rightarrow>
   wal_store \<times> (unit, wal_error) result" where
  "process_old_files X V self queue current_file_id compression_type encryption_type =
     (let queue_fs_path = queue_id_to_wal_dir queue (wst_root self) in
      case get_files_ids X (fv_walk V queue_fs_path) queue_fs_path ''wal'' of
        Ok file_ids \<Rightarrow>
          let old = filter (\<lambda>i. i < current_file_id) file_ids;
              wal_files = map (\<lambda>i. \<lparr> wf_queue_id = queue, wf_file_id = i, wf_encryption_type = encryption_type,
                                    wf_compression_type = compression_type \<rparr>) old
          in (if wst_complete_open self then self \<lparr> wst_completed := wst_completed self @ wal_files \<rparr> else self,
              Ok ())
      | Err e \<Rightarrow> (self, Err (PathError e)))"

definition wal_store_update ::
  "wal_store \<Rightarrow> queue_id \<Rightarrow> (wal_writer \<Rightarrow> wal_writer \<times> (unit, wal_error) result) \<Rightarrow>
   wal_store \<times> (unit, wal_error) result" where
  "wal_store_update self queue f =
     (case map_of (wst_writers self) queue of
        Some writer \<Rightarrow>
          (case f writer of
             (writer, r) \<Rightarrow> (self \<lparr> wst_writers := AList.update queue writer (wst_writers self) \<rparr>, r))
      | None \<Rightarrow> (self, Err WriterNotFound))"

definition wal_store_enqueue ::
  "wal_store \<Rightarrow> queue_id \<Rightarrow> uintn \<Rightarrow> bytes \<Rightarrow> wal_store \<times> (unit, wal_error) result" where
  "wal_store_enqueue self queue entry_id data =
     wal_store_update self queue (\<lambda>writer. wal_writer_enqueue writer entry_id data)"

definition wal_store_enqueue_batch ::
  "wal_store \<Rightarrow> queue_id \<Rightarrow> (uintn \<times> bytes) list \<Rightarrow> wal_store \<times> (unit, wal_error) result" where
  "wal_store_enqueue_batch self queue entries =
     wal_store_update self queue (\<lambda>writer. wal_writer_enqueue_batch writer entries)"

text \<open>
  \<open>close\<close> takes the writers out of the map and closes each of them; the closed writers are the
  first component of the result, for what they leave on disk.
\<close>

definition wal_store_close ::
  "ext \<Rightarrow> writer_io \<Rightarrow> wal_store \<Rightarrow> (queue_id \<times> wal_writer) list \<times> wal_store \<times> (unit, wal_error) result" where
  "wal_store_close X io self =
     (let closed = map (\<lambda>(queue, writer). (queue, wal_writer_close X io writer)) (wst_writers self);
          errors = concat (map (\<lambda>(_, _, r). case r of Err e \<Rightarrow> [e] | Ok _ \<Rightarrow> []) closed)
      in (map (\<lambda>(queue, writer, _). (queue, writer)) closed, self \<lparr> wst_writers := [] \<rparr>,
          case errors of e # _ \<Rightarrow> Err e | [] \<Rightarrow> Ok ()))"

section \<open>Everything enqueued is on disk after close\<close>

lemma submit_all_in_order:
  "ids es = [next_id (ob_last_written_id b)..<next_id (ob_last_written_id b) + length es] \<Longrightarrow>
   snd (ordered_buffer_submit_all b es) = es"
proof (induction es arbitrary: b)
  case (Cons e es)
  let ?b = "b \<lparr> ob_last_written_id := Some (fst e) \<rparr>"
  from Cons.prems have e: "uval (fst e) = next_id (ob_last_written_id b)"
    and "ids es = [next_id (ob_last_written_id ?b)..<next_id (ob_last_written_id ?b) + length es]"
    by (auto simp: upt_conv_Cons simp del: upt_Suc)
  moreover have "ordered_buffer_submit b e = (?b, [e])"
    using e by (simp add: ordered_buffer_submit_def ordered_buffer_can_write_def
        ordered_buffer_check_can_write_def follows_iff)
  ultimately show ?case using Cons.IH [of ?b] by (simp add: split_beta)
qed simp

text \<open>A task that starts in a good state handles every request up to and including the close.\<close>

lemma writer_run_ok:
  assumes "ubig_bytes_ok X" "ubig_hex_ok X" "io_ok io"
  shows "config_inv X k b0 (st, es) files cur \<Longrightarrow> ws_running st \<Longrightarrow>
    list_all (\<lambda>req. list_all good_entry (request_entries req)) reqs \<Longrightarrow> CloseReq \<notin> set reqs \<Longrightarrow>
    \<exists>st' new cur'. writer_run X io st (reqs @ [CloseReq]) = Ret st' \<and> \<not> ws_running st' \<and>
      config_inv X k b0 (st', es @ concat (map request_entries reqs)) (files @ new) cur'"
proof (induction reqs arbitrary: st es files cur)
  case Nil
  obtain st' new cur' where h: "writer_handle X io st CloseReq = Ret st'"
    "config_inv X k b0 (st', es @ request_entries CloseReq) (files @ new) cur'"
    by (rule writer_handle_ok [OF assms Nil.prems(1,2), of CloseReq]) simp_all
  moreover from h(1) have "\<not> ws_running st'" by (auto simp: writer_close_def split: prod.splits)
  ultimately show ?case by (intro exI [of _ st'] exI [of _ new] exI [of _ cur']) simp
next
  case (Cons req reqs)
  from Cons.prems have req: "list_all good_entry (request_entries req)" "req \<noteq> CloseReq"
    "list_all (\<lambda>req. list_all good_entry (request_entries req)) reqs" "CloseReq \<notin> set reqs" by auto
  from Cons.prems(1) have i: "writer_inv X k (next_id (ob_last_written_id b0)) st files cur"
    "next_id (ob_last_written_id (ws_buffer st)) =
       next_id (ob_last_written_id b0) + length (logged files @ cur)"
    "list_all good_entry (ob_pending (ws_buffer st))"
    unfolding config_inv_def fst_conv snd_conv by blast+
  obtain st1 new1 cur1 where h: "writer_handle X io st req = Ret st1"
    "config_inv X k b0 (st1, es @ request_entries req) (files @ new1) cur1"
    by (rule writer_handle_ok [OF assms Cons.prems(1,2) req(1)])
  have run: "ws_running st1"
    using writer_write_batch_ok [OF assms i(1) Cons.prems(2) i(2,3) req(1)] h(1)
    by (auto simp: handle_as_batch [OF req(2)])
  obtain st' new2 cur' where r: "writer_run X io st1 (reqs @ [CloseReq]) = Ret st'" "\<not> ws_running st'"
    "config_inv X k b0 (st', (es @ request_entries req) @ concat (map request_entries reqs))
       ((files @ new1) @ new2) cur'"
    using Cons.IH [OF h(2) run req(3,4)] by (elim exE conjE)
  then show ?case using h(1) run
    by (intro exI [of _ st'] exI [of _ "new1 @ new2"] exI [of _ cur']) simp
qed

abbreviation enqueue_all :: "wal_store \<Rightarrow> queue_id \<Rightarrow> (uintn \<times> bytes) list \<Rightarrow> wal_store" where
  "enqueue_all self queue es \<equiv> foldl (\<lambda>s e. fst (wal_store_enqueue s queue (fst e) (snd e))) self es"

lemma enqueue_all_chan:
  assumes "map_of (wst_writers self) queue = Some w" "ws_running (ww_task w)"
  shows "map_of (wst_writers (enqueue_all self queue es)) queue =
    Some (w \<lparr> ww_chan := ww_chan w @ map (\<lambda>e. EnqueueReq (fst e) (snd e)) es \<rparr>)"
  using assms
proof (induction es arbitrary: self w)
  case (Cons e es)
  let ?w = "w \<lparr> ww_chan := ww_chan w @ [EnqueueReq (fst e) (snd e)] \<rparr>"
  let ?self = "fst (wal_store_enqueue self queue (fst e) (snd e))"
  have "map_of (wst_writers ?self) queue = Some ?w"
    using Cons.prems by (simp add: wal_store_enqueue_def wal_store_update_def wal_writer_enqueue_def
        wal_writer_send_def update_conv')
  from Cons.IH [OF this] Cons.prems(2) show ?case by simp
qed simp

lemma wal_store_close_writer:
  "map_of (fst (wal_store_close X io self)) queue =
     map_option (\<lambda>w. fst (wal_writer_close X io w)) (map_of (wst_writers self) queue)"
proof -
  have "fst (wal_store_close X io self) =
      map (\<lambda>(queue, w). (queue, fst (wal_writer_close X io w))) (wst_writers self)"
    by (auto simp: wal_store_close_def Let_def split_beta)
  then show ?thesis by (simp add: map_of_map)
qed

lemma start_writer_ok:
  assumes "start_writer X V io disk self queue f h settings last_id = (self', Ok ())"
  obtains task where "wal_writer_new X io disk queue (wst_root self) f h settings last_id = Ok task"
    "map_of (wst_writers self') queue = Some \<lparr> ww_chan = [], ww_task = task \<rparr>"
  using assms by (auto simp: start_writer_def update_conv' split: result.splits)

section \<open>Properties\<close>


definition sample_view :: fs_view where
  "sample_view = \<lparr> fv_read = (\<lambda>_. Err NotFound), fv_tree = (\<lambda>_. None), fv_mkdir = (\<lambda>_. Ok ()), fv_walk = (\<lambda>_. []) \<rparr>"


end
