(* ===== verification/Persist_Store.thy ===== *)
theory Persist_Store
  imports Store_Format Wal_Store
begin

text \<open>
  The persistent store: the cache of entry ranges (\<open>normfs-store/src/ranges.rs\<close>), the workers that turn
  completed WAL files into store files (\<open>writer.rs\<close>), and the operations of \<open>PersistStore\<close> (\<open>lib.rs\<close>).

  The worker changes the disk, a map from paths to contents. What the operating system does is the
  record \<open>store_io\<close>: every call may fail, and a failing write may leave a part of its data behind. A worker
  that is killed leaves the disk as a failure of the next call does, because no error path cleans up, so the
  theorems about all outcomes of \<open>store_io\<close> cover crashes at every point.
\<close>

section \<open>Ranges\<close>

definition uintn_display :: "uintn \<Rightarrow> string" where
  "uintn_display u = decimal (uval u)"

record range_store =
  rs_root :: string
  rs_ranges :: "string \<rightharpoonup> uintn \<times> uintn"
  rs_crypto_ctx :: crypto_context
  rs_verify_signatures :: bool

definition range_store_new :: "string \<Rightarrow> crypto_context \<Rightarrow> bool \<Rightarrow> range_store" where
  "range_store_new root ctx verify_signatures =
     \<lparr> rs_root = root, rs_ranges = Map.empty, rs_crypto_ctx = ctx, rs_verify_signatures = verify_signatures \<rparr>"

definition range_key :: "queue_id \<Rightarrow> uintn \<Rightarrow> string" where
  "range_key q file_id = qid_path q @ ''-'' @ uintn_display file_id"

definition read_range_from_fs ::
  "store_ext \<Rightarrow> file_system \<Rightarrow> range_store \<Rightarrow> queue_id \<Rightarrow> uintn \<Rightarrow>
   ((uintn \<times> uintn) option, range_store_error) result run" where
  "read_range_from_fs S fs self q file_id =
     (case fs (queue_id_to_store_path (se_ext S) q (rs_root self) file_id) of
        Err NotFound \<Rightarrow> Ret (Err Range_FileNotFound)
      | Err (OtherIo e) \<Rightarrow> Ret (Err (Range_Io e))
      | Ok contents \<Rightarrow>
          let buffer = take 256 contents in
          (case file_authentication_from_bytes buffer of
             Err e \<Rightarrow> Ret (Err (Range_Header e))
           | Ok (file_auth, auth_size) \<Rightarrow> do {
               let content_after_auth = drop auth_size buffer;
               r \<leftarrow> store_header_from_bytes (se_ext S) content_after_auth;
               (case r of
                  Err e \<Rightarrow> Ret (Err (Range_Header e))
                | Ok (h, header_size) \<Rightarrow>
                    let header_bytes = take header_size content_after_auth in
                    if rs_verify_signatures self \<and>
                       \<not> is_ok (crypto_verify (se_crypto S) (rs_crypto_ctx self) header_bytes
                                 (fa_header_signature file_auth))
                    then Ret (Err Range_SignatureVerificationFailed)
                    else if uintn_is_zero (sh_num_entries h) then Ret (Ok None)
                    else do {
                      let first_id = sh_num_entries_before h;
                      r \<leftarrow> uintn_sub (sh_num_entries h) uintn_one;
                      Ret (case r of
                          Err e \<Rightarrow> Err (Range_UintN e)
                        | Ok num_entries_minus_one \<Rightarrow>
                            Ok (Some (first_id, uintn_add first_id num_entries_minus_one))) }) }))"

definition get_range ::
  "store_ext \<Rightarrow> file_system \<Rightarrow> range_store \<Rightarrow> queue_id \<Rightarrow> uintn \<Rightarrow>
   (range_store \<times> ((uintn \<times> uintn) option, range_store_error) result) run" where
  "get_range S fs self q file_id =
     (let key = range_key q file_id in
      case rs_ranges self key of
        Some rng \<Rightarrow> Ret (self, Ok (Some rng))
      | None \<Rightarrow> do {
          range_result \<leftarrow> read_range_from_fs S fs self q file_id;
          Ret (case range_result of
              Ok rng \<Rightarrow>
                (case rng of
                   Some range_val \<Rightarrow> self \<lparr> rs_ranges := (rs_ranges self)(key \<mapsto> range_val) \<rparr>
                 | None \<Rightarrow> self, Ok rng)
            | Err Range_FileNotFound \<Rightarrow> (self, Ok None)
            | Err e \<Rightarrow> (self, Err e)) })"

definition record_range :: "range_store \<Rightarrow> queue_id \<Rightarrow> uintn \<Rightarrow> uintn \<Rightarrow> uintn \<Rightarrow> range_store" where
  "record_range self q file_id first_id last_id =
     self \<lparr> rs_ranges := (rs_ranges self)(range_key q file_id \<mapsto> (first_id, last_id)) \<rparr>"

section \<open>Store workers\<close>

type_synonym disk = "string \<rightharpoonup> bytes"

record store_io =
  stio_mkdir :: "string \<Rightarrow> (unit, string) result"
  stio_uuid :: string
  stio_create :: "string \<Rightarrow> (unit, string) result"
  stio_write :: "nat \<Rightarrow> (unit, nat \<times> string) result"
  stio_sync :: "(unit, string) result"
  stio_rename :: "(unit, string) result"
  stio_remove :: "string \<Rightarrow> string option"
  stio_done_open :: bool

record store_world =
  sw_disk :: disk
  sw_ranges :: range_store
  sw_done :: "(queue_id \<times> uintn) list"

definition disk_fs :: "disk \<Rightarrow> file_system" where
  "disk_fs disk path = (case disk path of None \<Rightarrow> Err NotFound | Some bs \<Rightarrow> Ok bs)"

definition parent_dir :: "string \<Rightarrow> string" where
  "parent_dir path = rev (drop 1 (dropWhile (\<lambda>c. c \<noteq> slash) (rev path)))"

definition disk_then :: "disk \<times> (unit, string) result \<Rightarrow> (disk \<Rightarrow> disk \<times> (unit, string) result) \<Rightarrow>
    disk \<times> (unit, string) result" where
  "disk_then dr f = (case dr of (disk, Err e) \<Rightarrow> (disk, Err e) | (disk, Ok _) \<Rightarrow> f disk)"

definition create_file :: "store_io \<Rightarrow> string \<Rightarrow> disk \<Rightarrow> disk \<times> (unit, string) result" where
  "create_file io path disk =
     (case stio_create io path of Err e \<Rightarrow> (disk, Err e) | Ok _ \<Rightarrow> (disk(path \<mapsto> []), Ok ()))"

definition write_all :: "store_io \<Rightarrow> nat \<Rightarrow> string \<Rightarrow> bytes \<Rightarrow> disk \<Rightarrow> disk \<times> (unit, string) result" where
  "write_all io i path data disk =
     (let old = (case disk path of None \<Rightarrow> [] | Some bs \<Rightarrow> bs)
      in case stio_write io i of
           Err (n, e) \<Rightarrow> (disk(path \<mapsto> old @ take n data), Err e)
         | Ok _ \<Rightarrow> (disk(path \<mapsto> old @ data), Ok ()))"

definition rename_file :: "store_io \<Rightarrow> string \<Rightarrow> string \<Rightarrow> disk \<Rightarrow> disk \<times> (unit, string) result" where
  "rename_file io source dest disk =
     (case stio_rename io of
        Err e \<Rightarrow> (disk, Err e)
      | Ok _ \<Rightarrow> ((disk(source := None))(dest := disk source), Ok ()))"

definition temp_path :: "store_io \<Rightarrow> string \<Rightarrow> string" where
  "temp_path io root = path_push (path_push root ''tmp'') (stio_uuid io @ ''.tmp'')"

definition write_store_file ::
  "store_ext \<Rightarrow> crypto_context \<Rightarrow> string \<Rightarrow> store_io \<Rightarrow> store_world \<Rightarrow> wal_file \<Rightarrow> wal_content \<Rightarrow> bytes \<Rightarrow>
   store_world \<times> (unit, string) result" where
  "write_store_file S ctx root io world wal_file wal_data data =
     (let header = store_file_header wal_file wal_data;
          (header_bytes, _) = store_header_write_to_bytes (se_ext S) header [];
          file_auth = store_file_auth S ctx wal_file wal_data data;
          (auth_bytes, _) = file_authentication_write_to_bytes file_auth [];
          store_file_path = queue_id_to_store_path (se_ext S) (wf_queue_id wal_file) root (wf_file_id wal_file);
          temp_file_path = temp_path io root;
          (disk, r) =
            disk_then (sw_disk world, stio_mkdir io (parent_dir store_file_path)) (\<lambda>disk.
            disk_then (disk, stio_mkdir io (path_push root ''tmp'')) (\<lambda>disk.
            disk_then (create_file io temp_file_path disk) (\<lambda>disk.
            disk_then (write_all io 0 temp_file_path auth_bytes disk) (\<lambda>disk.
            disk_then (write_all io 1 temp_file_path header_bytes disk) (\<lambda>disk.
            disk_then (write_all io 2 temp_file_path data disk) (\<lambda>disk.
            disk_then (disk, stio_sync io) (\<lambda>disk.
            rename_file io temp_file_path store_file_path disk)))))));
          world = world \<lparr> sw_disk := disk \<rparr>
      in case r of
           Err e \<Rightarrow> (world, Err e)
         | Ok _ \<Rightarrow>
             (if stio_done_open io
              then world \<lparr> sw_done := sw_done world @ [(wf_queue_id wal_file, wf_file_id wal_file)] \<rparr>
              else world, Ok ()))"

definition process_entry ::
  "store_ext \<Rightarrow> crypto_context \<Rightarrow> string \<Rightarrow> store_io \<Rightarrow> store_world \<Rightarrow> wal_file \<Rightarrow> store_world run" where
  "process_entry S ctx root io world wal_file =
     (let queue_id = wf_queue_id wal_file; file_id = wf_file_id wal_file in do {
        r \<leftarrow> get_wal_file_content (se_ext S) (disk_fs (sw_disk world)) root queue_id file_id;
        (case r of
           Err _ \<Rightarrow> Ret world
         | Ok wal_data \<Rightarrow>
             (case maybe_compress_and_encrypt S ctx (wc_content wal_data) wal_file of
                Err _ \<Rightarrow> Ret world
              | Ok data_to_write \<Rightarrow>
                  (case write_store_file S ctx root io world wal_file wal_data data_to_write of
                     (world, Err _) \<Rightarrow> Ret world
                   | (world, Ok _) \<Rightarrow> do {
                       last_id \<leftarrow> uintn_sub (uintn_add (wc_entries_before wal_data) (wc_num_entries wal_data)) uintn_one;
                       Ret (case last_id of
                           Err _ \<Rightarrow> world
                         | Ok last_id \<Rightarrow>
                             let world = world \<lparr> sw_ranges :=
                                   record_range (sw_ranges world) queue_id file_id (wc_entries_before wal_data) last_id \<rparr>;
                                 (disk, _) = delete_wal_file (se_ext S) (stio_remove io) (sw_disk world) root
                                               queue_id file_id
                             in world \<lparr> sw_disk := disk \<rparr>) }))) })"

text \<open>
  A worker takes files from the channel until it is told to stop: \<open>shutdown n\<close> says whether the signal is there
  before the \<open>n\<close>-th file, and the signal is looked at first.
\<close>

fun store_worker_run ::
  "store_ext \<Rightarrow> crypto_context \<Rightarrow> string \<Rightarrow> (nat \<Rightarrow> store_io) \<Rightarrow> (nat \<Rightarrow> bool) \<Rightarrow> nat \<Rightarrow> store_world \<Rightarrow>
   wal_file list \<Rightarrow> store_world run" where
  "store_worker_run S ctx root io shutdown n world [] = Ret world"
| "store_worker_run S ctx root io shutdown n world (entry # entries) =
     (if shutdown n then Ret world
      else do {
        world \<leftarrow> process_entry S ctx root (io n) world entry;
        store_worker_run S ctx root io shutdown (n + 1) world entries })"

section \<open>Operations of the store\<close>

record store_write_config =
  swc_num_workers :: usize
  swc_verify_signatures :: bool

definition store_write_config_default :: store_write_config where
  "store_write_config_default = \<lparr> swc_num_workers = 4, swc_verify_signatures = False \<rparr>"

record persist_store =
  ps_root :: string
  ps_range_store :: range_store
  ps_config :: store_write_config
  ps_crypto_ctx :: crypto_context

definition persist_store_new :: "string \<Rightarrow> store_write_config \<Rightarrow> crypto_context \<Rightarrow> persist_store" where
  "persist_store_new root config ctx =
     \<lparr> ps_root = root, ps_range_store = range_store_new root ctx (swc_verify_signatures config),
       ps_config = config, ps_crypto_ctx = ctx \<rparr>"

definition store_find_last_file_id :: "ext \<Rightarrow> fs_view \<Rightarrow> persist_store \<Rightarrow> queue_id \<Rightarrow> (uintn, store_error) result" where
  "store_find_last_file_id X V self queue =
     (let queue_path = queue_id_to_store_dir queue (ps_root self) in
      case fv_mkdir V queue_path of
        Err e \<Rightarrow> Err (Store_Io e)
      | Ok _ \<Rightarrow> map_err Store_Path (find_max_id X (created_dir V queue_path) ''store''))"

definition get_file_range ::
  "store_ext \<Rightarrow> file_system \<Rightarrow> persist_store \<Rightarrow> queue_id \<Rightarrow> uintn \<Rightarrow>
   (persist_store \<times> ((uintn \<times> uintn) option, store_error) result) run" where
  "get_file_range S fs self queue file_id = do {
     (ranges, r) \<leftarrow> get_range S fs (ps_range_store self) queue file_id;
     Ret (self \<lparr> ps_range_store := ranges \<rparr>, map_err Store_Range r) }"

definition get_file_end ::
  "store_ext \<Rightarrow> file_system \<Rightarrow> persist_store \<Rightarrow> queue_id \<Rightarrow> uintn \<Rightarrow>
   (persist_store \<times> (uintn option, store_error) result) run" where
  "get_file_end S fs self queue file_id = do {
     (self, r) \<leftarrow> get_file_range S fs self queue file_id;
     Ret (self, case r of Err e \<Rightarrow> Err e | Ok rng \<Rightarrow> Ok (map_option snd rng)) }"

definition store_get_file_header ::
  "store_ext \<Rightarrow> file_system \<Rightarrow> persist_store \<Rightarrow> queue_id \<Rightarrow> uintn \<Rightarrow> (wal_header option, store_error) result run" where
  "store_get_file_header S fs self queue file_id =
     (let queue_fs_path = queue_id_to_store_dir queue (ps_root self);
          file_path = uintn_to_file_path (se_ext S) file_id queue_fs_path ''store''
      in case fs file_path of
           Err NotFound \<Rightarrow> Ret (Ok None)
         | Err (OtherIo e) \<Rightarrow> Ret (Err (Store_Io e))
         | Ok file_bytes \<Rightarrow>
             if length file_bytes < 10 then Ret (Ok None)
             else do {
               r \<leftarrow> extract_wal_header S file_bytes (ps_crypto_ctx self) queue file_id
                      (swc_verify_signatures (ps_config self));
               Ret (case r of Ok h \<Rightarrow> Ok (Some h) | Err _ \<Rightarrow> Ok None) })"

definition store_get_first_file_id ::
  "ext \<Rightarrow> fs_view \<Rightarrow> persist_store \<Rightarrow> queue_id \<Rightarrow> (uintn option, store_error) result" where
  "store_get_first_file_id X V self queue =
     (let queue_fs_path = queue_id_to_store_dir queue (ps_root self) in
      case fv_mkdir V queue_fs_path of
        Err e \<Rightarrow> Err (Store_Io e)
      | Ok _ \<Rightarrow>
          (case find_min_id X (created_dir V queue_fs_path) ''store'' of
             Ok i \<Rightarrow> Ok (Some i)
           | Err NoFilesFound \<Rightarrow> Ok None
           | Err e \<Rightarrow> Err (Store_Path e)))"

definition store_get_last_file_id ::
  "ext \<Rightarrow> fs_view \<Rightarrow> persist_store \<Rightarrow> queue_id \<Rightarrow> (uintn option, store_error) result" where
  "store_get_last_file_id X V self queue =
     (let queue_fs_path = queue_id_to_store_dir queue (ps_root self) in
      case fv_mkdir V queue_fs_path of
        Err e \<Rightarrow> Err (Store_Io e)
      | Ok _ \<Rightarrow>
          (case find_max_id X (created_dir V queue_fs_path) ''store'' of
             Err NoFilesFound \<Rightarrow> Ok None
           | Err e \<Rightarrow> Err (Store_Path e)
           | Ok last_file \<Rightarrow> Ok (Some last_file)))"

definition store_get_queue_start ::
  "store_ext \<Rightarrow> fs_view \<Rightarrow> persist_store \<Rightarrow> queue_id \<Rightarrow> (persist_store \<times> (uintn option, store_error) result) run" where
  "store_get_queue_start S V self queue =
     (case store_get_first_file_id (se_ext S) V self queue of
        Err e \<Rightarrow> Ret (self, Err e)
      | Ok None \<Rightarrow> Ret (self, Ok None)
      | Ok (Some first_file_id) \<Rightarrow> do {
          (self, r) \<leftarrow> get_file_range S (fv_read V) self queue first_file_id;
          Ret (self, case r of Err e \<Rightarrow> Err e | Ok rng \<Rightarrow> Ok (map_option fst rng)) })"

definition get_store_bytes ::
  "ext \<Rightarrow> file_system \<Rightarrow> persist_store \<Rightarrow> queue_id \<Rightarrow> uintn \<Rightarrow> (bytes option, store_error) result" where
  "get_store_bytes X fs self queue file_id =
     (case fs (uintn_to_file_path X file_id (queue_id_to_store_dir queue (ps_root self)) ''store'') of
        Ok bs \<Rightarrow> Ok (Some bs)
      | Err NotFound \<Rightarrow> Ok None
      | Err (OtherIo e) \<Rightarrow> Err (Store_Io e))"

text \<open>
  \<open>recover\<close> removes the temporary files that interrupted workers left. The entries of the directory are an
  argument, each its path and whether it is a file; a file that cannot be removed is skipped.
\<close>

fun store_recover_entries :: "(string \<Rightarrow> string option) \<Rightarrow> disk \<Rightarrow> (string \<times> bool) list \<Rightarrow> disk" where
  "store_recover_entries fails disk [] = disk"
| "store_recover_entries fails disk ((path, file) # entries) =
     (let disk = (if file \<and> path_components path \<noteq> [] \<and>
                     path_extension (last (path_components path)) = Some ''tmp''
                  then fst (remove_file fails disk path) else disk)
      in store_recover_entries fails disk entries)"

definition store_recover ::
  "(string \<Rightarrow> string option) \<Rightarrow> ((string \<times> bool) list, string) result option \<Rightarrow> disk \<Rightarrow>
   disk \<times> (unit, store_error) result" where
  "store_recover fails listing disk =
     (case listing of
        None \<Rightarrow> (disk, Ok ())
      | Some (Err e) \<Rightarrow> (disk, Err (Store_Io e))
      | Some (Ok entries) \<Rightarrow> (store_recover_entries fails disk entries, Ok ()))"

section \<open>What a worker leaves on disk\<close>

text \<open>The three paths a worker touches differ in their last character.\<close>

lemma last_path_push: "s \<noteq> [] \<Longrightarrow> last (path_push p s) = last s"
  by (simp add: path_push_def)

lemma last_to_file_path:
  "ubig_hex_ok X \<Longrightarrow> extension \<noteq> [] \<Longrightarrow> last (uintn_to_file_path X u base extension) = last extension"
  by (simp add: uintn_to_file_path_eq last_path_push ext_suffix_def)

lemma worker_paths_differ:
  assumes "ubig_hex_ok X"
  shows "queue_id_to_wal_path X q root f \<noteq> queue_id_to_store_path X q' root' f'"
    and "temp_path io root'' \<noteq> queue_id_to_wal_path X q root f"
    and "temp_path io root'' \<noteq> queue_id_to_store_path X q' root' f'"
proof -
  have "last (queue_id_to_wal_path X q root f) = CHR ''l''"
    "last (queue_id_to_store_path X q' root' f') = CHR ''e''" "last (temp_path io root'') = CHR ''p''"
    using assms by (simp_all add: queue_id_to_wal_path_def queue_id_to_store_path_def temp_path_def
        last_to_file_path last_path_push)
  then show "queue_id_to_wal_path X q root f \<noteq> queue_id_to_store_path X q' root' f'"
    "temp_path io root'' \<noteq> queue_id_to_wal_path X q root f"
    "temp_path io root'' \<noteq> queue_id_to_store_path X q' root' f'" by auto
qed

text \<open>A step on the temporary file leaves every other path alone and, when it succeeds, appends its data.\<close>

definition only_temp :: "string \<Rightarrow> disk \<Rightarrow> disk \<Rightarrow> bool" where
  "only_temp t d d' \<longleftrightarrow> (\<forall>p. p \<noteq> t \<longrightarrow> d' p = d p)"

lemma only_temp_refl [simp]: "only_temp t d d"
  by (simp add: only_temp_def)

lemma only_temp_trans: "only_temp t d d' \<Longrightarrow> only_temp t d' d'' \<Longrightarrow> only_temp t d d''"
  by (simp add: only_temp_def)

lemma only_temp_upd [simp]: "only_temp t d (d(t := v))"
  by (simp add: only_temp_def)

text \<open>
  A total-correctness rule for chains of such steps: \<open>outcome t d\<^sub>0 Q\<close> holds of a result when a failure has only
  touched the temporary file and a success satisfies \<open>Q\<close>.
\<close>

definition outcome :: "string \<Rightarrow> disk \<Rightarrow> (disk \<Rightarrow> bool) \<Rightarrow> disk \<times> (unit, string) result \<Rightarrow> bool" where
  "outcome t d0 Q dr \<longleftrightarrow> (case dr of (d, Err e) \<Rightarrow> only_temp t d0 d | (d, Ok _) \<Rightarrow> Q d)"

abbreviation temp_holds :: "string \<Rightarrow> disk \<Rightarrow> bytes \<Rightarrow> disk \<Rightarrow> bool" where
  "temp_holds t d0 bs d \<equiv> only_temp t d0 d \<and> d t = Some bs"

lemma outcome_then:
  "outcome t d0 P dr \<Longrightarrow> (\<And>d. P d \<Longrightarrow> outcome t d0 Q (f d)) \<Longrightarrow> outcome t d0 Q (disk_then dr f)"
  by (cases dr; cases "snd dr") (auto simp: outcome_def disk_then_def)

lemma outcome_call: "P d \<Longrightarrow> only_temp t d0 d \<Longrightarrow> outcome t d0 P (d, m)"
  by (cases m) (simp_all add: outcome_def)

lemma outcome_create: "only_temp t d0 d \<Longrightarrow> outcome t d0 (temp_holds t d0 []) (create_file io t d)"
  by (auto simp: outcome_def create_file_def only_temp_def split: result.splits)

lemma outcome_write:
  "temp_holds t d0 old d \<Longrightarrow> outcome t d0 (temp_holds t d0 (old @ data)) (write_all io i t data d)"
  by (auto simp: outcome_def write_all_def only_temp_def split: result.splits)

lemma outcome_rename:
  assumes "temp_holds t d0 bs d" "t \<noteq> p"
  shows "outcome t d0 (\<lambda>d. d = (d0(t := None))(p \<mapsto> bs)) (rename_file io t p d)"
  using assms by (cases "stio_rename io") (auto simp: outcome_def rename_file_def only_temp_def)

lemma write_store_file_outcome:
  assumes "ubig_hex_ok (se_ext S)"
    and "write_store_file S ctx root io world w c data = (world', r)"
  defines "t \<equiv> temp_path io root"
    and "p \<equiv> queue_id_to_store_path (se_ext S) (wf_queue_id w) root (wf_file_id w)"
  shows "(case r of
      Err e \<Rightarrow> only_temp t (sw_disk world) (sw_disk world') \<and> sw_done world' = sw_done world
    | Ok _ \<Rightarrow> sw_disk world' = ((sw_disk world)(t := None))(p \<mapsto> store_file_bytes S ctx w c data) \<and>
        sw_done world' = sw_done world @
          (if stio_done_open io then [(wf_queue_id w, wf_file_id w)] else [])) \<and>
    sw_ranges world' = sw_ranges world"
proof -
  let ?d0 = "sw_disk world" and ?hb = "fst (store_header_write_to_bytes (se_ext S) (store_file_header w c) [])"
  let ?ab = "fst (file_authentication_write_to_bytes (store_file_auth S ctx w c data) [])"
  define dr where "dr =
      disk_then (?d0, stio_mkdir io (parent_dir p)) (\<lambda>disk.
      disk_then (disk, stio_mkdir io (path_push root ''tmp'')) (\<lambda>disk.
      disk_then (create_file io t disk) (\<lambda>disk.
      disk_then (write_all io 0 t ?ab disk) (\<lambda>disk.
      disk_then (write_all io 1 t ?hb disk) (\<lambda>disk.
      disk_then (write_all io 2 t data disk) (\<lambda>disk.
      disk_then (disk, stio_sync io) (\<lambda>disk. rename_file io t p disk)))))))"
  have "t \<noteq> p" using worker_paths_differ(3) [OF assms(1)] by (simp add: t_def p_def)
  then have "outcome t ?d0 (\<lambda>d. d = (?d0(t := None))(p \<mapsto> (([] @ ?ab) @ ?hb) @ data)) dr"
    unfolding dr_def
    by (intro outcome_then [where P = "only_temp t ?d0"] outcome_then [OF outcome_create]
        outcome_then [OF outcome_write] outcome_then [where P = "temp_holds t ?d0 ((([] @ ?ab) @ ?hb) @ data)"]
        outcome_rename outcome_call) auto
  moreover have "write_store_file S ctx root io world w c data =
      (case snd dr of
         Err e \<Rightarrow> (world \<lparr> sw_disk := fst dr \<rparr>, Err e)
       | Ok _ \<Rightarrow>
           (if stio_done_open io
            then world \<lparr> sw_disk := fst dr, sw_done := sw_done world @ [(wf_queue_id w, wf_file_id w)] \<rparr>
            else world \<lparr> sw_disk := fst dr \<rparr>, Ok ()))"
    by (simp add: write_store_file_def dr_def t_def p_def split_beta Let_def split: result.split)
  ultimately show ?thesis
    using assms(2)
    by (cases dr; cases "snd dr") (auto simp: outcome_def store_file_bytes_def)
qed

section \<open>Persisting a file\<close>

text \<open>
  The situation of a worker that was given a completed file: on disk there is a WAL file of valid entries, with
  or without a torn rest. \<open>persisted\<close> says that the store file of the queue and identifier is complete: it reads back
  as the content of the WAL file, with and without verification.
\<close>

definition persistable ::
  "store_ext \<Rightarrow> string \<Rightarrow> disk \<Rightarrow> wal_file \<Rightarrow> wal_header \<Rightarrow> (uintn \<times> bytes) list \<Rightarrow> bytes \<Rightarrow> bool" where
  "persistable S root disk w h es tail \<longleftrightarrow>
     store_ext_ok S \<and> ubig_hex_ok (se_ext S) \<and> wal_header_readable (se_ext S) h \<and>
     list_all (entry_ok h) es \<and> stops (se_ext S) h tail \<and>
     length (wal_file_bytes (se_ext S) h es @ tail) < 2 ^ 63 \<and>
     disk (queue_id_to_wal_path (se_ext S) (wf_queue_id w) root (wf_file_id w)) =
       Some (wal_file_bytes (se_ext S) h es @ tail)"

definition persisted :: "store_ext \<Rightarrow> crypto_context \<Rightarrow> string \<Rightarrow> disk \<Rightarrow> wal_file \<Rightarrow> bytes \<Rightarrow> bool" where
  "persisted S ctx root disk w content \<longleftrightarrow>
     (\<exists>file. disk (queue_id_to_store_path (se_ext S) (wf_queue_id w) root (wf_file_id w)) = Some file \<and>
        (\<forall>verify. extract_wal_bytes S ctx (wf_queue_id w) (wf_file_id w) file verify = Ret (Ok content)))"

definition content_of :: "store_ext \<Rightarrow> wal_header \<Rightarrow> (uintn \<times> bytes) list \<Rightarrow> bytes \<Rightarrow> wal_content" where
  "content_of S h es tail =
     \<lparr> wc_entries_before = wh_num_entries_before h, wc_num_entries = uintn_from_u64 (of_nat (length es)),
       wc_content = wal_file_bytes (se_ext S) h es @ tail \<rparr>"

lemma content_of_sel [simp]:
  "wc_entries_before (content_of S h es tail) = wh_num_entries_before h"
  "wc_num_entries (content_of S h es tail) = uintn_from_u64 (of_nat (length es))"
  "wc_content (content_of S h es tail) = wal_file_bytes (se_ext S) h es @ tail"
  by (simp_all add: content_of_def)

lemma persistable_content:
  assumes "persistable S root disk w h es tail"
  shows "get_wal_file_content (se_ext S) (disk_fs disk) root (wf_queue_id w) (wf_file_id w) =
      Ret (Ok (content_of S h es tail))"
    and "wal_content_ok (se_ext S) (content_of S h es tail)"
proof -
  note p = assms [unfolded persistable_def store_ext_ok_def]
  have fs: "disk_fs disk (uintn_to_file_path (se_ext S) (wf_file_id w)
      (queue_id_to_wal_dir (wf_queue_id w) root) ''wal'') = Ok (wal_file_bytes (se_ext S) h es @ tail)"
    using p by (simp add: disk_fs_def queue_id_to_wal_path_def)
  have "get_wal_content (se_ext S) (disk_fs disk) (queue_id_to_wal_dir (wf_queue_id w) root) (wf_file_id w) =
      Ret (Ok (content_of S h es tail))"
    unfolding content_of_def using p by (intro get_wal_content_exact [where fs = "disk_fs disk"] fs) blast+
  then show "get_wal_file_content (se_ext S) (disk_fs disk) root (wf_queue_id w) (wf_file_id w) =
      Ret (Ok (content_of S h es tail))"
    by (simp add: get_wal_file_content_def)
  have "uintn_encodable (se_ext S) (wh_num_entries_before h)"
    using p by (simp add: wal_header_readable_def wal_header_ok_def)
  moreover have "uintn_encodable (se_ext S) (uintn_from_u64 (of_nat (length es)))"
    using size_from_u64 [of "se_ext S" "of_nat (length es)"] by (simp add: uintn_encodable_def)
  ultimately show "wal_content_ok (se_ext S) (content_of S h es tail)"
    by (simp add: wal_content_ok_def content_of_def)
qed

lemma persisted_written:
  assumes "persistable S root disk w h es tail"
    and "maybe_compress_and_encrypt S ctx (wal_file_bytes (se_ext S) h es @ tail) w = Ok data"
    and "disk' (queue_id_to_store_path (se_ext S) (wf_queue_id w) root (wf_file_id w)) =
      Some (store_file_bytes S ctx w (content_of S h es tail) data)"
  shows "persisted S ctx root disk' w (wal_file_bytes (se_ext S) h es @ tail)"
  using extract_wal_bytes_written [OF _ persistable_content(2) [OF assms(1)] assms(2)] assms(1,3)
  by (simp add: persisted_def persistable_def)

lemma uintn_sub_one:
  assumes "canonical a"
  obtains (pos) b where "uintn_sub a uintn_one = Ret (Ok b)" "uval b = uval a - 1" "canonical b" "0 < uval a"
    | (zero) "uintn_sub a uintn_one = Ret (Err DecrementUnderflow)" "uval a = 0"
proof (cases "uval a = 0")
  case True
  then have "uintn_sub a uintn_one = Ret (Err DecrementUnderflow)"
    by (intro uintn_sub_underflow canonical_imp_ok [OF assms]) simp
  then show thesis using True by (rule zero)
next
  case False
  then have "uval uintn_one \<le> uval a" by simp
  then obtain b where "uintn_sub a uintn_one = Ret (Ok b)" "uval b = uval a - uval uintn_one" "canonical b"
    by (rule uintn_sub_Ok) (use assms in blast)
  then show thesis using False by (intro pos [of b]) simp_all
qed

text \<open>What \<open>process_entry\<close> does once the content has been read and encoded.\<close>

lemma process_entry_eq:
  assumes "persistable S root (sw_disk world) w h es tail"
    and "maybe_compress_and_encrypt S ctx (wal_file_bytes (se_ext S) h es @ tail) w = Ok data"
  shows "process_entry S ctx root io world w =
    (case write_store_file S ctx root io world w (content_of S h es tail) data of
       (world, Err _) \<Rightarrow> Ret world
     | (world, Ok _) \<Rightarrow> do {
         last_id \<leftarrow> uintn_sub (uintn_add (wh_num_entries_before h) (uintn_from_u64 (of_nat (length es)))) uintn_one;
         Ret (case last_id of
             Err _ \<Rightarrow> world
           | Ok last_id \<Rightarrow> world
               \<lparr> sw_ranges := record_range (sw_ranges world) (wf_queue_id w) (wf_file_id w)
                     (wh_num_entries_before h) last_id,
                 sw_disk := fst (delete_wal_file (se_ext S) (stio_remove io) (sw_disk world) root
                     (wf_queue_id w) (wf_file_id w)) \<rparr>) })"
  using persistable_content(1) [OF assms(1)] assms(2)
  by (simp add: process_entry_def split_beta Let_def cong: result.case_cong)

lemma delete_wal_file_other:
  "p \<noteq> queue_id_to_wal_path X q root f \<Longrightarrow> fst (delete_wal_file X fails disk root q f) p = disk p"
  by (auto simp: delete_wal_file_def remove_file_def split: option.splits)

section \<open>The recorded range\<close>

text \<open>The first 256 bytes of a store file hold its header when the identifiers have at most 128 bits.\<close>

lemma read_range_written:
  assumes "store_ext_ok S" "wal_content_ok (se_ext S) c"
    and "uintn_size_in_bytes (se_ext S) (wc_entries_before c) \<le> 16"
    and "uintn_size_in_bytes (se_ext S) (wc_num_entries c) \<le> 16"
    and "fs (queue_id_to_store_path (se_ext S) q (rs_root rs) f) = Ok (store_file_bytes S (rs_crypto_ctx rs) w c data)"
  shows "read_range_from_fs S fs rs q f =
    (if uval (wc_num_entries c) = 0 then Ret (Ok None)
     else do {
       r \<leftarrow> uintn_sub (wc_num_entries c) uintn_one;
       Ret (case r of
           Err e \<Rightarrow> Err (Range_UintN e)
         | Ok n \<Rightarrow> Ok (Some (wc_entries_before c, uintn_add (wc_entries_before c) n))) })"
proof -
  let ?h = "store_file_header w c" and ?fa = "store_file_auth S (rs_crypto_ctx rs) w c data"
  have X: "ubig_bytes_ok (se_ext S)" "signature_ok (se_crypto S)" using assms(1) by (simp_all add: store_ext_ok_def)
  note fa = store_file_auth_sel [OF assms(1), of "rs_crypto_ctx rs" w c data]
  have len: "length (store_header_enc (se_ext S) ?h) \<le> 104"
    using assms(3,4) by (simp add: store_header_enc_eq [OF X(1)] uintn_enc_eq X(1))
  have "take 256 (store_file_bytes S (rs_crypto_ctx rs) w c data) =
      file_authentication_enc ?fa @ store_header_enc (se_ext S) ?h @
      take (104 - length (store_header_enc (se_ext S) ?h)) data"
    using len fa(1) by (simp add: store_file_bytes_eq)
  then show ?thesis
    using assms(2,5) fa X
    by (simp add: read_range_from_fs_def file_authentication_from_bytes_enc store_header_from_bytes_enc
        Let_def cong: result.case_cong)
qed

text \<open>The two ways to compute the last identifier of a file, from the sum and from the count, agree.\<close>

lemma last_entry_id:
  assumes "canonical before" "0 < n" "n < 2 ^ 64"
  obtains last_id k where
    "uintn_sub (uintn_add before (uintn_from_u64 (of_nat n))) uintn_one = Ret (Ok last_id)"
    "uval last_id + 1 = uval before + n"
    "uintn_sub (uintn_from_u64 (of_nat n)) uintn_one = Ret (Ok k)" "uintn_add before k = last_id"
proof -
  let ?num = "uintn_from_u64 (of_nat n)"
  have num: "uval ?num = n" using assms(3) by (simp add: unat_of_nat_word)
  have can: "canonical (uintn_add before ?num)" "canonical ?num" using assms(1) by (simp_all add: canonical_add)
  obtain last_id where l: "uintn_sub (uintn_add before ?num) uintn_one = Ret (Ok last_id)"
    "uval last_id = uval before + n - 1" "canonical last_id"
    by (rule uintn_sub_one [OF can(1)]) (use num assms(2) in auto)
  obtain k where k: "uintn_sub ?num uintn_one = Ret (Ok k)" "uval k = n - 1" "canonical k"
    by (rule uintn_sub_one [OF can(2)]) (use num assms(2) in auto)
  have "uintn_add before k = last_id"
    using l k assms(1,2) by (intro canonical_inj) (auto simp: canonical_add)
  then show thesis using that l k assms(2) by simp
qed

lemma length_entries_le: "length es \<le> length (entries_enc X h es)"
  by (induction es) (simp_all add: entry_enc_def wal_entry_header_enc_def)

definition io_fine :: "store_io \<Rightarrow> bool" where
  "io_fine io \<longleftrightarrow> (\<forall>p. stio_mkdir io p = Ok ()) \<and> (\<forall>p. stio_create io p = Ok ()) \<and> (\<forall>i. stio_write io i = Ok ()) \<and>
     stio_sync io = Ok () \<and> stio_rename io = Ok () \<and> (\<forall>p. stio_remove io p = None) \<and> stio_done_open io"

lemma write_store_file_fine:
  assumes "io_fine io"
  shows "snd (write_store_file S ctx root io world w c data) = Ok ()"
  using assms
  by (simp add: io_fine_def write_store_file_def disk_then_def create_file_def write_all_def rename_file_def
      split_beta Let_def)

text \<open>A worker that meets no failure, up to the range it records.\<close>

lemma process_entry_fine:
  assumes "persistable S root (sw_disk world) w h es tail" "io_fine io"
    and "maybe_compress_and_encrypt S ctx (wal_file_bytes (se_ext S) h es @ tail) w = Ok data"
  obtains world1 where "process_entry S ctx root io world w = do {
      last_id \<leftarrow> uintn_sub (uintn_add (wh_num_entries_before h) (uintn_from_u64 (of_nat (length es)))) uintn_one;
      Ret (case last_id of
          Err _ \<Rightarrow> world1
        | Ok last_id \<Rightarrow> world1
            \<lparr> sw_ranges := record_range (sw_ranges world) (wf_queue_id w) (wf_file_id w) (wh_num_entries_before h) last_id,
              sw_disk := (sw_disk world1)
                (queue_id_to_wal_path (se_ext S) (wf_queue_id w) root (wf_file_id w) := None) \<rparr>) }"
    "sw_disk world1 = ((sw_disk world)(temp_path io root := None))
       (queue_id_to_store_path (se_ext S) (wf_queue_id w) root (wf_file_id w) \<mapsto>
         store_file_bytes S ctx w (content_of S h es tail) data)"
    "sw_done world1 = sw_done world @ [(wf_queue_id w, wf_file_id w)]" "sw_ranges world1 = sw_ranges world"
proof -
  let ?wal = "queue_id_to_wal_path (se_ext S) (wf_queue_id w) root (wf_file_id w)"
  have hex: "ubig_hex_ok (se_ext S)" using assms(1) by (simp add: persistable_def)
  obtain world1 where ws: "write_store_file S ctx root io world w (content_of S h es tail) data = (world1, Ok ())"
    using write_store_file_fine [OF assms(2), of S ctx root world w "content_of S h es tail" data]
    by (metis prod.collapse)
  note out = write_store_file_outcome [OF hex ws, simplified]
  have "sw_disk world1 ?wal = sw_disk world ?wal"
    using out worker_paths_differ [OF hex] worker_paths_differ(2) [OF hex, THEN not_sym] by simp
  then have "fst (delete_wal_file (se_ext S) (stio_remove io) (sw_disk world1) root (wf_queue_id w) (wf_file_id w)) =
      (sw_disk world1)(?wal := None)"
    using assms(1,2) by (simp add: delete_wal_file_def remove_file_def io_fine_def persistable_def)
  then show thesis
    using that [of world1] out assms(2) by (simp add: process_entry_eq [OF assms(1,3)] ws io_fine_def cong: result.case_cong)
qed

section \<open>Properties\<close>

text \<open>
  C4. Persisting a file is crash safe. Whatever calls of the operating system fail or are
  interrupted, wherever a write stops, a worker that processes a WAL file ends without a panic in a state where
  the data is never lost: the WAL file is still there unchanged, or the store file is complete and
  reads back as its content. The store file is never partly written: it is what it was before or
  complete. No path but the WAL file, the store file and the temporary file has changed, and a
  completion is announced only for a complete store file.
\<close>

theorem store_worker_crash_safe:
  assumes "persistable S root (sw_disk world) w h es tail"
  shows "\<exists>world'. process_entry S ctx root io world w = Ret world' \<and>
    (let wal = queue_id_to_wal_path (se_ext S) (wf_queue_id w) root (wf_file_id w);
         store = queue_id_to_store_path (se_ext S) (wf_queue_id w) root (wf_file_id w);
         complete = persisted S ctx root (sw_disk world') w (wal_file_bytes (se_ext S) h es @ tail)
     in (sw_disk world' wal = sw_disk world wal \<or> complete) \<and>
        (sw_disk world' store = sw_disk world store \<or> complete) \<and>
        (\<forall>p. p \<notin> {wal, store, temp_path io root} \<longrightarrow> sw_disk world' p = sw_disk world p) \<and>
        (sw_done world' = sw_done world \<or> complete))"
proof (cases "maybe_compress_and_encrypt S ctx (wal_file_bytes (se_ext S) h es @ tail) w")
  case (Err e)
  then have "process_entry S ctx root io world w = Ret world"
    using persistable_content(1) [OF assms] by (simp add: process_entry_def)
  then show ?thesis by simp
next
  case (Ok data)
  obtain world1 r where ws: "write_store_file S ctx root io world w (content_of S h es tail) data = (world1, r)"
    by fastforce
  have hex: "ubig_hex_ok (se_ext S)" using assms by (simp add: persistable_def)
  note out = write_store_file_outcome [OF hex ws] 
    and paths = worker_paths_differ [OF hex] worker_paths_differ [OF hex, THEN not_sym]
  show ?thesis
  proof (cases r)
    case (Err e)
    then have "process_entry S ctx root io world w = Ret world1"
      using ws by (simp add: process_entry_eq [OF assms Ok])
    then show ?thesis using out Err paths by (auto simp: only_temp_def Let_def)
  next
    case r: (Ok u)
    let ?n = "uintn_add (wh_num_entries_before h) (uintn_from_u64 (of_nat (length es)))"
    have "canonical ?n"
      using assms by (simp add: canonical_add persistable_def wal_header_readable_def wal_header_ok_def uintn_encodable_def)
    then obtain last_id where sub: "uintn_sub ?n uintn_one = Ret last_id"
      by (rule uintn_sub_one) auto
    let ?del = "fst (delete_wal_file (se_ext S) (stio_remove io) (sw_disk world1) root (wf_queue_id w) (wf_file_id w))"
    have complete: "persisted S ctx root d w (wal_file_bytes (se_ext S) h es @ tail)"
      if "d (queue_id_to_store_path (se_ext S) (wf_queue_id w) root (wf_file_id w)) =
          Some (store_file_bytes S ctx w (content_of S h es tail) data)" for d
      using persisted_written [OF assms Ok, of d] that by blast
    have "persisted S ctx root (sw_disk world1) w (wal_file_bytes (se_ext S) h es @ tail)"
      "persisted S ctx root ?del w (wal_file_bytes (se_ext S) h es @ tail)"
      using out r paths by (auto intro!: complete simp: delete_wal_file_other)
    then show ?thesis
      using ws r out sub paths
      by (cases last_id) (auto simp: process_entry_eq [OF assms Ok] delete_wal_file_other Let_def)
  qed
qed

definition sample_disk :: disk where
  "sample_disk = [queue_id_to_wal_path ext_ref \<lparr> qid_path = ''/i/q'' \<rparr> ''/d'' (U8 1) \<mapsto>
     wal_file_bytes ext_ref wal_header_default sample_entries]"

definition sample_world :: store_world where
  "sample_world = \<lparr> sw_disk = sample_disk, sw_ranges = range_store_new ''/d'' sample_context True, sw_done = [] \<rparr>"

definition fine_io :: store_io where
  "fine_io = \<lparr> stio_mkdir = (\<lambda>_. Ok ()), stio_uuid = ''u'', stio_create = (\<lambda>_. Ok ()), stio_write = (\<lambda>_. Ok ()),
     stio_sync = Ok (), stio_rename = Ok (), stio_remove = (\<lambda>_. None), stio_done_open = True \<rparr>"

lemma length_sample_file:
  "length (wal_file_bytes ext_ref wal_header_default sample_entries) = 33 + 4 * 28 + 4"
proof -
  have v: "valid_sizes wal_header_default" by (simp add: valid_sizes_def wal_header_default_def)
  show ?thesis
    using length_entry_enc [OF ext_ref_ok(1) v] sample_entries_ok(1)
    by (simp add: wal_file_bytes_def wal_header_enc_eq uintn_enc_eq wal_header_default_def
        uintn_zero_def sample_entries_def wal_entry_header_size_def WAL_ENTRY_HEADER_FIXED_OVERHEAD_def)
qed

lemma sample_persistable:
  "persistable store_ext_ref ''/d'' (sw_disk sample_world) sample_wal_file wal_header_default sample_entries []"
proof -
  have "valid_sizes wal_header_default" by (simp add: valid_sizes_def wal_header_default_def)
  then have "stops ext_ref wal_header_default []" by (rule stops_Nil)
  then show ?thesis
    using default_header_readable sample_entries_ok length_sample_file store_ext_ref_ok
    by (simp add: persistable_def store_ext_ref_def sample_world_def sample_disk_def sample_wal_file_def)
qed

theorem store_worker_crash_safe_witness:
  "\<exists>world'. process_entry store_ext_ref sample_context ''/d'' (fine_io \<lparr> stio_rename := Err ''io'' \<rparr>)
       sample_world sample_wal_file = Ret world' \<and>
     (sw_disk world' (queue_id_to_wal_path ext_ref \<lparr> qid_path = ''/i/q'' \<rparr> ''/d'' (U8 1)) =
        sw_disk sample_world (queue_id_to_wal_path ext_ref \<lparr> qid_path = ''/i/q'' \<rparr> ''/d'' (U8 1)) \<or>
      persisted store_ext_ref sample_context ''/d'' (sw_disk world') sample_wal_file
        (wal_file_bytes ext_ref wal_header_default sample_entries))"
  using store_worker_crash_safe [OF sample_persistable, of sample_context "fine_io \<lparr> stio_rename := Err ''io'' \<rparr>"]
  by (auto simp: store_ext_ref_def sample_wal_file_def Let_def)


lemma sample_compresses:
  "\<exists>data. maybe_compress_and_encrypt store_ext_ref sample_context content sample_wal_file = Ok data"
  by (simp add: maybe_compress_and_encrypt_def sample_wal_file_def store_ext_ref_def compress_ref_def
      crypto_encrypt_def derive_rng_def crypto_ref_def Let_def)

lemma fine_io_fine [simp]: "io_fine fine_io"
  by (simp add: io_fine_def fine_io_def)


text \<open>
  C33. A WAL file without entries goes wrong although no call fails. When entries precede
  it, the range recorded in the cache ends before it starts, and differs from the answer for the
  same file once the cache is lost, which is that there is no range. When none does, the store file is
  written and announced, but the WAL file stays.
\<close>

theorem store_worker_empty_file:
  assumes "persistable S root (sw_disk world) w h [] tail" "io_fine io"
    and "maybe_compress_and_encrypt S ctx (wal_file_bytes (se_ext S) h [] @ tail) w = Ok data"
    and "uintn_size_in_bytes (se_ext S) (wh_num_entries_before h) \<le> 16"
    and "rs_root (sw_ranges world) = root" "rs_crypto_ctx (sw_ranges world) = ctx"
  shows "\<exists>world'. process_entry S ctx root io world w = Ret world' \<and>
    read_range_from_fs S (disk_fs (sw_disk world')) (sw_ranges world) (wf_queue_id w) (wf_file_id w) = Ret (Ok None) \<and>
    (if 0 < uval (wh_num_entries_before h)
     then \<exists>last_id. rs_ranges (sw_ranges world') (range_key (wf_queue_id w) (wf_file_id w)) =
            Some (wh_num_entries_before h, last_id) \<and> uval last_id < uval (wh_num_entries_before h)
     else sw_done world' = sw_done world @ [(wf_queue_id w, wf_file_id w)] \<and>
          sw_disk world' (queue_id_to_wal_path (se_ext S) (wf_queue_id w) root (wf_file_id w)) =
            Some (wal_file_bytes (se_ext S) h [] @ tail))"
proof -
  note p = assms(1) [unfolded persistable_def]
  let ?before = "wh_num_entries_before h"
  let ?store = "queue_id_to_store_path (se_ext S) (wf_queue_id w) root (wf_file_id w)"
  have before: "canonical (uintn_add ?before (uintn_from_u64 (of_nat (length ([] :: (uintn \<times> bytes) list)))))"
    and hex: "ubig_hex_ok (se_ext S)"
    using p by (simp_all add: wal_header_readable_def wal_header_ok_def uintn_encodable_def canonical_add)
  note paths = worker_paths_differ [OF hex] worker_paths_differ [OF hex, THEN not_sym]
  have none: "read_range_from_fs S (disk_fs d) (sw_ranges world) (wf_queue_id w) (wf_file_id w) = Ret (Ok None)"
    if "d ?store = Some (store_file_bytes S ctx w (content_of S h [] tail) data)" for d
    using p that assms(4-6) persistable_content(2) [OF assms(1)] size_from_u64 [of "se_ext S" 0]
    by (subst read_range_written [where c = "content_of S h [] tail" and data = data and w = w])
       (auto simp: disk_fs_def)
  from before show ?thesis
  proof (cases rule: uintn_sub_one)
    case (pos last_id)
    obtain world1 where w1: "process_entry S ctx root io world w = Ret (world1
        \<lparr> sw_ranges := record_range (sw_ranges world) (wf_queue_id w) (wf_file_id w) ?before last_id,
          sw_disk := (sw_disk world1)
            (queue_id_to_wal_path (se_ext S) (wf_queue_id w) root (wf_file_id w) := None) \<rparr>)"
      "sw_disk world1 = ((sw_disk world)(temp_path io root := None))
         (?store \<mapsto> store_file_bytes S ctx w (content_of S h [] tail) data)"
      by (rule process_entry_fine [OF assms(1-3)]) (simp add: pos(1) [simplified])
    have "uval last_id < uval ?before" "0 < uval ?before" using pos by auto
    then show ?thesis using w1 paths by (simp add: none record_range_def)
  next
    case zero
    obtain world1 where w1: "process_entry S ctx root io world w = Ret world1"
      "sw_disk world1 = ((sw_disk world)(temp_path io root := None))
         (?store \<mapsto> store_file_bytes S ctx w (content_of S h [] tail) data)"
      "sw_done world1 = sw_done world @ [(wf_queue_id w, wf_file_id w)]"
      by (rule process_entry_fine [OF assms(1-3)]) (simp add: zero(1) [simplified])
    have "\<not> 0 < uval ?before" using zero by simp
    then show ?thesis using w1 p paths by (simp add: none)
  qed
qed

lemma sample_empty_persistable:
  "persistable store_ext_ref ''/d''
     [queue_id_to_wal_path ext_ref \<lparr> qid_path = ''/i/q'' \<rparr> ''/d'' (U8 1) \<mapsto>
        wal_file_bytes ext_ref (wal_header_default \<lparr> wh_num_entries_before := U8 5 \<rparr>) []]
     sample_wal_file (wal_header_default \<lparr> wh_num_entries_before := U8 5 \<rparr>) [] []"
proof -
  let ?h = "wal_header_default \<lparr> wh_num_entries_before := U8 5 \<rparr>"
  have v: "valid_sizes ?h" by (simp add: valid_sizes_def wal_header_default_def)
  then have "stops ext_ref ?h []" by (rule stops_Nil)
  then show ?thesis
    using v store_ext_ref_ok
    by (simp add: persistable_def store_ext_ref_def sample_wal_file_def wal_file_bytes_def wal_header_enc_eq
        uintn_enc_eq wal_header_readable_def wal_header_ok_def uintn_encodable_def canonical_def)
qed

theorem store_worker_empty_file_witness:
  "\<exists>world' last_id. process_entry store_ext_ref sample_context ''/d'' fine_io
       (sample_world \<lparr> sw_disk := [queue_id_to_wal_path ext_ref \<lparr> qid_path = ''/i/q'' \<rparr> ''/d'' (U8 1) \<mapsto>
          wal_file_bytes ext_ref (wal_header_default \<lparr> wh_num_entries_before := U8 5 \<rparr>) []] \<rparr>)
       sample_wal_file = Ret world' \<and>
     rs_ranges (sw_ranges world') (range_key \<lparr> qid_path = ''/i/q'' \<rparr> (U8 1)) = Some (U8 5, last_id) \<and>
     uval last_id < 5"
proof -
  let ?h = "wal_header_default \<lparr> wh_num_entries_before := U8 5 \<rparr>"
  let ?world = "sample_world \<lparr> sw_disk := [queue_id_to_wal_path ext_ref \<lparr> qid_path = ''/i/q'' \<rparr> ''/d'' (U8 1) \<mapsto>
      wal_file_bytes ext_ref ?h []] \<rparr>"
  have p: "persistable store_ext_ref ''/d'' (sw_disk ?world) sample_wal_file ?h [] []"
    using sample_empty_persistable by simp
  obtain data where d: "maybe_compress_and_encrypt store_ext_ref sample_context
      (wal_file_bytes (se_ext store_ext_ref) ?h [] @ []) sample_wal_file = Ok data"
    using sample_compresses by blast
  show ?thesis
    using store_worker_empty_file [OF p fine_io_fine d]
    by (auto simp: sample_world_def range_store_new_def sample_wal_file_def)
qed

end
