(* ===== verification/Cloud_Store.thy ===== *)
theory Cloud_Store
  imports Persist_Store
begin

text \<open>
  The cloud (\<open>normfs-cloud/src\<close>): the client that talks to an S3 service (\<open>client.rs\<close>), the search for the first
  file of a queue (\<open>paths.rs\<close>), the cache of file ranges (\<open>cache.rs\<close>), the downloader
  (\<open>downloader.rs\<close>) and the offloader, which uploads store files (\<open>offloader.rs\<close>).

  The service and the HTTP library are the record \<open>s3_http\<close>: what a request answers in a state of the service
  and the state after it. An answer is a status with the header or body the client reads, or a failed
  request. \<open>s3_service_ok\<close> says what a service promises, over the objects it holds. Loops that
  retry for ever are partial functions: no result means that they never return. The messages of offload errors
  are only logged and are left out.
\<close>

section \<open>Client\<close>

datatype cloud_error =
    Cloud_Reqwest string
  | Cloud_Xml string
  | Cloud_UintN uintn_error
  | Cloud_NoFilesFound
  | Cloud_StoreHeader store_error
  | Cloud_Io string
  | Cloud_InvalidUrl string
  | Cloud_InvalidStatusCode u16

record list_objects_result =
  lo_contents :: "(string \<times> u64) list"
  lo_common_prefixes :: "string list"

record 'b s3_http =
  sh_put :: "'b \<Rightarrow> string \<Rightarrow> bytes \<Rightarrow> 'b \<times> (u16, string) result"
  sh_head :: "'b \<Rightarrow> string \<Rightarrow> 'b \<times> (u16 \<times> u64 option, string) result"
  sh_get :: "'b \<Rightarrow> string \<Rightarrow> (u64 \<times> u64 option) option \<Rightarrow> 'b \<times> (u16 \<times> (bytes, string) result, string) result"
  sh_list :: "'b \<Rightarrow> string \<Rightarrow> string option \<Rightarrow>
    'b \<times> (u16 \<times> (list_objects_result, cloud_error) result, string) result"

definition put_object :: "'b s3_http \<Rightarrow> 'b \<Rightarrow> string \<Rightarrow> bytes \<Rightarrow> 'b \<times> (u16, cloud_error) result" where
  "put_object H b key data = (let (b, r) = sh_put H b key data in (b, map_err Cloud_Reqwest r))"

definition head_object :: "'b s3_http \<Rightarrow> 'b \<Rightarrow> string \<Rightarrow> 'b \<times> (u64 option, cloud_error) result" where
  "head_object H b key =
     (case sh_head H b key of
        (b, Err e) \<Rightarrow> (b, Err (Cloud_Reqwest e))
      | (b, Ok (status, content_length)) \<Rightarrow>
          (b, if status = 404 \<or> status = 403 then Ok None
              else if status \<noteq> 200 then Err (Cloud_InvalidStatusCode status)
              else Ok content_length))"

definition object_bytes ::
  "'b \<times> (u16 \<times> (bytes, string) result, string) result \<Rightarrow> 'b \<times> (bytes option, cloud_error) result" where
  "object_bytes response =
     (case response of
        (b, Err e) \<Rightarrow> (b, Err (Cloud_Reqwest e))
      | (b, Ok (status, body)) \<Rightarrow>
          (b, if status = 404 then Ok None
              else if status \<noteq> 200 \<and> status \<noteq> 206 then Err (Cloud_InvalidStatusCode status)
              else (case body of Ok data \<Rightarrow> Ok (Some data) | Err e \<Rightarrow> Err (Cloud_Reqwest e))))"

definition get_object :: "'b s3_http \<Rightarrow> 'b \<Rightarrow> string \<Rightarrow> 'b \<times> (bytes option, cloud_error) result" where
  "get_object H b key = object_bytes (sh_get H b key None)"

definition get_object_range ::
  "'b s3_http \<Rightarrow> 'b \<Rightarrow> string \<Rightarrow> u64 \<Rightarrow> u64 option \<Rightarrow> 'b \<times> (bytes option, cloud_error) result" where
  "get_object_range H b key start end_pos = object_bytes (sh_get H b key (Some (start, end_pos)))"

definition list_objects ::
  "'b s3_http \<Rightarrow> 'b \<Rightarrow> string \<Rightarrow> string option \<Rightarrow> 'b \<times> (list_objects_result, cloud_error) result" where
  "list_objects H b prefix delimiter =
     (case sh_list H b prefix delimiter of
        (b, Err e) \<Rightarrow> (b, Err (Cloud_Reqwest e))
      | (b, Ok (status, parsed)) \<Rightarrow>
          (b, if status \<noteq> 200 then Err (Cloud_InvalidStatusCode status) else parsed))"

section \<open>The first file of a queue\<close>

definition trim_end_matches :: "char \<Rightarrow> string \<Rightarrow> string" where
  "trim_end_matches c s = rev (dropWhile (\<lambda>x. x = c) (rev s))"

definition cloud_path_to_id :: "ext \<Rightarrow> string \<Rightarrow> string \<Rightarrow> (uintn, cloud_error) result" where
  "cloud_path_to_id X path extension =
     (let hex_string = concat (map (\<lambda>component.
            case strip_suffix (''.'' @ extension) component of Some stripped \<Rightarrow> stripped | None \<Rightarrow> component)
            (split_slash path))
      in map_err Cloud_UintN (uintn_from_hex_digits X hex_string))"

definition relative_to :: "string \<Rightarrow> string \<Rightarrow> string" where
  "relative_to current_prefix key =
     trim_start_matches slash (case strip_prefix current_prefix key of Some r \<Rightarrow> r | None \<Rightarrow> key)"

definition offer_object ::
  "ext \<Rightarrow> string \<Rightarrow> string \<Rightarrow> string \<times> u64 \<Rightarrow> (string \<times> uintn) option \<Rightarrow> (string \<times> uintn) option" where
  "offer_object X current_prefix extension obj min_file =
     (let relative_key = relative_to current_prefix (fst obj) in
      if slash \<notin> set relative_key \<and> strip_suffix (''.'' @ extension) (fst obj) \<noteq> None
      then (case cloud_path_to_id X relative_key extension of
              Err _ \<Rightarrow> min_file
            | Ok i \<Rightarrow> (case min_file of
                Some (_, min_id) \<Rightarrow> if i < min_id then Some (relative_key, i) else min_file
              | None \<Rightarrow> Some (relative_key, i)))
      else min_file)"

definition hex_digits_for_min :: "char list" where
  "hex_digits_for_min = ''0123456789abcdef''"

text \<open>
  The loop over the digits stops at the first digit that is the name of a directory, whether or not there are
  files in that directory.
\<close>

fun digit_dir :: "string \<Rightarrow> string list \<Rightarrow> char list \<Rightarrow> (string \<times> string) option" where
  "digit_dir current_prefix common_prefixes [] = None"
| "digit_dir current_prefix common_prefixes (d # digits) =
     (case find (\<lambda>p. trim_end_matches slash (relative_to current_prefix p) = [d]) common_prefixes of
        Some p \<Rightarrow> Some ([d], p)
      | None \<Rightarrow> digit_dir current_prefix common_prefixes digits)"

partial_function (option) cloud_find_min_id_recursive ::
  "ext \<Rightarrow> 'b s3_http \<Rightarrow> 'b \<Rightarrow> string \<Rightarrow> string \<Rightarrow> ('b \<times> (string, cloud_error) result) run" where
  "cloud_find_min_id_recursive X H b current_prefix extension =
     (case list_objects H b current_prefix (Some ''/'') of
        (b, Err e) \<Rightarrow> Ret (b, Err e)
      | (b, Ok list_result) \<Rightarrow>
          (case fold (offer_object X current_prefix extension) (lo_contents list_result) None of
             Some (path, _) \<Rightarrow> Ret (b, Ok path)
           | None \<Rightarrow>
               (case digit_dir current_prefix (lo_common_prefixes list_result) hex_digits_for_min of
                  None \<Rightarrow> Ret (b, Err Cloud_NoFilesFound)
                | Some (hex_str, subdir_prefix) \<Rightarrow> do {
                    (b, r) \<leftarrow> cloud_find_min_id_recursive X H b subdir_prefix extension;
                    Ret (b, case r of
                           Ok sub_path \<Rightarrow> Ok (hex_str @ ''/'' @ sub_path)
                         | Err e \<Rightarrow> Err e) })))"

definition cloud_find_min_id ::
  "ext \<Rightarrow> 'b s3_http \<Rightarrow> 'b \<Rightarrow> string \<Rightarrow> string \<Rightarrow> ('b \<times> (uintn, cloud_error) result) run" where
  "cloud_find_min_id X H b prefix extension = do {
     (b, r) \<leftarrow> cloud_find_min_id_recursive X H b prefix extension;
     Ret (b, case r of Err e \<Rightarrow> Err e | Ok relative_path \<Rightarrow> cloud_path_to_id X relative_path extension) }"

section \<open>Ranges and downloads\<close>

definition read_range_from_s3 ::
  "ext \<Rightarrow> 'b s3_http \<Rightarrow> 'b \<Rightarrow> string \<Rightarrow> queue_id \<Rightarrow> uintn \<Rightarrow>
   ('b \<times> ((uintn \<times> uintn) option, cloud_error) result) run" where
  "read_range_from_s3 X H b base_prefix queue file_id =
     (case get_object_range H b (queue_id_to_cloud_key X queue base_prefix file_id) 0 (Some 127) of
        (b, Err e) \<Rightarrow> Ret (b, Err e)
      | (b, Ok None) \<Rightarrow> Ret (b, Ok None)
      | (b, Ok (Some header_bytes)) \<Rightarrow> do {
          r \<leftarrow> store_header_from_bytes X header_bytes;
          case r of
            Err e \<Rightarrow> Ret (b, Err (Cloud_StoreHeader (Store_Header e)))
          | Ok (header, _) \<Rightarrow>
              if uintn_is_zero (sh_num_entries header) then Ret (b, Ok None)
              else do {
                let first_id = sh_num_entries_before header;
                d \<leftarrow> uintn_sub (sh_num_entries header) uintn_one;
                Ret (b, case d of
                       Err e \<Rightarrow> Err (Cloud_UintN e)
                     | Ok num_entries_minus_one \<Rightarrow>
                         Ok (Some (first_id, uintn_add first_id num_entries_minus_one))) } })"

record cloud_downloader =
  cd_base_prefix :: string
  cd_ranges :: "string \<rightharpoonup> uintn \<times> uintn"

definition cloud_downloader_new :: "string \<Rightarrow> cloud_downloader" where
  "cloud_downloader_new prefix =
     \<lparr> cd_base_prefix = (if prefix = [] then [] else if last prefix = slash then prefix else prefix @ ''/''),
       cd_ranges = Map.empty \<rparr>"

definition cloud_range_key :: "queue_id \<Rightarrow> uintn \<Rightarrow> string" where
  "cloud_range_key queue file_id = qid_path queue @ ''-'' @ uintn_display file_id"

definition cloud_get_file_range ::
  "ext \<Rightarrow> 'b s3_http \<Rightarrow> 'b \<Rightarrow> cloud_downloader \<Rightarrow> queue_id \<Rightarrow> uintn \<Rightarrow>
   ('b \<times> cloud_downloader \<times> ((uintn \<times> uintn) option, cloud_error) result) run" where
  "cloud_get_file_range X H b self queue file_id =
     (case cd_ranges self (cloud_range_key queue file_id) of
        Some r \<Rightarrow> Ret (b, self, Ok (Some r))
      | None \<Rightarrow> do {
          (b, r) \<leftarrow> read_range_from_s3 X H b (cd_base_prefix self) queue file_id;
          Ret (b, case r of
                 Ok (Some r) \<Rightarrow> (self \<lparr> cd_ranges := (cd_ranges self)(cloud_range_key queue file_id \<mapsto> r) \<rparr>, Ok (Some r))
               | r \<Rightarrow> (self, r)) })"

definition cloud_record_range :: "cloud_downloader \<Rightarrow> queue_id \<Rightarrow> uintn \<Rightarrow> uintn \<Rightarrow> uintn \<Rightarrow> cloud_downloader" where
  "cloud_record_range self queue file_id first_id last_id =
     self \<lparr> cd_ranges := (cd_ranges self)(cloud_range_key queue file_id \<mapsto> (first_id, last_id)) \<rparr>"

definition downloader_find_min_id ::
  "ext \<Rightarrow> 'b s3_http \<Rightarrow> 'b \<Rightarrow> cloud_downloader \<Rightarrow> queue_id \<Rightarrow> ('b \<times> (uintn option, cloud_error) result) run" where
  "downloader_find_min_id X H b self queue = do {
     (b, r) \<leftarrow> cloud_find_min_id X H b (queue_id_to_cloud_queue_path queue (cd_base_prefix self)) ''store'';
     Ret (b, case r of
            Ok i \<Rightarrow> Ok (Some i)
          | Err Cloud_NoFilesFound \<Rightarrow> Ok None
          | Err e \<Rightarrow> Err e) }"

definition cloud_get_queue_start ::
  "ext \<Rightarrow> 'b s3_http \<Rightarrow> 'b \<Rightarrow> cloud_downloader \<Rightarrow> queue_id \<Rightarrow>
   ('b \<times> cloud_downloader \<times> (uintn option, cloud_error) result) run" where
  "cloud_get_queue_start X H b self queue = do {
     (b, r) \<leftarrow> downloader_find_min_id X H b self queue;
     case r of
       Err e \<Rightarrow> Ret (b, self, Err e)
     | Ok None \<Rightarrow> Ret (b, self, Ok None)
     | Ok (Some first_file_id) \<Rightarrow> do {
         (b, self, r) \<leftarrow> cloud_get_file_range X H b self queue first_file_id;
         Ret (b, self, case r of
                Ok (Some (first, _)) \<Rightarrow> Ok (Some first)
              | Ok None \<Rightarrow> Ok None
              | Err e \<Rightarrow> Err e) } }"

definition cloud_get_store_bytes ::
  "ext \<Rightarrow> 'b s3_http \<Rightarrow> 'b \<Rightarrow> cloud_downloader \<Rightarrow> queue_id \<Rightarrow> uintn \<Rightarrow> 'b \<times> (bytes option, cloud_error) result" where
  "cloud_get_store_bytes X H b self queue file_id =
     get_object H b (queue_id_to_cloud_key X queue (cd_base_prefix self) file_id)"

section \<open>Offloading\<close>

datatype offload_error = LocalFileError | RemoteError

datatype io_kind = Kind_NotFound | Kind_PermissionDenied | Kind_Other

fun offload_error_from :: "io_kind \<Rightarrow> offload_error" where
  "offload_error_from Kind_NotFound = LocalFileError"
| "offload_error_from Kind_PermissionDenied = LocalFileError"
| "offload_error_from Kind_Other = RemoteError"

text \<open>The local files: the length that \<open>metadata\<close> gives, which \<open>exists\<close> asks for too, and what reading gives.\<close>

record local_files =
  lf_len :: "string \<Rightarrow> (u64, io_kind) result"
  lf_read :: "string \<Rightarrow> (bytes, io_kind) result"

record queue_offloader_worker =
  ow_queue_id :: string
  ow_queue_path :: string
  ow_prefix :: string

definition offload_key :: "ext \<Rightarrow> queue_offloader_worker \<Rightarrow> uintn \<Rightarrow> string" where
  "offload_key X self file_id = ow_prefix self @ ''/'' @ uintn_to_file_path X file_id (ow_queue_id self) ''store''"

definition is_file_offloaded ::
  "ext \<Rightarrow> 'b s3_http \<Rightarrow> local_files \<Rightarrow> 'b \<Rightarrow> queue_offloader_worker \<Rightarrow> uintn \<Rightarrow> 'b \<times> (bool, offload_error) result" where
  "is_file_offloaded X H L b self file_id =
     (let local_path = uintn_to_file_path X file_id (ow_queue_path self) ''store'' in
      case lf_len L local_path of
        Err _ \<Rightarrow> (b, Err LocalFileError)
      | Ok local_size \<Rightarrow>
          (case head_object H b (offload_key X self file_id) of
             (b, Ok (Some s3_size)) \<Rightarrow> (b, Ok (local_size = s3_size))
           | (b, Ok None) \<Rightarrow> (b, Ok False)
           | (b, Err _) \<Rightarrow> (b, Err RemoteError)))"

definition upload_file ::
  "ext \<Rightarrow> 'b s3_http \<Rightarrow> local_files \<Rightarrow> 'b \<Rightarrow> queue_offloader_worker \<Rightarrow> uintn \<Rightarrow> 'b \<times> (unit, offload_error) result" where
  "upload_file X H L b self file_id =
     (let s3_key = offload_key X self file_id in
      case lf_read L (uintn_to_file_path X file_id (ow_queue_path self) ''store'') of
        Err e \<Rightarrow> (b, Err (offload_error_from e))
      | Ok file_data \<Rightarrow>
          (case put_object H b s3_key file_data of
             (b, Err _) \<Rightarrow> (b, Err RemoteError)
           | (b, Ok status_code) \<Rightarrow>
               if status_code \<noteq> 200 then (b, Err RemoteError)
               else (case head_object H b s3_key of
                       (b, Err _) \<Rightarrow> (b, Err RemoteError)
                     | (b, Ok None) \<Rightarrow> (b, Err RemoteError)
                     | (b, Ok (Some s3_size)) \<Rightarrow>
                         (b, if s3_size \<noteq> of_nat (length file_data) then Err RemoteError else Ok ()))))"

definition raise_latest :: "uintn option \<Rightarrow> uintn \<Rightarrow> uintn option" where
  "raise_latest latest file_id =
     (case latest of
        None \<Rightarrow> Some file_id
      | Some current \<Rightarrow> if file_id > current then Some file_id else latest)"

text \<open>The inner loop of the worker, for one file, and the worker over the files it receives.\<close>

partial_function (option) offload_file ::
  "ext \<Rightarrow> 'b s3_http \<Rightarrow> local_files \<Rightarrow> queue_offloader_worker \<Rightarrow> uintn \<Rightarrow> uintn option \<Rightarrow> 'b \<Rightarrow> ('b \<times> uintn option) run" where
  "offload_file X H L self file_id latest b =
     (case is_file_offloaded X H L b self file_id of
        (b, Err LocalFileError) \<Rightarrow> Ret (b, latest)
      | (b, Err RemoteError) \<Rightarrow> offload_file X H L self file_id latest b
      | (b, Ok offloaded) \<Rightarrow>
          if offloaded then Ret (b, raise_latest latest file_id)
          else (case upload_file X H L b self file_id of
                  (b, Ok _) \<Rightarrow> Ret (b, raise_latest latest file_id)
                | (b, Err LocalFileError) \<Rightarrow> Ret (b, latest)
                | (b, Err RemoteError) \<Rightarrow> offload_file X H L self file_id latest b))"

fun offload_worker ::
  "ext \<Rightarrow> 'b s3_http \<Rightarrow> local_files \<Rightarrow> queue_offloader_worker \<Rightarrow> uintn option \<Rightarrow> 'b \<Rightarrow> uintn list \<Rightarrow>
   ('b \<times> uintn option) run" where
  "offload_worker X H L self latest b [] = Ret (b, latest)"
| "offload_worker X H L self latest b (file_id # received) = do {
     (b, latest) \<leftarrow> offload_file X H L self file_id latest b;
     offload_worker X H L self latest b received }"

definition queue_offloader_worker_new :: "string \<Rightarrow> string \<Rightarrow> string \<Rightarrow> queue_offloader_worker" where
  "queue_offloader_worker_new queue_id root_path prefix =
     \<lparr> ow_queue_id = queue_id, ow_queue_path = path_push (path_push root_path queue_id) ''store'',
       ow_prefix = prefix \<rparr>"

text \<open>
  The files that are sent to the worker at the start: all that exist from the first to the last. The tree is the
  directory of the queue, if there is one.
\<close>

partial_function (option) init_loop :: "ext \<Rightarrow> local_files \<Rightarrow> string \<Rightarrow> uintn \<Rightarrow> uintn \<Rightarrow> uintn list run" where
  "init_loop X L queue_path max_id current_id = do {
     rest \<leftarrow> (if uintn_eq current_id max_id then Ret []
             else init_loop X L queue_path max_id (uintn_increment current_id));
     Ret (if is_ok (lf_len L (uintn_to_file_path X current_id queue_path ''store'')) then current_id # rest else rest) }"

definition initialize_upload_queue ::
  "ext \<Rightarrow> local_files \<Rightarrow> node option \<Rightarrow> string \<Rightarrow> (uintn list, path_error) result run" where
  "initialize_upload_queue X L tree queue_path =
     (if tree = None then Ret (Ok [])
      else case find_min_id X tree ''store'' of
        Err _ \<Rightarrow> Ret (Ok [])
      | Ok min_id \<Rightarrow>
          (case find_max_id X tree ''store'' of
             Err e \<Rightarrow> Ret (Err e)
           | Ok max_id \<Rightarrow> do {
               queued \<leftarrow> init_loop X L queue_path max_id min_id;
               Ret (Ok queued) }))"

section \<open>Uploads against a service that keeps its promises\<close>

text \<open>
  \<open>s3_service_ok\<close>: what an answer says about the objects of the service; an upload that fails may have happened. \<open>s3_healthy\<close>:
  no request fails.
\<close>

definition s3_service_ok :: "'b s3_http \<Rightarrow> ('b \<Rightarrow> string \<rightharpoonup> bytes) \<Rightarrow> bool" where
  "s3_service_ok H view \<longleftrightarrow>
     (\<forall>b k d b' r. sh_put H b k d = (b', r) \<longrightarrow>
        view b' = (view b)(k \<mapsto> d) \<or> (r \<noteq> Ok 200 \<and> view b' = view b)) \<and>
     (\<forall>b k b' r. sh_head H b k = (b', r) \<longrightarrow> view b' = view b \<and>
        (\<forall>n. r = Ok (200, Some n) \<longrightarrow> (\<exists>d. view b k = Some d \<and> unat n = length d))) \<and>
     (\<forall>b k b' r. sh_get H b k None = (b', r) \<longrightarrow> view b' = view b \<and>
        (\<forall>d. r = Ok (200, Ok d) \<longrightarrow> view b k = Some d))"

definition s3_healthy :: "'b s3_http \<Rightarrow> ('b \<Rightarrow> string \<rightharpoonup> bytes) \<Rightarrow> bool" where
  "s3_healthy H view \<longleftrightarrow>
     (\<forall>b k d. length d < 2 ^ 64 \<longrightarrow> snd (sh_put H b k d) = Ok 200) \<and>
     (\<forall>b k. view b k = None \<longrightarrow> snd (sh_head H b k) = Ok (404, None)) \<and>
     (\<forall>b k d. view b k = Some d \<longrightarrow> length d < 2 ^ 64 \<longrightarrow> (\<exists>n. snd (sh_head H b k) = Ok (200, Some n))) \<and>
     (\<forall>b k. view b k = None \<longrightarrow> snd (sh_get H b k None) = Ok (404, Ok []))"

definition objects_fit :: "(string \<rightharpoonup> bytes) \<Rightarrow> bool" where
  "objects_fit m \<longleftrightarrow> (\<forall>d \<in> ran m. length d < 2 ^ 64)"

definition local_file_ok :: "ext \<Rightarrow> local_files \<Rightarrow> queue_offloader_worker \<Rightarrow> uintn \<Rightarrow> bytes \<Rightarrow> bool" where
  "local_file_ok X L w f d \<longleftrightarrow>
     (let p = uintn_to_file_path X f (ow_queue_path w) ''store'' in
      lf_read L p = Ok d \<and> lf_len L p = Ok (of_nat (length d)) \<and> length d < 2 ^ 64)"

lemma head_object_healthy:
  assumes "s3_service_ok H view" "s3_healthy H view" "objects_fit (view b)"
  obtains b' n where "head_object H b k = (b', Ok n)" "view b' = view b"
    "map_option unat n = map_option length (view b k)"
proof -
  obtain b' r where h: "sh_head H b k = (b', r)" by fastforce
  then have v: "view b' = view b" using assms(1) unfolding s3_service_ok_def by blast
  show thesis
  proof (cases "view b k")
    case None
    then have "r = Ok (404, None)" using h assms(2) unfolding s3_healthy_def by (metis snd_conv)
    with that [of b' None] h v None show thesis by (simp add: head_object_def)
  next
    case (Some d)
    then have "length d < 2 ^ 64" using assms(3) by (auto simp: objects_fit_def ran_def)
    then obtain n where r: "r = Ok (200, Some n)"
      using h Some assms(2) unfolding s3_healthy_def by (metis snd_conv)
    then have "unat n = length d" using h assms(1) Some unfolding s3_service_ok_def by (metis option.inject)
    with that [of b' "Some n"] h v Some r show thesis by (simp add: head_object_def)
  qed
qed

lemma of_nat_unat_eq: "unat (m :: 'a::len word) = n \<Longrightarrow> of_nat n = m"
  by auto

lemma s3_service_put:
  assumes "s3_service_ok H view" "sh_put H b k d = (b', r)"
  shows "view b' = (view b)(k \<mapsto> d) \<or> (r \<noteq> Ok 200 \<and> view b' = view b)"
  using conjunct1 [OF assms(1) [unfolded s3_service_ok_def]] assms(2) by simp

lemma upload_file_healthy:
  assumes "s3_service_ok H view" "s3_healthy H view" "objects_fit (view b)" "local_file_ok X L w f d"
  obtains b' where "upload_file X H L b w f = (b', Ok ())" "view b' = (view b)(offload_key X w f \<mapsto> d)"
proof -
  let ?k = "offload_key X w f"
  have d: "length d < 2 ^ 64" using assms(4) by (simp add: local_file_ok_def Let_def)
  obtain b1 r where p: "sh_put H b ?k d = (b1, r)" by fastforce
  have "snd (sh_put H b ?k d) = Ok 200" using assms(2) d by (simp add: s3_healthy_def)
  then have r: "r = Ok 200" by (simp add: p)
  have v1: "view b1 = (view b)(?k \<mapsto> d)" using s3_service_put [OF assms(1) p] r by simp
  have "objects_fit (view b1)" using assms(3) d by (auto simp: objects_fit_def v1 ran_def)
  then obtain b2 n where h: "head_object H b1 ?k = (b2, Ok n)" "view b2 = view b1"
    "map_option unat n = map_option length (view b1 ?k)"
    by (rule head_object_healthy [OF assms(1,2)])
  then obtain m where n: "n = Some m" "unat m = length d" using v1 by auto
  have "m = of_nat (length d)" using of_nat_unat_eq [OF n(2)] by simp
  then have "upload_file X H L b w f = (b2, Ok ())"
    using assms(4) p r h(1) n(1) by (simp add: upload_file_def put_object_def local_file_ok_def Let_def)
  with that h(2) v1 show thesis by simp
qed

definition kept_object :: "bytes option \<Rightarrow> bytes \<Rightarrow> bytes" where
  "kept_object old d = (case old of Some obj \<Rightarrow> if length obj = length d then obj else d | None \<Rightarrow> d)"

lemma kept_object_simps [simp]:
  "length (kept_object old d) = length d"
  "kept_object (Some (kept_object old d)) d = kept_object old d"
  by (auto simp: kept_object_def split: option.splits)

lemma offload_file_healthy:
  assumes "s3_service_ok H view" "s3_healthy H view" "objects_fit (view b)" "local_file_ok X L w f d"
  obtains b' where "offload_file X H L w f latest b = Ret (b', raise_latest latest f)"
    "view b' = (view b)(offload_key X w f \<mapsto> kept_object (view b (offload_key X w f)) d)"
proof -
  let ?k = "offload_key X w f"
  obtain b1 n where h: "head_object H b ?k = (b1, Ok n)" "view b1 = view b"
    "map_option unat n = map_option length (view b ?k)"
    by (rule head_object_healthy [OF assms(1-3)])
  have len: "lf_len L (uintn_to_file_path X f (ow_queue_path w) ''store'') = Ok (of_nat (length d))" "length d < 2 ^ 64"
    using assms(4) by (simp_all add: local_file_ok_def Let_def)
  have off: "is_file_offloaded X H L b w f = (b1, Ok (map_option length (view b ?k) = Some (length d)))"
  proof (cases n)
    case (Some m)
    then obtain obj where obj: "view b ?k = Some obj" "unat m = length obj"
      using h(3) by (cases "view b ?k") auto
    have "unat (of_nat (length d) :: u64) = length d" using len(2) by (simp add: unat_of_nat_word)
    then have "of_nat (length d) = m \<longleftrightarrow> length obj = length d" using obj(2) of_nat_unat_eq by metis
    then show ?thesis using h(1) len(1) Some obj(1) by (simp add: is_file_offloaded_def Let_def)
  qed (use h len in \<open>simp add: is_file_offloaded_def Let_def\<close>)
  show thesis
  proof (cases "map_option length (view b ?k) = Some (length d)")
    case True
    with off have "is_file_offloaded X H L b w f = (b1, Ok True)" by metis
    then have "offload_file X H L w f latest b = Ret (b1, raise_latest latest f)" by (simp add: offload_file.simps)
    then show thesis by (rule that) (use h(2) True in \<open>auto simp: kept_object_def\<close>)
  next
    case False
    with off have off: "is_file_offloaded X H L b w f = (b1, Ok False)" by metis
    have "objects_fit (view b1)" using h(2) assms(3) by simp
    then obtain b2 where "upload_file X H L b1 w f = (b2, Ok ())" "view b2 = (view b1)(?k \<mapsto> d)"
      using upload_file_healthy [OF assms(1,2) _ assms(4), of b1] by blast
    then have "offload_file X H L w f latest b = Ret (b2, raise_latest latest f)"
      "view b2 = (view b)(?k \<mapsto> d)"
      using off h(2) by (simp_all add: offload_file.simps)
    moreover have "kept_object (view b ?k) d = d" using False by (auto simp: kept_object_def split: option.splits)
    ultimately show thesis using that [of b2] by simp
  qed
qed

lemma raise_latest_ge:
  "\<exists>m. raise_latest latest f = Some m \<and> uval f \<le> uval m \<and> (\<forall>l. latest = Some l \<longrightarrow> uval l \<le> uval m)"
  by (auto simp: raise_latest_def split: option.splits)

lemma offload_key_same:
  "ubig_hex_ok X \<Longrightarrow> offload_key X w f = offload_key X w g \<Longrightarrow> uval f = uval g"
  using to_file_path_same [of X "''store''" f "ow_queue_id w" g] by (simp add: offload_key_def)

lemma to_file_path_base:
  assumes "ubig_hex_ok X" "slash \<notin> set extension" "base \<noteq> []" "last base \<noteq> slash"
  shows "uintn_to_file_path X u base extension = base @ slash # uintn_to_file_path X u [] extension"
proof -
  have push: "path_push (base @ slash # p) w = base @ slash # path_push p w" if "plain_name w" for p w
    using that by (auto simp: path_push_def plain_name_def dest: hd_in_set)
  have first: "path_push base w = base @ slash # path_push [] w" if "plain_name w" for w
    using that assms(3,4) by (auto simp: path_push_def plain_name_def dest: hd_in_set)
  have fold: "list_all plain_name ws \<Longrightarrow> foldl path_push (base @ slash # p) ws = base @ slash # foldl path_push p ws" for p ws
    by (induction ws arbitrary: p) (simp_all add: push)
  let ?ws = "chunks3 (padded_hex (uval u))"
  have "foldl path_push base (butlast ?ws) =
      (if butlast ?ws = [] then base else base @ slash # foldl path_push [] (butlast ?ws))"
    using chunks_plain [of "uval u"] by (cases "butlast ?ws") (simp_all add: first fold)
  then show ?thesis
    using last_chunk_plain [OF assms(2), of "uval u"]
    by (simp add: uintn_to_file_path_eq [OF assms(1)] push first)
qed

text \<open>What the worker leaves in the service, file by file.\<close>

definition offload_view :: "ext \<Rightarrow> queue_offloader_worker \<Rightarrow> (nat \<Rightarrow> bytes) \<Rightarrow> uintn \<Rightarrow> (string \<rightharpoonup> bytes) \<Rightarrow> (string \<rightharpoonup> bytes)" where
  "offload_view X w content f m = m(offload_key X w f \<mapsto> kept_object (m (offload_key X w f)) (content (uval f)))"

lemma offload_view_other: "key \<notin> offload_key X w ` set fs \<Longrightarrow> fold (offload_view X w content) fs m key = m key"
  by (induction fs arbitrary: m) (auto simp: offload_view_def)

lemma offload_view_in:
  assumes "ubig_hex_ok X"
  shows "\<exists>g \<in> set fs. offload_key X w g = offload_key X w f \<Longrightarrow>
    fold (offload_view X w content) fs m (offload_key X w f) =
    Some (kept_object (m (offload_key X w f)) (content (uval f)))"
proof (induction fs arbitrary: m)
  case (Cons g fs)
  let ?k = "offload_key X w f" and ?m = "offload_view X w content g m"
  have g: "?m ?k = (if offload_key X w g = ?k then Some (kept_object (m ?k) (content (uval f))) else m ?k)"
    using offload_key_same [OF assms, of w g f] by (auto simp: offload_view_def)
  show ?case
  proof (cases "\<exists>h \<in> set fs. offload_key X w h = ?k")
    case True
    then show ?thesis using Cons.IH [OF True, of ?m] g by simp
  next
    case False
    then have "?k \<notin> offload_key X w ` set fs" "offload_key X w g = ?k" using Cons.prems by (auto simp: image_iff)
    then show ?thesis using offload_view_other [of ?k X w fs content ?m] g by simp
  qed
qed simp

lemma offload_worker_healthy:
  assumes "s3_service_ok H view" "s3_healthy H view" "objects_fit (view b)"
    and "\<forall>f \<in> set received. local_file_ok X L w f (content (uval f))"
  shows "\<exists>b'. offload_worker X H L w latest b received = Ret (b', fold (\<lambda>f l. raise_latest l f) received latest) \<and>
    view b' = fold (offload_view X w content) received (view b)"
  using assms(3,4)
proof (induction received arbitrary: b latest)
  case (Cons f fs)
  then have loc: "local_file_ok X L w f (content (uval f))" by simp
  obtain b1 where b1: "offload_file X H L w f latest b = Ret (b1, raise_latest latest f)"
    "view b1 = offload_view X w content f (view b)"
    unfolding offload_view_def by (rule offload_file_healthy [OF assms(1,2) Cons.prems(1) loc])
  have "objects_fit (view b1)"
    using Cons.prems(1) loc
    by (auto simp: b1(2) offload_view_def objects_fit_def ran_def local_file_ok_def Let_def)
  from Cons.IH [OF this, of "raise_latest latest f"] Cons.prems(2) b1 show ?case by simp
qed simp

lemma fold_raise_latest:
  "f \<in> set fs \<or> l = Some f \<Longrightarrow> \<exists>m. fold (\<lambda>f l. raise_latest l f) fs l = Some m \<and> uval f \<le> uval m"
proof (induction fs arbitrary: l f)
  case (Cons g fs)
  obtain m where m: "raise_latest l g = Some m" "uval g \<le> uval m" "\<And>x. l = Some x \<Longrightarrow> uval x \<le> uval m"
    using raise_latest_ge [of l g] by blast
  show ?case
  proof (cases "f \<in> set fs")
    case False
    then have "uval f \<le> uval m" using Cons.prems m by auto
    with Cons.IH [of m "Some m"] m(1) show ?thesis by (auto intro: order_trans)
  qed (use Cons.IH [of f "raise_latest l g"] in simp)
qed simp

definition full_cloud_prefix :: "string \<Rightarrow> string \<Rightarrow> string" where
  "full_cloud_prefix prefix instance_id =
     (if prefix = [] then instance_id else prefix @ ''/'' @ instance_id)"

text \<open>The key of an upload and the key of a download of a queue with a relative path.\<close>

lemma offload_key_mismatch:
  assumes "ubig_hex_ok X" "path \<noteq> []" "hd path \<noteq> slash" "inst \<noteq> []" "hd inst \<noteq> slash"
  defines "q \<equiv> queue_id_resolver_resolve (queue_id_resolver_new inst) path"
  shows "offload_key X (queue_offloader_worker_new (qid_path q) root (full_cloud_prefix prefix inst)) f \<noteq>
    queue_id_to_cloud_key X q (cd_base_prefix (cloud_downloader_new prefix)) g"
proof -
  have q: "qid_path q = slash # inst @ slash # path"
    using assms(2,3) by (simp add: q_def queue_id_resolver_resolve_def queue_id_resolver_new_def)
  obtain rest where "uintn_to_file_path X f (qid_path q) ''store'' = qid_path q @ rest"
    using to_file_path_below [OF assms(1), of "''store''" f "qid_path q"] by auto
  moreover have "trim_start_matches slash (qid_path q) = inst @ slash # path"
    using assms(4,5) by (cases inst) (simp_all add: q trim_start_matches_def)
  ultimately show ?thesis
    using assms(2-5)
    by (cases inst; cases path)
       (auto simp: offload_key_def queue_offloader_worker_new_def full_cloud_prefix_def cloud_downloader_new_def
        queue_id_to_cloud_key_def q Let_def)
qed

section \<open>Properties\<close>


definition s3_ref :: "(string \<rightharpoonup> bytes) s3_http" where
  "s3_ref = \<lparr>
     sh_put = (\<lambda>m k d. (m(k \<mapsto> d), Ok 200)),
     sh_head = (\<lambda>m k. (m, case m k of
        None \<Rightarrow> Ok (404, None)
      | Some d \<Rightarrow> Ok (200, if length d < 2 ^ 64 then Some (of_nat (length d)) else None))),
     sh_get = (\<lambda>m k r. (m, case m k of
        None \<Rightarrow> Ok (404, Ok [])
      | Some d \<Rightarrow> (case r of
          None \<Rightarrow> Ok (200, Ok d)
        | Some (a, None) \<Rightarrow> Ok (206, Ok (drop (unat a) d))
        | Some (a, Some e) \<Rightarrow> Ok (206, Ok (drop (unat a) (take (unat e + 1) d)))))),
     sh_list = (\<lambda>m _ _. (m, Ok (200, Ok \<lparr> lo_contents = [], lo_common_prefixes = [] \<rparr>))) \<rparr>"

lemma s3_ref_ok: "s3_service_ok s3_ref (\<lambda>m. m)" "s3_healthy s3_ref (\<lambda>m. m)"
  by (auto simp: s3_service_ok_def s3_healthy_def s3_ref_def unat_of_nat_word split: option.splits if_splits)

definition sample_local :: local_files where
  "sample_local = \<lparr> lf_len = (\<lambda>_. Ok 3), lf_read = (\<lambda>_. Ok [1, 2, 3]) \<rparr>"


text \<open>
  C36. What the offloader uploads the downloader does not find. For a queue with a relative path, the key under which
  a file is uploaded contains the instance identifier twice and an empty component; the downloader asks
  for the key with the queue path alone. So from a service that was empty before, every download of a file of
  the queue is answered with not found after all files have been uploaded.
\<close>

theorem offloaded_file_not_found:
  assumes "s3_service_ok H view" "s3_healthy H view" "ubig_hex_ok X" "view b = Map.empty"
    and "path \<noteq> []" "hd path \<noteq> slash" "inst \<noteq> []" "hd inst \<noteq> slash"
    and "q = queue_id_resolver_resolve (queue_id_resolver_new inst) path"
    and "w = queue_offloader_worker_new (qid_path q) root (full_cloud_prefix prefix inst)"
    and "\<forall>f \<in> set received. local_file_ok X L w f (content (uval f))"
  shows "\<exists>b' latest. offload_worker X H L w None b received = Ret (b', latest) \<and>
    snd (cloud_get_store_bytes X H b' (cloud_downloader_new prefix) q g) = Ok None"
proof -
  let ?key = "queue_id_to_cloud_key X q (cd_base_prefix (cloud_downloader_new prefix)) g"
  have "objects_fit (view b)" by (simp add: assms(4) objects_fit_def)
  from offload_worker_healthy [OF assms(1,2) this assms(11)]
  obtain b' latest where b': "offload_worker X H L w None b received = Ret (b', latest)"
    "view b' = fold (offload_view X w content) received (view b)" by blast
  have "?key \<notin> offload_key X w ` set received"
    using offload_key_mismatch [OF assms(3,5-8), of root prefix _ g] unfolding assms(9,10) by (metis imageE)
  then have "view b' ?key = None" using offload_view_other [of ?key] by (simp add: b'(2) assms(4))
  then have "snd (sh_get H b' ?key None) = Ok (404, Ok [])" using assms(2) by (simp add: s3_healthy_def)
  then have "snd (cloud_get_store_bytes X H b' (cloud_downloader_new prefix) q g) = Ok None"
    by (cases "sh_get H b' ?key None") (simp add: cloud_get_store_bytes_def get_object_def object_bytes_def)
  with b'(1) show ?thesis by blast
qed

theorem offloaded_file_not_found_witness:
  "\<exists>b' latest. offload_worker ext_ref s3_ref sample_local
       (queue_offloader_worker_new ''/1f/q'' ''/d'' (full_cloud_prefix ''p'' ''1f'')) None Map.empty [U8 2] = Ret (b', latest) \<and>
     snd (cloud_get_store_bytes ext_ref s3_ref b' (cloud_downloader_new ''p'') \<lparr> qid_path = ''/1f/q'' \<rparr> (U8 2)) = Ok None"
proof -
  have q: "\<lparr> qid_path = ''/1f/q'' \<rparr> = queue_id_resolver_resolve (queue_id_resolver_new ''1f'') ''q''"
    by (simp add: queue_id_resolver_resolve_def queue_id_resolver_new_def)
  show ?thesis
    by (rule offloaded_file_not_found [OF s3_ref_ok _ _ _ _ _ _ q, where content = "\<lambda>_. [1, 2, 3]"])
       (simp_all add: local_file_ok_def sample_local_def)
qed

text \<open>
  C37. The cloud range of a file written by the store is not found: the first 128 bytes belong to the
  authentication block, which is parsed as a store header. The signature is taken for the encryption tag, so
  unless its first eight bytes happen to encode a tag, the answer is an error, and the
  lookup of an entry that is only in the cloud depends on it.
\<close>

theorem cloud_range_unreadable:
  assumes "store_ext_ok S"
    and "sh_get H b (queue_id_to_cloud_key (se_ext S) q prefix f) (Some (0, Some 127)) =
         (b', Ok (206, Ok (take 128 (store_file_bytes S ctx w c data))))"
    and "tag = u64_from_le_bytes (take 8 (fa_header_signature (store_file_auth S ctx w c data)))" "1 < tag"
  shows "read_range_from_s3 (se_ext S) H b prefix q f =
    Ret (b', Err (Cloud_StoreHeader (Store_Header (UnsupportedEncryption tag))))"
proof -
  let ?auth = "store_file_auth S ctx w c data"
  have sig: "length (fa_header_signature ?auth) = 64" "fa_version ?auth = AuthV0" "fa_header_signature_type ?auth = Ed25519"
    using assms(1) by (simp_all add: store_file_auth_def file_authentication_new_def store_ext_ok_def
        split: prod.splits)
  obtain rest where bytes: "take 128 (store_file_bytes S ctx w c data) =
      u64_to_le_bytes 0 @ u64_to_le_bytes 0 @ fa_header_signature ?auth @ rest"
    using sig by (simp add: store_file_bytes_def file_authentication_write_to_bytes_def Let_def)
  have "tag \<noteq> 0" "tag \<noteq> 1" using assms(4) by auto
  then have "store_header_from_bytes (se_ext S) (take 128 (store_file_bytes S ctx w c data)) =
      Ret (Err (UnsupportedEncryption tag))"
    using sig(1) assms(3)
    by (simp add: bytes store_header_from_bytes_def store_header_version_try_from_def compression_type_from_u64_def
        compression_type_try_from_def encryption_type_from_u64_def encryption_type_try_from_def)
  then show ?thesis
    using assms(2) by (simp add: read_range_from_s3_def get_object_range_def object_bytes_def)
qed

definition signing_ext :: store_ext where
  "signing_ext = store_ext_ref \<lparr> se_crypto := crypto_ref \<lparr>
     ed25519_sign := (\<lambda>_ _. replicate 64 9), ed25519_verify := (\<lambda>_ _ sig. sig = replicate 64 9) \<rparr> \<rparr>"

lemma signature_tag: "1 < u64_from_le_bytes (replicate 8 9)"
proof -
  have n: "256 ^ 7 * 9 \<le> le_nat (replicate 8 9)" "le_nat (replicate 8 9) < 2 ^ 64"
    using le_nat_append [of "replicate 7 9" "[9]"] le_nat_bound [of "replicate 8 9"]
      replicate_add [of 7 1 "9 :: u8"] by simp_all
  then have "unat (u64_from_le_bytes (replicate 8 9)) = le_nat (replicate 8 9)"
    unfolding u64_from_le_bytes_def by (intro unat_of_nat_word) simp
  with n(1) show ?thesis by (simp add: word_less_nat_alt)
qed

theorem cloud_range_unreadable_witness:
  "\<exists>b' tag. read_range_from_s3 ext_ref s3_ref
       [queue_id_to_cloud_key ext_ref \<lparr> qid_path = ''/i/q'' \<rparr> ''p/'' (U8 1) \<mapsto>
          store_file_bytes signing_ext sample_context sample_wal_file sample_wal_content []] ''p/'' \<lparr> qid_path = ''/i/q'' \<rparr> (U8 1) =
     Ret (b', Err (Cloud_StoreHeader (Store_Header (UnsupportedEncryption tag))))"
proof -
  let ?file = "store_file_bytes signing_ext sample_context sample_wal_file sample_wal_content []"
  let ?key = "queue_id_to_cloud_key ext_ref \<lparr> qid_path = ''/i/q'' \<rparr> ''p/'' (U8 1)"
  have S: "se_ext signing_ext = ext_ref" "store_ext_ok signing_ext"
    by (simp_all add: signing_ext_def store_ext_ref_def store_ext_ok_def cipher_ok_def signature_ok_def crypto_ref_def comp_def)
  have get: "sh_get s3_ref [?key \<mapsto> ?file] (queue_id_to_cloud_key (se_ext signing_ext) \<lparr> qid_path = ''/i/q'' \<rparr> ''p/'' (U8 1))
      (Some (0, Some 127)) = ([?key \<mapsto> ?file], Ok (206, Ok (take 128 ?file)))"
    by (simp add: s3_ref_def S)
  have "fa_header_signature (store_file_auth signing_ext sample_context sample_wal_file sample_wal_content []) = replicate 64 9"
    by (simp add: store_file_auth_def file_authentication_new_def crypto_sign_def signing_ext_def split: prod.splits)
  moreover have "1 < u64_from_le_bytes (take 8 (replicate 64 9))" using signature_tag by simp
  ultimately have "1 < u64_from_le_bytes (take 8 (fa_header_signature
      (store_file_auth signing_ext sample_context sample_wal_file sample_wal_content [])))" by simp
  from cloud_range_unreadable [OF S(2) get refl this] show ?thesis unfolding S by blast
qed

text \<open>
  C38. The search for the first file in the cloud does not see directories: an identifier of more than three
  hexadecimal digits is stored in directories with names of three digits, but the search looks for directories
  with names of one digit. So it reports that there are no files.
\<close>

theorem cloud_find_min_misses_directories:
  assumes "sh_list H b (queue_id_to_cloud_queue_path q (cd_base_prefix d)) (Some ''/'') =
      (b', Ok (200, Ok \<lparr> lo_contents = [],
        lo_common_prefixes = map (\<lambda>name. queue_id_to_cloud_queue_path q (cd_base_prefix d) @ name @ ''/'') names \<rparr>))"
    and "\<forall>name \<in> set names. length name = 3 \<and> slash \<notin> set name"
  shows "downloader_find_min_id X H b d q = Ret (b', Ok None)"
proof -
  let ?p = "queue_id_to_cloud_queue_path q (cd_base_prefix d)"
  have name: "trim_end_matches slash (relative_to ?p (?p @ name @ ''/'')) = name"
    if "name \<in> set names" for name
  proof -
    have "name \<noteq> []" "slash \<notin> set name" using assms(2) that by force+
    then have n: "name \<noteq> []" "hd name \<noteq> slash" "last name \<noteq> slash" using hd_in_set last_in_set by metis+
    then have "dropWhile (\<lambda>x. x = slash) (name @ ''/'') = name @ ''/''" "dropWhile (\<lambda>x. x = slash) (rev name) = rev name"
      by (cases name, simp_all) (cases name rule: rev_cases, simp_all)
    then show ?thesis by (simp add: relative_to_def trim_start_matches_def trim_end_matches_def)
  qed
  have "digit_dir ?p (map (\<lambda>name. ?p @ name @ ''/'') names) ds = None" for ds
    using assms(2) by (induction ds) (auto simp: find_None_iff name split: option.splits)
  then show ?thesis
    using assms(1)
    by (simp add: downloader_find_min_id_def cloud_find_min_id_def cloud_find_min_id_recursive.simps [of X H b ?p]
        list_objects_def)
qed

theorem cloud_find_min_misses_directories_witness:
  "downloader_find_min_id ext_ref (s3_ref \<lparr> sh_list := (\<lambda>b _ _. (b, Ok (200, Ok \<lparr> lo_contents = [],
       lo_common_prefixes = [''p/i/q/001/'', ''p/i/q/002/''] \<rparr>))) \<rparr>) Map.empty (cloud_downloader_new ''p'') \<lparr> qid_path = ''/i/q'' \<rparr> =
   Ret (Map.empty, Ok None)"
  by (rule cloud_find_min_misses_directories [where names = "[''001'', ''002'']"])
     (simp_all add: queue_id_to_cloud_queue_path_def trim_start_matches_def cloud_downloader_new_def)

end
