(* ===== verification/Config.thy ===== *)
theory Config
  imports Cloud_Store
begin

text \<open>
  The settings of an instance and of its queues (\<open>normfs/src/config.rs\<close>, \<open>NormFsSettings\<close> of \<open>normfs/src/lib.rs\<close>)
  and the error type of the engine. The glob patterns are compiled by a third-party crate: its
  compiler is the argument \<open>glob\<close>, which yields a matcher or an error.
\<close>

datatype normfs_error =
    Error_Wal wal_error
  | Error_Store store_error
  | Error_Cloud cloud_error
  | Error_Io string
  | QueueNotFound
  | QueueEmpty
  | Error_NotFound
  | ClientDisconnected

record queue_config =
  qc_compression_type :: compression_type
  qc_enable_fsync :: bool
  qc_encryption_type :: encryption_type

definition queue_config_default :: queue_config where
  "queue_config_default = \<lparr> qc_compression_type = Zstd, qc_enable_fsync = True, qc_encryption_type = Aes \<rparr>"

record queue_settings =
  qs_rules :: "((string \<Rightarrow> bool) \<times> queue_config) list"
  qs_default_config :: queue_config

fun compile_rules ::
  "(string \<Rightarrow> (string \<Rightarrow> bool, 'e) result) \<Rightarrow> (string \<times> queue_config) list \<Rightarrow>
   (((string \<Rightarrow> bool) \<times> queue_config) list, 'e) result" where
  "compile_rules glob [] = Ok []"
| "compile_rules glob ((pat, config) # patterns) =
     (case glob pat of
        Err e \<Rightarrow> Err e
      | Ok matcher \<Rightarrow>
          (case compile_rules glob patterns of Err e \<Rightarrow> Err e | Ok rules \<Rightarrow> Ok ((matcher, config) # rules)))"

definition queue_settings_new ::
  "(string \<Rightarrow> (string \<Rightarrow> bool, 'e) result) \<Rightarrow> (string \<times> queue_config) list \<Rightarrow> queue_config \<Rightarrow> (queue_settings, 'e) result" where
  "queue_settings_new glob patterns default_config =
     (case compile_rules glob patterns of
        Err e \<Rightarrow> Err e
      | Ok rules \<Rightarrow> Ok \<lparr> qs_rules = rules, qs_default_config = default_config \<rparr>)"

definition queue_settings_default :: queue_settings where
  "queue_settings_default = \<lparr> qs_rules = [], qs_default_config = queue_config_default \<rparr>"

definition get_config :: "queue_settings \<Rightarrow> string \<Rightarrow> queue_config" where
  "get_config self queue_path =
     (case find (\<lambda>(matcher, _). matcher queue_path) (qs_rules self) of
        Some (_, config) \<Rightarrow> config
      | None \<Rightarrow> qs_default_config self)"

record normfs_settings =
  ns_store_cfg :: store_write_config
  ns_max_memory_usage :: usize
  ns_wal_settings :: wal_settings
  ns_max_disk_usage_per_queue :: "u64 option"
  ns_cloud_prefix :: "string option"
  ns_queue_settings :: queue_settings

definition normfs_settings_default :: normfs_settings where
  "normfs_settings_default =
     \<lparr> ns_store_cfg = store_write_config_default, ns_max_memory_usage = 256 * 1024 * 1024,
       ns_wal_settings = wal_settings_default, ns_max_disk_usage_per_queue = None, ns_cloud_prefix = None,
       ns_queue_settings = queue_settings_default \<rparr>"

text \<open>
  The configuration of a queue is the one of the first pattern, in the order of the list, that matches its path,
  and the default when none does; compiling fails exactly when some pattern is not a glob.
\<close>

lemma get_config_first_match:
  assumes "\<And>p. p \<in> set (map fst patterns) \<Longrightarrow> glob p = Ok (match p)"
  shows "\<exists>qs. queue_settings_new glob patterns d = Ok qs \<and>
    get_config qs path = (case find (\<lambda>(p, _). match p path) patterns of Some (_, c) \<Rightarrow> c | None \<Rightarrow> d)"
proof -
  have "\<exists>rules. compile_rules glob patterns = Ok rules \<and>
      map_option snd (find (\<lambda>(m, _). m path) rules) = map_option snd (find (\<lambda>(p, _). match p path) patterns)"
    using assms by (induction patterns) fastforce+
  then obtain rules where r: "compile_rules glob patterns = Ok rules"
    "map_option snd (find (\<lambda>(m, _). m path) rules) = map_option snd (find (\<lambda>(p, _). match p path) patterns)" by blast
  then show ?thesis
    by (cases "find (\<lambda>(m, _). m path) rules"; cases "find (\<lambda>(p, _). match p path) patterns")
       (auto simp: queue_settings_new_def get_config_def)
qed

end
