(* ===== verification/Disk_Monitor.thy ===== *)
theory Disk_Monitor
  imports Config
begin

text \<open>
  The disk monitor (\<open>normfs/src/offload/disk_monitor.rs\<close>): it measures the directories of a queue and deletes the oldest
  files when they exceed the limit, but with an offloader only files that have been uploaded.

  The directories are the trees of an \<open>fs_view\<close>; single files are looked up and removed on the disk,
  the map from paths to contents. \<open>monitor_io\<close> says which reads and which removals fail. Sums that are
  only logged are left out. The offloader of a queue is its worker, the files sent to it and the latest
  uploaded identifier; the worker itself is a separate task (\<open>Cloud_Store\<close>).
\<close>

section \<open>Model\<close>

definition usize_mul :: "usize \<Rightarrow> usize \<Rightarrow> usize run" where
  "usize_mul a b = (if a * b < 2 ^ 64 then Ret (a * b) else Panic)"

record disk_monitor_config =
  dm_max_size :: usize
  dm_check_interval :: nat
  dm_wal_settings :: wal_settings

definition disk_monitor_config_validate :: "disk_monitor_config \<Rightarrow> (unit, normfs_error) result run" where
  "disk_monitor_config_validate self = do {
     min_size \<leftarrow> usize_mul (wset_max_file_size (dm_wal_settings self)) 3;
     Ret (if dm_max_size self < min_size
          then Err (Error_Store (Store_Io (''Queue max_size ('' @ decimal (dm_max_size self) @
                 '') must be at least 3x WAL file size ('' @ decimal min_size @ '')'')))
          else Ok ()) }"

record queue_offloader =
  qo_worker :: queue_offloader_worker
  qo_sent :: "uintn list"
  qo_latest :: "uintn option"

definition queue_offloader_new :: "string \<Rightarrow> string \<Rightarrow> string \<Rightarrow> queue_offloader" where
  "queue_offloader_new queue_id root_path prefix =
     \<lparr> qo_worker = queue_offloader_worker_new queue_id root_path prefix, qo_sent = [], qo_latest = None \<rparr>"

definition offloader_enqueue_file :: "queue_offloader \<Rightarrow> uintn \<Rightarrow> queue_offloader" where
  "offloader_enqueue_file self file_id = self \<lparr> qo_sent := qo_sent self @ [file_id] \<rparr>"

definition get_latest_offloaded_id :: "queue_offloader \<Rightarrow> uintn option" where
  "get_latest_offloaded_id self = qo_latest self"

record queue_monitor =
  qm_queue_id :: string
  qm_config :: disk_monitor_config
  qm_root_path :: string
  qm_offloader :: "queue_offloader option"

definition queue_monitor_new ::
  "string \<Rightarrow> disk_monitor_config \<Rightarrow> string \<Rightarrow> bool \<Rightarrow> string option \<Rightarrow> queue_monitor" where
  "queue_monitor_new queue_id config root_path client prefix =
     \<lparr> qm_queue_id = queue_id, qm_config = config, qm_root_path = root_path,
       qm_offloader = (case prefix of
          Some prefix \<Rightarrow> if client then Some (queue_offloader_new queue_id root_path prefix) else None
        | None \<Rightarrow> None) \<rparr>"

record monitor_io =
  mio_read :: "string \<Rightarrow> string option"
  mio_remove :: "string \<Rightarrow> string option"

text \<open>
  \<open>get_directory_size\<close>: a stack of directories, the entries of the one on top are visited in order, the
  subdirectories among them go on top of the stack.
\<close>

fun visit_entries ::
  "(string \<Rightarrow> string option) \<Rightarrow> string \<Rightarrow> (string \<times> node) list \<Rightarrow> usize \<Rightarrow> (string \<times> node) list \<Rightarrow>
   (usize \<times> (string \<times> node) list, normfs_error) result run" where
  "visit_entries fails dir [] total_size dirs = Ret (Ok (total_size, dirs))"
| "visit_entries fails dir ((name, n) # entries) total_size dirs =
     (case fails (path_push dir name) of
        Some e \<Rightarrow> Ret (Err (Error_Store (Store_Io e)))
      | None \<Rightarrow>
          (case n of
             File bs \<Rightarrow> do {
               total_size \<leftarrow> usize_add total_size (length bs);
               visit_entries fails dir entries total_size dirs }
           | Dir _ \<Rightarrow> visit_entries fails dir entries total_size ((path_push dir name, n) # dirs)))"

lemma visit_entries_size:
  "visit_entries fails dir es t dirs = Ret (Ok (t', dirs')) \<Longrightarrow>
   sum_list (map (size \<circ> snd) dirs') \<le> size_list (size_prod (\<lambda>_. 0) size) es + sum_list (map (size \<circ> snd) dirs)"
proof (induction es arbitrary: t dirs)
  case (Cons e es)
  obtain name n where e: "e = (name, n)" by (cases e)
  from Cons.prems have f: "fails (path_push dir name) = None" by (auto simp: e split: option.splits)
  show ?case
  proof (cases n)
    case (File bs)
    with Cons.prems f obtain t1 where "visit_entries fails dir es t1 dirs = Ret (Ok (t', dirs'))"
      by (auto simp: e split: bind_splits)
    from Cons.IH [OF this] show ?thesis by (simp add: e)
  next
    case (Dir ds)
    with Cons.prems f have "visit_entries fails dir es t ((path_push dir name, n) # dirs) = Ret (Ok (t', dirs'))"
      by (simp add: e)
    from Cons.IH [OF this] show ?thesis by (simp add: e)
  qed
qed simp

function directory_size_loop ::
  "(string \<Rightarrow> string option) \<Rightarrow> usize \<Rightarrow> (string \<times> node) list \<Rightarrow> (usize, normfs_error) result run" where
  "directory_size_loop fails total_size [] = Ret (Ok total_size)"
| "directory_size_loop fails total_size ((dir, n) # dirs_to_process) =
     (case fails dir of
        Some e \<Rightarrow> Ret (Err (Error_Store (Store_Io e)))
      | None \<Rightarrow>
          (case n of
             File _ \<Rightarrow> Ret (Err (Error_Store (Store_Io ''not a directory'')))
           | Dir entries \<Rightarrow>
               (case visit_entries fails dir entries total_size dirs_to_process of
                  None \<Rightarrow> Panic
                | Some (Err e) \<Rightarrow> Ret (Err e)
                | Some (Ok (total_size, dirs)) \<Rightarrow> directory_size_loop fails total_size dirs)))"
  by pat_completeness auto
termination
  by (relation "measure (\<lambda>(_, _, dirs). sum_list (map (size \<circ> snd) dirs))")
     (auto dest!: visit_entries_size)

definition get_directory_size :: "monitor_io \<Rightarrow> string \<Rightarrow> node \<Rightarrow> (usize, normfs_error) result run" where
  "get_directory_size io path n = directory_size_loop (mio_read io) 0 [(path, n)]"

definition monitor_dir :: "queue_monitor \<Rightarrow> string \<Rightarrow> string" where
  "monitor_dir self kind = path_push (path_push (qm_root_path self) (qm_queue_id self)) kind"

definition dir_size_if_exists :: "monitor_io \<Rightarrow> fs_view \<Rightarrow> string \<Rightarrow> (usize, normfs_error) result run" where
  "dir_size_if_exists io V path =
     (case fv_tree V path of None \<Rightarrow> Ret (Ok 0) | Some n \<Rightarrow> get_directory_size io path n)"

definition get_queue_size :: "monitor_io \<Rightarrow> fs_view \<Rightarrow> queue_monitor \<Rightarrow> (usize, normfs_error) result run" where
  "get_queue_size io V self = do {
     w \<leftarrow> dir_size_if_exists io V (monitor_dir self ''wal'');
     case w of
       Err e \<Rightarrow> Ret (Err e)
     | Ok wal_size \<Rightarrow> do {
         s \<leftarrow> dir_size_if_exists io V (monitor_dir self ''store'');
         case s of
           Err e \<Rightarrow> Ret (Err e)
         | Ok store_size \<Rightarrow> do {
             total_size \<leftarrow> usize_add wal_size store_size;
             Ret (Ok total_size) } } }"

text \<open>
  The deletion of one file (\<open>remove_oldest\<close>: the store file when there is one, else the WAL file) and the
  loop over the identifiers. The loop ends where neither file exists.
\<close>

definition store_file_path :: "ext \<Rightarrow> queue_monitor \<Rightarrow> uintn \<Rightarrow> string" where
  "store_file_path X self i = uintn_to_file_path X i (monitor_dir self ''store'') ''store''"

definition wal_file_path :: "ext \<Rightarrow> queue_monitor \<Rightarrow> uintn \<Rightarrow> string" where
  "wal_file_path X self i = uintn_to_file_path X i (monitor_dir self ''wal'') ''wal''"

definition oldest_path :: "ext \<Rightarrow> queue_monitor \<Rightarrow> disk \<Rightarrow> uintn \<Rightarrow> string" where
  "oldest_path X self disk i =
     (if disk (store_file_path X self i) \<noteq> None then store_file_path X self i else wal_file_path X self i)"

definition remove_oldest :: "ext \<Rightarrow> monitor_io \<Rightarrow> queue_monitor \<Rightarrow> disk \<Rightarrow> uintn \<Rightarrow> usize \<Rightarrow> disk \<times> usize" where
  "remove_oldest X io self disk i size_to_free =
     (let path = oldest_path X self disk i in
      case mio_read io path of
        Some _ \<Rightarrow> (disk, size_to_free)
      | None \<Rightarrow>
          (case remove_file (mio_remove io) disk path of
             (disk', Ok _) \<Rightarrow> (disk', size_to_free - length (the (disk path)))
           | (disk', Err _) \<Rightarrow> (disk', size_to_free)))"

definition can_delete :: "queue_monitor \<Rightarrow> uintn option \<Rightarrow> uintn \<Rightarrow> bool" where
  "can_delete self latest_offloaded_id i =
     (case latest_offloaded_id of
        Some latest_offloaded \<Rightarrow> i \<le> latest_offloaded
      | None \<Rightarrow> qm_offloader self = None)"

partial_function (option) cleanup_loop ::
  "ext \<Rightarrow> monitor_io \<Rightarrow> queue_monitor \<Rightarrow> uintn option \<Rightarrow> usize \<Rightarrow> uintn \<Rightarrow> disk \<Rightarrow> disk run" where
  "cleanup_loop X io self latest_offloaded_id size_to_free current_id disk =
     (if size_to_free = 0 then Ret disk
      else if disk (store_file_path X self current_id) = None \<and> disk (wal_file_path X self current_id) = None then Ret disk
      else if \<not> can_delete self latest_offloaded_id current_id then Ret disk
      else let (disk, size_to_free) = remove_oldest X io self disk current_id size_to_free
           in cleanup_loop X io self latest_offloaded_id size_to_free (uintn_increment current_id) disk)"

definition min_file_id :: "uintn option \<Rightarrow> uintn option \<Rightarrow> uintn option" where
  "min_file_id store_min_id wal_min_id =
     (case (store_min_id, wal_min_id) of
        (Some sid, Some wid) \<Rightarrow> Some (if wid < sid then wid else sid)
      | (Some sid, None) \<Rightarrow> Some sid
      | (None, Some wid) \<Rightarrow> Some wid
      | (None, None) \<Rightarrow> None)"

definition cleanup_oldest_files ::
  "ext \<Rightarrow> monitor_io \<Rightarrow> fs_view \<Rightarrow> queue_monitor \<Rightarrow> usize \<Rightarrow> disk \<Rightarrow> disk run" where
  "cleanup_oldest_files X io V self current_size disk =
     (let size_to_free = current_size - dm_max_size (qm_config self);
          latest_offloaded_id = Option.bind (qm_offloader self) get_latest_offloaded_id;
          min_id = (\<lambda>kind. case fv_tree V (monitor_dir self kind) of
             None \<Rightarrow> None | Some n \<Rightarrow> ok_opt (find_min_id X (Some n) kind))
      in if size_to_free = 0 then Ret disk
         else case min_file_id (min_id ''store'') (min_id ''wal'') of
           None \<Rightarrow> Ret disk
         | Some current_id \<Rightarrow> cleanup_loop X io self latest_offloaded_id size_to_free current_id disk)"

definition check_and_cleanup ::
  "ext \<Rightarrow> monitor_io \<Rightarrow> fs_view \<Rightarrow> queue_monitor \<Rightarrow> disk \<Rightarrow> (disk \<times> (unit, normfs_error) result) run" where
  "check_and_cleanup X io V self disk = do {
     r \<leftarrow> get_queue_size io V self;
     case r of
       Err e \<Rightarrow> Ret (disk, Err e)
     | Ok current_size \<Rightarrow>
         if current_size > dm_max_size (qm_config self) then do {
           disk \<leftarrow> cleanup_oldest_files X io V self current_size disk;
           Ret (disk, Ok ()) }
         else Ret (disk, Ok ()) }"

record disk_monitor =
  dmon_monitors :: "(queue_id \<times> queue_monitor) list"
  dmon_root_path :: string
  dmon_client :: bool
  dmon_prefix :: "string option"

definition disk_monitor_new :: "string \<Rightarrow> bool \<Rightarrow> string option \<Rightarrow> disk_monitor" where
  "disk_monitor_new root_path client prefix =
     \<lparr> dmon_monitors = [], dmon_root_path = root_path, dmon_client = client, dmon_prefix = prefix \<rparr>"

text \<open>One tick of the monitor's task: every queue is checked; an error of one does not stop the others.\<close>

fun monitor_tick ::
  "ext \<Rightarrow> monitor_io \<Rightarrow> (disk \<Rightarrow> fs_view) \<Rightarrow> (queue_id \<times> queue_monitor) list \<Rightarrow> disk \<Rightarrow> disk run" where
  "monitor_tick X io view [] disk = Ret disk"
| "monitor_tick X io view ((_, monitor) # monitors) disk = do {
     (disk, _) \<leftarrow> check_and_cleanup X io (view disk) monitor disk;
     monitor_tick X io view monitors disk }"

definition enqueue_for_offload ::
  "disk_monitor \<Rightarrow> queue_id \<Rightarrow> uintn \<Rightarrow> disk_monitor \<times> (unit, normfs_error) result" where
  "enqueue_for_offload self queue file_id =
     (case map_of (dmon_monitors self) queue of
        None \<Rightarrow> (self, Err (Error_Store Store_FileNotFound))
      | Some monitor \<Rightarrow>
          (case qm_offloader monitor of
             None \<Rightarrow> (self, Ok ())
           | Some offloader \<Rightarrow>
               (self \<lparr> dmon_monitors := AList.update queue
                  (monitor \<lparr> qm_offloader := Some (offloader_enqueue_file offloader file_id) \<rparr>) (dmon_monitors self) \<rparr>, Ok ())))"

definition add_queue ::
  "ext \<Rightarrow> monitor_io \<Rightarrow> fs_view \<Rightarrow> disk_monitor \<Rightarrow> queue_id \<Rightarrow> disk_monitor_config \<Rightarrow> disk \<Rightarrow>
   (disk_monitor \<times> disk \<times> (unit, normfs_error) result) run" where
  "add_queue X io V self queue config disk = do {
     r \<leftarrow> disk_monitor_config_validate config;
     case r of
       Err e \<Rightarrow> Ret (self, disk, Err e)
     | Ok _ \<Rightarrow> do {
         let monitor = queue_monitor_new (qid_path queue) config (dmon_root_path self) (dmon_client self) (dmon_prefix self);
         (disk, r) \<leftarrow> check_and_cleanup X io V monitor disk;
         case r of
           Err e \<Rightarrow> Ret (self, disk, Err e)
         | Ok _ \<Rightarrow> Ret (self \<lparr> dmon_monitors := AList.update queue monitor (dmon_monitors self) \<rparr>, disk, Ok ()) } }"

section \<open>The size of a directory\<close>

fun tree_size :: "node \<Rightarrow> nat" where
  "tree_size (File bs) = length bs"
| "tree_size (Dir es) = sum_list (map (\<lambda>(_, n). tree_size n) es)"

definition stack_size :: "(string \<times> node) list \<Rightarrow> nat" where
  "stack_size dirs = sum_list (map (\<lambda>(_, n). tree_size n) dirs)"

lemma visit_entries_total:
  assumes "\<And>p. fails p = None"
  shows "t + sum_list (map (\<lambda>(_, n). tree_size n) es) + stack_size dirs < 2 ^ 64 \<Longrightarrow> list_all (\<lambda>d. is_dir (snd d)) dirs \<Longrightarrow>
    \<exists>t' dirs'. visit_entries fails dir es t dirs = Ret (Ok (t', dirs')) \<and> list_all (\<lambda>d. is_dir (snd d)) dirs' \<and>
      t' + stack_size dirs' = t + sum_list (map (\<lambda>(_, n). tree_size n) es) + stack_size dirs"
proof (induction es arbitrary: t dirs)
  case (Cons e es)
  obtain name n where e: "e = (name, n)" by (cases e)
  show ?case
  proof (cases n)
    case (File bs)
    with Cons.IH [of "t + length bs" dirs] Cons.prems show ?thesis
      by (simp add: e assms usize_add_def add_ac)
  next
    case (Dir ds)
    with Cons.IH [of t "(path_push dir name, n) # dirs"] Cons.prems show ?thesis
      by (simp add: e assms stack_size_def add_ac)
  qed
qed simp

lemma directory_size_loop_total:
  assumes "\<And>p. fails p = None"
  shows "t + stack_size dirs < 2 ^ 64 \<Longrightarrow> list_all (\<lambda>d. is_dir (snd d)) dirs \<Longrightarrow>
    directory_size_loop fails t dirs = Ret (Ok (t + stack_size dirs))"
  using assms
proof (induction fails t dirs rule: directory_size_loop.induct)
  case (2 fails t dir n dirs)
  obtain es where n: "n = Dir es" using 2 by (cases n) auto
  have "t + sum_list (map (\<lambda>(_, n). tree_size n) es) + stack_size dirs < 2 ^ 64" "list_all (\<lambda>d. is_dir (snd d)) dirs"
    using 2 n by (simp_all add: stack_size_def)
  from visit_entries_total [where fails = fails and dir = dir, OF "2.prems"(3) this]
  obtain t' dirs' where v: "visit_entries fails dir es t dirs = Ret (Ok (t', dirs'))" "list_all (\<lambda>d. is_dir (snd d)) dirs'"
    "t' + stack_size dirs' = t + sum_list (map (\<lambda>(_, n). tree_size n) es) + stack_size dirs" by blast
  have "t' + stack_size dirs' = t + stack_size ((dir, n) # dirs)" using v(3) n by (simp add: stack_size_def)
  moreover have "directory_size_loop fails t' dirs' = Ret (Ok (t' + stack_size dirs'))"
    by (rule "2.IH" [OF "2.prems"(3) n v(1) refl refl]) (use v(2) "2.prems" calculation in auto)
  moreover have "fails dir = None" by (rule "2.prems"(3))
  ultimately show ?case using v(1) n by simp
qed (simp add: stack_size_def)

section \<open>The deletions\<close>

text \<open>The paths of different files are different.\<close>

lemma monitor_paths:
  assumes "ubig_hex_ok X"
  shows "store_file_path X m i = store_file_path X m j \<longleftrightarrow> uval i = uval j"
    and "wal_file_path X m i = wal_file_path X m j \<longleftrightarrow> uval i = uval j"
    and "store_file_path X m i \<noteq> wal_file_path X m j" "wal_file_path X m i \<noteq> store_file_path X m j"
proof -
  show differ: "store_file_path X m i \<noteq> wal_file_path X m j" for i j
  proof
    assume "store_file_path X m i = wal_file_path X m j"
    then have "last (store_file_path X m i) = last (wal_file_path X m j)" by simp
    then show False by (simp add: last_to_file_path [OF assms] store_file_path_def wal_file_path_def)
  qed
  show "wal_file_path X m i \<noteq> store_file_path X m j" using differ [of j i] by metis
  show "store_file_path X m i = store_file_path X m j \<longleftrightarrow> uval i = uval j"
    using to_file_path_same [OF assms, of "''store''" i _ j]
    by (auto simp: store_file_path_def uintn_to_file_path_eq [OF assms])
  show "wal_file_path X m i = wal_file_path X m j \<longleftrightarrow> uval i = uval j"
    using to_file_path_same [OF assms, of "''wal''" i _ j]
    by (auto simp: wal_file_path_def uintn_to_file_path_eq [OF assms])
qed

text \<open>
  What the loop does without failures: \<open>oldest X m disk j\<close> is the path it deletes for the identifier \<open>j\<close>, \<open>freed X m disk c k\<close> are the bytes of the
  first \<open>k\<close> deletions from \<open>c\<close> on.
\<close>

definition oldest :: "ext \<Rightarrow> queue_monitor \<Rightarrow> disk \<Rightarrow> nat \<Rightarrow> string" where
  "oldest X m disk j = oldest_path X m disk (uintn_from_ubig j)"

definition freed :: "ext \<Rightarrow> queue_monitor \<Rightarrow> disk \<Rightarrow> nat \<Rightarrow> nat \<Rightarrow> nat" where
  "freed X m disk c k = sum_list (map (\<lambda>j. length (the (disk (oldest X m disk j)))) [c..<c + k])"

definition no_failures :: "monitor_io \<Rightarrow> bool" where
  "no_failures io \<longleftrightarrow> mio_read io = (\<lambda>_. None) \<and> mio_remove io = (\<lambda>_. None)"

lemma oldest_uval:
  assumes "ubig_hex_ok X"
  shows "oldest_path X m disk i = oldest X m disk (uval i)"
  by (simp add: oldest_def oldest_path_def store_file_path_def wal_file_path_def uintn_to_file_path_eq [OF assms])

lemma oldest_other:
  assumes "ubig_hex_ok X" "i \<noteq> j"
  shows "oldest X m (disk(oldest X m disk i := None)) j = oldest X m disk j" "oldest X m disk i \<noteq> oldest X m disk j"
  using assms(2) by (simp_all add: oldest_def oldest_path_def monitor_paths [OF assms(1)])

lemma freed_step:
  assumes "ubig_hex_ok X"
  shows "freed X m disk c (Suc k) = length (the (disk (oldest X m disk c))) +
    freed X m (disk(oldest X m disk c := None)) (Suc c) k"
proof -
  have "map (\<lambda>j. length (the (disk (oldest X m disk j)))) [Suc c..<Suc c + k] =
      map (\<lambda>j. length (the ((disk(oldest X m disk c := None)) (oldest X m (disk(oldest X m disk c := None)) j)))) [Suc c..<Suc c + k]"
  proof (intro map_cong refl)
    fix j assume "j \<in> set [Suc c..<Suc c + k]"
    then have "c \<noteq> j" by auto
    then show "length (the (disk (oldest X m disk j))) =
        length (the ((disk(oldest X m disk c := None)) (oldest X m (disk(oldest X m disk c := None)) j)))"
      using oldest_other [OF assms, of c j m disk] by simp
  qed
  from arg_cong [OF this, of sum_list] show ?thesis by (simp add: freed_def upt_conv_Cons del: upt_Suc fun_upd_apply)
qed

lemma remove_oldest_ok:
  assumes "ubig_hex_ok X" "no_failures io" "disk (oldest X m disk (uval i)) = Some d"
  shows "remove_oldest X io m disk i n = (disk(oldest X m disk (uval i) := None), n - length d)"
  using assms(2,3) by (simp add: remove_oldest_def oldest_uval [OF assms(1)] no_failures_def remove_file_def)

lemma oldest_exists:
  assumes "ubig_hex_ok X"
  shows "disk (oldest X m disk (uval i)) = None \<longleftrightarrow>
    disk (store_file_path X m i) = None \<and> disk (wal_file_path X m i) = None"
  by (auto simp: oldest_path_def simp flip: oldest_uval [OF assms])

lemma can_delete_uval: "can_delete m latest i \<longleftrightarrow> can_delete m latest (uintn_from_ubig (uval i))"
  by (simp add: can_delete_def split: option.splits)

lemma cleanup_loop_deletes:
  assumes "ubig_hex_ok X" "no_failures io"
  shows "finite (dom disk) \<Longrightarrow>
    \<exists>k. cleanup_loop X io m latest n i disk = Ret (disk |` (- oldest X m disk ` {uval i..<uval i + k})) \<and>
      (\<forall>j<k. disk (oldest X m disk (uval i + j)) \<noteq> None \<and> can_delete m latest (uintn_from_ubig (uval i + j)) \<and>
             freed X m disk (uval i) j < n) \<and>
      (n \<le> freed X m disk (uval i) k \<or> disk (oldest X m disk (uval i + k)) = None \<or>
       \<not> can_delete m latest (uintn_from_ubig (uval i + k)))"
proof (induction "card (dom disk)" arbitrary: disk n i rule: less_induct)
  case less
  let ?c = "uval i" and ?p = "oldest X m disk (uval i)" and ?d = "disk(oldest X m disk (uval i) := None)"
  show ?case
  proof (cases "n = 0 \<or> disk ?p = None \<or> \<not> can_delete m latest i")
    case True
    then have "cleanup_loop X io m latest n i disk = Ret disk"
      using oldest_exists [OF assms(1), of disk m i] by (auto simp: cleanup_loop.simps)
    then show ?thesis
      using True can_delete_uval [of m latest i] by (intro exI [of _ 0]) (auto simp: freed_def)
  next
    case False
    then obtain d where d: "disk ?p = Some d" by auto
    then have "dom ?d = dom disk - {?p}" "?p \<in> dom disk" by auto
    then have "card (dom ?d) < card (dom disk)" "finite (dom ?d)"
      using card_Diff1_less [OF less.prems, of ?p] less.prems by (simp_all only: finite_Diff)
    from less.hyps [OF this, of "n - length d" "uintn_increment i"]
    obtain k where k: "cleanup_loop X io m latest (n - length d) (uintn_increment i) ?d =
        Ret (?d |` (- oldest X m ?d ` {Suc ?c..<Suc ?c + k}))"
      "\<forall>j<k. ?d (oldest X m ?d (Suc ?c + j)) \<noteq> None \<and> can_delete m latest (uintn_from_ubig (Suc ?c + j)) \<and>
             freed X m ?d (Suc ?c) j < n - length d"
      "n - length d \<le> freed X m ?d (Suc ?c) k \<or> ?d (oldest X m ?d (Suc ?c + k)) = None \<or>
       \<not> can_delete m latest (uintn_from_ubig (Suc ?c + k))" by auto
    note other = oldest_other [OF assms(1), of ?c _ m disk]
    have loop: "cleanup_loop X io m latest n i disk =
        cleanup_loop X io m latest (n - length d) (uintn_increment i) ?d"
      using False d oldest_exists [OF assms(1), of disk m i] remove_oldest_ok [OF assms, of disk m i d n]
      by (subst cleanup_loop.simps) auto
    have "oldest X m ?d ` {Suc ?c..<Suc ?c + k} = oldest X m disk ` {Suc ?c..<Suc ?c + k}"
      using other(1) by (intro image_cong) auto
    moreover have "{?c..<?c + Suc k} = insert ?c {Suc ?c..<Suc ?c + k}" by auto
    ultimately have "?d |` (- oldest X m ?d ` {Suc ?c..<Suc ?c + k}) = disk |` (- oldest X m disk ` {?c..<?c + Suc k})"
      by (auto simp: restrict_map_def fun_eq_iff)
    moreover have "disk (oldest X m disk (?c + j)) \<noteq> None \<and> can_delete m latest (uintn_from_ubig (?c + j)) \<and>
        freed X m disk ?c j < n" if "j < Suc k" for j
    proof (cases j)
      case 0
      then show ?thesis using False can_delete_uval [of m latest i] by (simp add: freed_def)
    next
      case (Suc j')
      then show ?thesis
        using k(2) [rule_format, of j'] that other [of "?c + j"] freed_step [OF assms(1), of m disk ?c j'] d by auto
    qed
    moreover have "n \<le> freed X m disk ?c (Suc k) \<or> disk (oldest X m disk (?c + Suc k)) = None \<or>
       \<not> can_delete m latest (uintn_from_ubig (?c + Suc k))"
      using k(3) other [of "?c + Suc k"] freed_step [OF assms(1), of m disk ?c k] d by auto
    ultimately show ?thesis using loop k(1) by (intro exI [of _ "Suc k"]) simp
  qed
qed

section \<open>Properties\<close>

text \<open>
  C24. The size of a directory is the sum of the sizes of all files below it, however deep: the traversal with an
  explicit stack computes the recursive sum, as long as the sum fits into 64 bits.
\<close>

theorem get_directory_size_exact:
  assumes "no_failures io" "is_dir n" "tree_size n < 2 ^ 64"
  shows "get_directory_size io path n = Ret (Ok (tree_size n))"
proof -
  have "directory_size_loop (mio_read io) 0 [(path, n)] = Ret (Ok (0 + stack_size [(path, n)]))"
    by (rule directory_size_loop_total) (use assms in \<open>simp_all add: no_failures_def stack_size_def\<close>)
  then show ?thesis by (simp add: get_directory_size_def stack_size_def del: directory_size_loop.simps)
qed

theorem get_directory_size_exact_witness:
  "get_directory_size \<lparr> mio_read = (\<lambda>_. None), mio_remove = (\<lambda>_. None) \<rparr> ''/d''
     (Dir [(''a'', Dir [(''b'', File [1, 2])]), (''c'', File [3])]) = Ret (Ok 3)"
  using get_directory_size_exact [of "\<lparr> mio_read = (\<lambda>_. None), mio_remove = (\<lambda>_. None) \<rparr>"
      "Dir [(''a'', Dir [(''b'', File [1, 2])]), (''c'', File [3])]" "''/d''"]
  by (simp add: no_failures_def)


definition sample_monitor :: queue_monitor where
  "sample_monitor = queue_monitor_new ''q''
     \<lparr> dm_max_size = 0, dm_check_interval = 10, dm_wal_settings = wal_settings_default \<rparr> ''/d'' False None"


definition sample_monitor_view :: fs_view where
  "sample_monitor_view = \<lparr> fv_read = (\<lambda>_. Err NotFound),
     fv_tree = (\<lambda>p. if p = ''/d/i/q/wal'' then Some (Dir [(''001.wal'', File [1, 2])]) else None),
     fv_mkdir = (\<lambda>_. Ok ()), fv_walk = (\<lambda>_. []) \<rparr>"

text \<open>
  C39. The monitor looks in the wrong place: a queue identifier is an absolute path, and joining it to the root
  yields the identifier itself. So the directories it measures do not depend on the root, and unless they
  happen to exist the queue counts as empty and nothing is ever deleted, whatever its size.
\<close>

theorem monitor_ignores_root:
  assumes "hd (qid_path q) = slash" "last (qid_path q) \<noteq> slash" "qid_path q \<noteq> []"
    and "m = queue_monitor_new (qid_path q) config root client prefix"
    and "fv_tree V (qid_path q @ ''/wal'') = None" "fv_tree V (qid_path q @ ''/store'') = None"
  shows "monitor_dir m ''wal'' = qid_path q @ ''/wal'' \<and> monitor_dir m ''store'' = qid_path q @ ''/store'' \<and>
    check_and_cleanup X io V m disk = Ret (disk, Ok ())"
proof -
  have dir: "monitor_dir m ''wal'' = qid_path q @ ''/wal''" "monitor_dir m ''store'' = qid_path q @ ''/store''"
    using assms(1-4) by (auto simp: monitor_dir_def queue_monitor_new_def path_push_def)
  then have "get_queue_size io V m = Ret (Ok 0)"
    using assms(5,6) by (simp add: get_queue_size_def dir_size_if_exists_def usize_add_def)
  with dir show ?thesis by (simp add: check_and_cleanup_def)
qed

theorem monitor_ignores_root_witness:
  "let m = queue_monitor_new ''/i/q'' \<lparr> dm_max_size = 0, dm_check_interval = 10, dm_wal_settings = wal_settings_default \<rparr>
             ''/d'' False None;
       V = sample_monitor_view
   in fv_tree V (queue_id_to_wal_dir \<lparr> qid_path = ''/i/q'' \<rparr> ''/d'') = Some (Dir [(''001.wal'', File [1, 2])]) \<and>
      check_and_cleanup ext_ref \<lparr> mio_read = (\<lambda>_. None), mio_remove = (\<lambda>_. None) \<rparr> V m [''/d/i/q/wal/001.wal'' \<mapsto> [1, 2]] =
        Ret ([''/d/i/q/wal/001.wal'' \<mapsto> [1, 2]], Ok ())"
  using monitor_ignores_root [of "\<lparr> qid_path = ''/i/q'' \<rparr>" _
      "\<lparr> dm_max_size = 0, dm_check_interval = 10, dm_wal_settings = wal_settings_default \<rparr>" "''/d''" False None sample_monitor_view]
  by (simp add: sample_monitor_view_def queue_id_to_wal_dir_def queue_id_to_fs_path_def trim_start_matches_def path_push_def)

end
