(* ===== verification/Lookup.thy ===== *)
theory Lookup
  imports Persist_Store
begin

text \<open>
  Finding the file that holds an entry (\<open>normfs/src/lookup.rs\<close>): the first and last file of a queue over the
  store, the WAL and the cloud, and a binary search over the file identifiers in between.

  What the search asks is the record \<open>lookup_env\<close>: the operations of \<open>PersistStore\<close> and \<open>WalStore\<close> on the queue, and,
  when a cloud is configured, those of the downloader, whose answer may depend on the round of the
  search in which it is asked. \<open>lookup_env_of\<close> fills the record with the models of the store and the WAL.
  The search loops as long as the cloud fails, so it is a partial function: no result means
  that it never returns (or that a call panicked).
\<close>

section \<open>Model\<close>

datatype lookup_error = Lookup_Store store_error | Lookup_Wal wal_error

record s3_env =
  s3_find_min_id :: "(uintn option, string) result"
  s3_file_range :: "nat \<Rightarrow> uintn \<Rightarrow> ((uintn \<times> uintn) option, string) result"

record lookup_env =
  le_store_first :: "(uintn option, store_error) result"
  le_store_last :: "(uintn option, store_error) result"
  le_wal_first :: "(uintn option, wal_error) result"
  le_wal_last :: "(uintn option, wal_error) result"
  le_store_range :: "uintn \<Rightarrow> ((uintn \<times> uintn) option, store_error) result run"
  le_wal_before :: "uintn \<Rightarrow> (uintn, wal_error) result"
  le_s3 :: "s3_env option"

definition lookup_env_of ::
  "store_ext \<Rightarrow> fs_view \<Rightarrow> persist_store \<Rightarrow> string \<Rightarrow> queue_id \<Rightarrow> s3_env option \<Rightarrow> lookup_env" where
  "lookup_env_of S V store wal_root queue s3 =
     \<lparr> le_store_first = store_get_first_file_id (se_ext S) V store queue,
       le_store_last = store_get_last_file_id (se_ext S) V store queue,
       le_wal_first = wal_get_first_file_id (se_ext S) V wal_root queue,
       le_wal_last = wal_get_last_file_id (se_ext S) V wal_root queue,
       le_store_range = (\<lambda>f. map_option snd (get_file_range S (fv_read V) store queue f)),
       le_wal_before = wal_get_entries_before (se_ext S) (fv_read V) wal_root queue,
       le_s3 = s3 \<rparr>"

definition uintn_min :: "uintn \<Rightarrow> uintn \<Rightarrow> uintn" where
  "uintn_min a b = (if b < a then b else a)"

definition uintn_max :: "uintn \<Rightarrow> uintn \<Rightarrow> uintn" where
  "uintn_max a b = (if b < a then a else b)"

lemma Suc_unat_minus_one: "0 < unat w \<Longrightarrow> Suc (unat (w - 1)) = unat (w :: 'a::len word)"
  using unat_minus_one [of w] by (cases "w = 0") auto

lemma uval_decrement: "uintn_decrement u = Ok v \<Longrightarrow> uval v + 1 = uval u"
  by (auto simp: uintn_decrement_def Suc_unat_minus_one split: if_splits uintn.splits)

definition missing_or_empty :: "wal_error \<Rightarrow> bool" where
  "missing_or_empty e = (case e of WalNotFound \<Rightarrow> True | WalEmpty _ \<Rightarrow> True | _ \<Rightarrow> False)"

function find_valid_file_backward ::
  "lookup_env \<Rightarrow> uintn \<Rightarrow> uintn \<Rightarrow> ((uintn \<times> uintn \<times> uintn option) option, lookup_error) result run" where
  "find_valid_file_backward E search_id min_file_id =
     (case le_store_range E search_id of
        None \<Rightarrow> Panic
      | Some (Err e) \<Rightarrow> Ret (Err (Lookup_Store e))
      | Some (Ok (Some (start, stop))) \<Rightarrow> Ret (Ok (Some (search_id, start, Some stop)))
      | Some (Ok None) \<Rightarrow>
          (case le_wal_before E search_id of
             Ok start \<Rightarrow> Ret (Ok (Some (search_id, start, None)))
           | Err e \<Rightarrow>
               if missing_or_empty e then
                 if search_id \<le> min_file_id then Ret (Ok None)
                 else (case uintn_decrement search_id of
                     Err _ \<Rightarrow> Ret (Err (Lookup_Wal WalNotFound))
                   | Ok search_id \<Rightarrow> find_valid_file_backward E search_id min_file_id)
               else Ret (Err (Lookup_Wal e))))"
  by pat_completeness auto
termination
  by (relation "measure (\<lambda>(_, search_id, _). uval search_id)") (auto dest: uval_decrement)

declare find_valid_file_backward.simps [simp del]

text \<open>
  What the search learns about the middle file: its start and, when known, its end; a file before it to go on
  with; nothing, after which the round is repeated; or the result of the search.
\<close>

datatype mid_file =
    MidRange uintn "uintn option"
  | MidBackward uintn uintn "uintn option"
  | MidAgain
  | MidResult "(uintn option, lookup_error) result"

definition mid_backward :: "lookup_env \<Rightarrow> uintn \<Rightarrow> uintn \<Rightarrow> mid_file run" where
  "mid_backward E left_file_id mid_file_id = do {
     let min_search = uintn_increment left_file_id;
     r \<leftarrow> find_valid_file_backward E mid_file_id min_search;
     Ret (case r of
         Err e \<Rightarrow> MidResult (Err e)
       | Ok (Some (valid_id, valid_start, valid_end)) \<Rightarrow> MidBackward valid_id valid_start valid_end
       | Ok None \<Rightarrow> MidResult (Ok (Some left_file_id))) }"

definition mid_lookup :: "lookup_env \<Rightarrow> nat \<Rightarrow> uintn \<Rightarrow> uintn \<Rightarrow> mid_file run" where
  "mid_lookup E iteration left_file_id mid_file_id = do {
     mid_range \<leftarrow> le_store_range E mid_file_id;
     case mid_range of
       Err e \<Rightarrow> Ret (MidResult (Err (Lookup_Store e)))
     | Ok (Some (start, stop)) \<Rightarrow> Ret (MidRange start (Some stop))
     | Ok None \<Rightarrow>
         (case le_wal_before E mid_file_id of
            Ok start \<Rightarrow> Ret (MidRange start None)
          | Err WalNotFound \<Rightarrow>
              (case le_s3 E of
                 Some s3 \<Rightarrow>
                   (case s3_file_range s3 iteration mid_file_id of
                      Ok (Some (start, stop)) \<Rightarrow> Ret (MidRange start (Some stop))
                    | Ok None \<Rightarrow> Ret (MidResult (Err (Lookup_Store Store_FileNotFound)))
                    | Err _ \<Rightarrow> Ret MidAgain)
               | None \<Rightarrow> mid_backward E left_file_id mid_file_id)
          | Err (WalEmpty _) \<Rightarrow> mid_backward E left_file_id mid_file_id
          | Err e \<Rightarrow> Ret (MidResult (Err (Lookup_Wal e)))) }"

text \<open>The start of the file after the middle one, or the result of the search.\<close>

definition next_lookup ::
  "lookup_env \<Rightarrow> nat \<Rightarrow> uintn \<Rightarrow> uintn \<Rightarrow> ((uintn option, lookup_error) result + uintn) run" where
  "next_lookup E iteration mid_file_id next_mid = do {
     next_range \<leftarrow> le_store_range E next_mid;
     Ret (case next_range of
       Err e \<Rightarrow> Inl (Err (Lookup_Store e))
     | Ok (Some (start, _)) \<Rightarrow> Inr start
     | Ok None \<Rightarrow>
         (case le_wal_before E next_mid of
            Ok start \<Rightarrow> Inr start
          | Err WalNotFound \<Rightarrow>
              (case le_s3 E of
                 Some s3 \<Rightarrow>
                   (case s3_file_range s3 iteration next_mid of
                      Ok (Some (start, _)) \<Rightarrow> Inr start
                    | Ok None \<Rightarrow> Inl (Err (Lookup_Store Store_FileNotFound))
                    | Err _ \<Rightarrow> Inl (Ok (Some mid_file_id)))
               | None \<Rightarrow> Inl (Err (Lookup_Wal WalNotFound)))
          | Err (WalEmpty _) \<Rightarrow> Inl (Err (Lookup_Store Store_FileNotFound))
          | Err e \<Rightarrow> Inl (Err (Lookup_Wal e)))) }"

partial_function (option) binary_search ::
  "lookup_env \<Rightarrow> uintn \<Rightarrow> nat \<Rightarrow> uintn \<Rightarrow> uintn \<Rightarrow> uintn option \<Rightarrow> uintn \<Rightarrow> (uintn option, lookup_error) result run" where
  "binary_search E target_id iteration left_file_id right_file_id left_end right_start =
     (if uintn_eq left_file_id right_file_id then Ret (Ok (Some left_file_id))
      else if uintn_eq (uintn_increment left_file_id) right_file_id then
        Ret (Ok (Some (if (case left_end of Some left_end_val \<Rightarrow> target_id \<le> left_end_val
                                          | None \<Rightarrow> target_id < right_start)
                       then left_file_id else right_file_id)))
      else do {
        let mid_file_id = uintn_middle left_file_id right_file_id;
        mid \<leftarrow> mid_lookup E iteration left_file_id mid_file_id;
        (case mid of
           MidResult r \<Rightarrow> Ret r
         | MidAgain \<Rightarrow>
             binary_search E target_id (iteration + 1) left_file_id right_file_id left_end right_start
         | MidBackward valid_id valid_start valid_end \<Rightarrow>
             binary_search E target_id (iteration + 1) left_file_id valid_id valid_end valid_start
         | MidRange mid_start mid_end \<Rightarrow>
             if target_id < mid_start
             then binary_search E target_id (iteration + 1) left_file_id mid_file_id left_end mid_start
             else (case mid_end of
                 Some mid_end_val \<Rightarrow>
                   if target_id \<le> mid_end_val then Ret (Ok (Some mid_file_id))
                   else binary_search E target_id (iteration + 1) mid_file_id right_file_id mid_end right_start
               | None \<Rightarrow>
                   let next_mid = uintn_increment mid_file_id in
                   if next_mid \<le> right_file_id then do {
                     next \<leftarrow> next_lookup E iteration mid_file_id next_mid;
                     case next of
                       Inl r \<Rightarrow> Ret r
                     | Inr next_start \<Rightarrow>
                         if target_id < next_start then Ret (Ok (Some mid_file_id))
                         else binary_search E target_id (iteration + 1) mid_file_id right_file_id mid_end
                                right_start }
                   else Ret (Ok (Some mid_file_id)))) })"

text \<open>\<open>find_file_with_s3\<close>, in the order of its early returns.\<close>

definition s3_first :: "lookup_env \<Rightarrow> uintn option" where
  "s3_first E =
     (case le_s3 E of
        None \<Rightarrow> None
      | Some s3 \<Rightarrow> (case s3_find_min_id s3 of Ok i \<Rightarrow> i | Err _ \<Rightarrow> None))"

fun first_of_three :: "uintn option \<Rightarrow> uintn option \<Rightarrow> uintn option \<Rightarrow> uintn option" where
  "first_of_three (Some s) (Some w) (Some s3) = Some (uintn_min (uintn_min s w) s3)"
| "first_of_three (Some s) (Some w) None = Some (uintn_min s w)"
| "first_of_three (Some s) None (Some s3) = Some (uintn_min s s3)"
| "first_of_three None (Some w) (Some s3) = Some (uintn_min w s3)"
| "first_of_three (Some s) None None = Some s"
| "first_of_three None (Some w) None = Some w"
| "first_of_three None None (Some s3) = Some s3"
| "first_of_three None None None = None"

fun last_of_two :: "uintn option \<Rightarrow> uintn option \<Rightarrow> uintn option" where
  "last_of_two (Some s) (Some w) = Some (uintn_max s w)"
| "last_of_two (Some s) None = Some s"
| "last_of_two None (Some w) = Some w"
| "last_of_two None None = None"

text \<open>The start and end of the first file, or the result of the lookup.\<close>

definition first_file_range ::
  "lookup_env \<Rightarrow> uintn \<Rightarrow> (uintn \<times> uintn) option \<Rightarrow> (uintn option, lookup_error) result + (uintn \<times> uintn option)" where
  "first_file_range E first_file_id store_start_range =
     (case store_start_range of
        Some (start, stop) \<Rightarrow> Inr (start, Some stop)
      | None \<Rightarrow>
          (case le_wal_before E first_file_id of
             Ok start \<Rightarrow> Inr (start, None)
           | Err WalNotFound \<Rightarrow>
               (case le_s3 E of
                  Some s3 \<Rightarrow>
                    (case s3_file_range s3 0 first_file_id of
                       Ok (Some (start, stop)) \<Rightarrow> Inr (start, Some stop)
                     | Ok None \<Rightarrow> Inl (Ok None)
                     | Err _ \<Rightarrow> Inl (Ok None))
                | None \<Rightarrow> Inl (Err (Lookup_Wal WalNotFound)))
           | Err (WalEmpty _) \<Rightarrow> Inl (Ok None)
           | Err e \<Rightarrow> Inl (Err (Lookup_Wal e))))"

text \<open>The part of the lookup after the first file is known.\<close>

definition search_from_first ::
  "lookup_env \<Rightarrow> uintn \<Rightarrow> uintn \<Rightarrow> uintn \<Rightarrow> uintn \<Rightarrow> uintn option \<Rightarrow> (uintn option, lookup_error) result run" where
  "search_from_first E target_id first_file_id last_file_id first_file_start first_file_end =
     (if target_id < first_file_start then Ret (Ok (Some first_file_id))
      else if (case first_file_end of Some stop \<Rightarrow> target_id \<le> stop | None \<Rightarrow> False)
      then Ret (Ok (Some first_file_id))
      else do {
        r \<leftarrow> find_valid_file_backward E last_file_id first_file_id;
        (case r of
           Err e \<Rightarrow> Ret (Err e)
         | Ok None \<Rightarrow> Ret (Ok None)
         | Ok (Some (last_file_id, last_file_start, last_file_end)) \<Rightarrow>
             if target_id > last_file_start then Ret (Ok (Some last_file_id))
             else if (case last_file_end of Some stop \<Rightarrow> target_id > stop | None \<Rightarrow> False) then Ret (Ok None)
             else binary_search E target_id 1 first_file_id last_file_id first_file_end last_file_start) })"

definition find_file_with_s3 :: "lookup_env \<Rightarrow> uintn \<Rightarrow> (uintn option, lookup_error) result run" where
  "find_file_with_s3 E target_id =
     (case (le_store_first E, le_store_last E, le_wal_first E, le_wal_last E) of
        (Err e, _, _, _) \<Rightarrow> Ret (Err (Lookup_Store e))
      | (_, Err e, _, _) \<Rightarrow> Ret (Err (Lookup_Store e))
      | (_, _, Err e, _) \<Rightarrow> Ret (Err (Lookup_Wal e))
      | (_, _, _, Err e) \<Rightarrow> Ret (Err (Lookup_Wal e))
      | (Ok store_first_id, Ok store_last_id, Ok wal_first_id, Ok wal_last_id) \<Rightarrow>
          (case first_of_three store_first_id wal_first_id (s3_first E) of
             None \<Rightarrow> Ret (Ok None)
           | Some first_file_id \<Rightarrow>
               (case last_of_two store_last_id wal_last_id of
                  None \<Rightarrow> Ret (Ok None)
                | Some last_file_id \<Rightarrow> do {
                    store_start_range \<leftarrow> le_store_range E first_file_id;
                    store_end_range \<leftarrow> le_store_range E last_file_id;
                    (case (store_start_range, store_end_range) of
                       (Err e, _) \<Rightarrow> Ret (Err (Lookup_Store e))
                     | (_, Err e) \<Rightarrow> Ret (Err (Lookup_Store e))
                     | (Ok store_start_range, Ok _) \<Rightarrow>
                         (case first_file_range E first_file_id store_start_range of
                            Inl r \<Rightarrow> Ret r
                          | Inr (first_file_start, first_file_end) \<Rightarrow>
                              search_from_first E target_id first_file_id last_file_id first_file_start
                                first_file_end)) })))"

section \<open>The search over an ordered sequence of files\<close>

text \<open>
  The contract the search relies on: the files \<open>a\<close> to \<open>b\<close> are all there, file \<open>k\<close> starts at entry \<open>st k\<close>, the starts are
  ascending, and for a file in the store the end is known too, just before the start of the
  next one.
\<close>

definition holds_target :: "nat \<Rightarrow> nat \<Rightarrow> (nat \<Rightarrow> nat) \<Rightarrow> nat \<Rightarrow> uintn \<Rightarrow> bool" where
  "holds_target a b st t f \<longleftrightarrow>
     a \<le> uval f \<and> uval f \<le> b \<and> st (uval f) \<le> t \<and> (uval f < b \<longrightarrow> t < st (uval f + 1))"

locale ordered_files =
  fixes ready :: bool and E :: lookup_env and a b :: nat and st :: "nat \<Rightarrow> nat"
  assumes known: "ready \<Longrightarrow> a \<le> uval f \<Longrightarrow> uval f \<le> b \<Longrightarrow>
      \<exists>s. uval s = st (uval f) \<and>
        ((\<exists>e. le_store_range E f = Ret (Ok (Some (s, e))) \<and> uval s \<le> uval e \<and> uval e + 1 = st (uval f + 1)) \<or>
         (le_store_range E f = Ret (Ok None) \<and> le_wal_before E f = Ok s))"
    and ascending_starts: "ready \<Longrightarrow> a \<le> k \<Longrightarrow> k < b \<Longrightarrow> st k \<le> st (k + 1)"
begin

lemma mid_range:
  assumes "ready" "a \<le> uval f" "uval f \<le> b"
  obtains s e where "mid_lookup E i l f = Ret (MidRange s e)" "uval s = st (uval f)"
    "\<And>v. e = Some v \<Longrightarrow> uval v + 1 = st (uval f + 1)"
  using known [OF assms] by (auto simp: mid_lookup_def)

lemma next_start:
  assumes "ready" "a \<le> uval f" "uval f \<le> b"
  obtains s where "next_lookup E i m f = Ret (Inr s)" "uval s = st (uval f)"
  using known [OF assms] by (auto simp: next_lookup_def)

lemma backward_immediate:
  assumes "ready" "a \<le> uval f" "uval f \<le> b"
  obtains s e where "find_valid_file_backward E f m = Ret (Ok (Some (f, s, e)))" "uval s = st (uval f)"
    "\<And>v. e = Some v \<Longrightarrow> st (uval f) \<le> uval v"
  using known [OF assms] by (auto simp: find_valid_file_backward.simps [of E f])

text \<open>The invariant of the loop: the target is in the left file or later, and not beyond the start of the right one.\<close>

lemma binary_search_finds:
  assumes "ready"
  shows "a \<le> uval l \<Longrightarrow> uval l < uval r \<Longrightarrow> uval r \<le> b \<Longrightarrow> st (uval l) \<le> uval t \<Longrightarrow>
    (if uval r = b then uval t \<le> st b else uval t < st (uval r)) \<Longrightarrow>
    (\<And>v. le = Some v \<Longrightarrow> uval v + 1 = st (uval l + 1)) \<Longrightarrow> uval rs = st (uval r) \<Longrightarrow>
    \<exists>f. binary_search E t i l r le rs = Ret (Ok (Some f)) \<and> holds_target a b st (uval t) f"
proof (induction "uval r - uval l" arbitrary: i l r le rs rule: less_induct)
  case less
  show ?case
  proof (cases "uval l + 1 = uval r")
    case True
    then show ?thesis
      using less.prems less.prems(6) [of "the le"]
      by (auto simp: binary_search.simps [of E t i l] uintn_eq_uval holds_target_def split: option.splits if_splits)
  next
    case False
    let ?m = "uintn_middle l r"
    have m: "a \<le> uval ?m" "uval ?m \<le> b" "uval l < uval ?m" "uval ?m < uval r"
      using less.prems(1-3) False by auto
    obtain s e where s: "mid_lookup E i l ?m = Ret (MidRange s e)" "uval s = st (uval ?m)"
      "\<And>v. e = Some v \<Longrightarrow> uval v + 1 = st (uval ?m + 1)"
      using mid_range [OF assms m(1,2)] by blast
    obtain n where n: "next_lookup E i ?m (uintn_increment ?m) = Ret (Inr n)" "uval n = st (uval ?m + 1)"
      using next_start [OF assms, of "uintn_increment ?m"] m less.prems(3) by auto
    have left: "\<exists>f. binary_search E t (i + 1) l ?m le s = Ret (Ok (Some f)) \<and> holds_target a b st (uval t) f"
      if "uval t < st (uval ?m)"
      using less.hyps [of ?m l le s "i + 1"] less.prems m s(2) that by auto
    have right: "\<exists>f. binary_search E t (i + 1) ?m r e rs = Ret (Ok (Some f)) \<and> holds_target a b st (uval t) f"
      if "st (uval ?m) \<le> uval t"
      using less.hyps [of r ?m e rs "i + 1"] less.prems m s(3) that by auto
    have mid: "holds_target a b st (uval t) ?m" if "st (uval ?m) \<le> uval t" "uval t < st (uval ?m + 1)"
      using that m(1,2) by (simp add: holds_target_def)
    have "binary_search E t i l r le rs =
        (if uval t < st (uval ?m) then binary_search E t (i + 1) l ?m le s
         else if uval t < st (uval ?m + 1) then Ret (Ok (Some ?m))
         else binary_search E t (i + 1) ?m r e rs)"
      using s(1,2) s(3) [of "the e"] n m(3,4) False
      by (subst binary_search.simps) (cases e; auto simp: uintn_eq_uval Let_def)
    then show ?thesis using left right mid by (auto simp: not_less)
  qed
qed

lemma first_range:
  assumes "ready" "a \<le> uval f" "uval f \<le> b"
  obtains rng s e where "le_store_range E f = Ret (Ok rng)" "first_file_range E f rng = Inr (s, e)"
    "uval s = st (uval f)" "\<And>v. e = Some v \<Longrightarrow> uval v + 1 = st (uval f + 1)"
  using known [OF assms]
proof (elim exE conjE disjE)
  fix s e
  assume "uval s = st (uval f)" "le_store_range E f = Ret (Ok (Some (s, e)))" "uval e + 1 = st (uval f + 1)"
  then show thesis by (intro that [of "Some (s, e)" s "Some e"]) (auto simp: first_file_range_def)
next
  fix s
  assume "uval s = st (uval f)" "le_store_range E f = Ret (Ok None)" "le_wal_before E f = Ok s"
  then show thesis by (intro that [of None s None]) (auto simp: first_file_range_def)
qed

lemma search_finds:
  assumes "ready" "uval ff = a" "uval lf = b" "a \<le> b" "st a \<le> uval t"
    and "uval s = st a" "\<And>v. e = Some v \<Longrightarrow> uval v + 1 = st (a + 1)"
  shows "\<exists>f. search_from_first E t ff lf s e = Ret (Ok (Some f)) \<and> holds_target a b st (uval t) f"
proof (cases "\<exists>v. e = Some v \<and> uval t \<le> uval v")
  case True
  then show ?thesis using assms by (auto simp: search_from_first_def holds_target_def)
next
  case not_first: False
  obtain ls le where l: "find_valid_file_backward E lf ff = Ret (Ok (Some (lf, ls, le)))" "uval ls = st b"
    "\<And>v. le = Some v \<Longrightarrow> st b \<le> uval v"
    using backward_immediate [OF assms(1), of lf ff] assms(3,4) by auto
  have eq: "search_from_first E t ff lf s e =
      (if uval t > st b then Ret (Ok (Some lf)) else binary_search E t 1 ff lf e ls)"
    using not_first l assms(5,6) l(3) [of "the le"]
    by (auto simp: search_from_first_def split: option.splits)
  show ?thesis
  proof (cases "uval t > st b \<or> a = b")
    case True
    then show ?thesis using assms eq
      by (auto simp: holds_target_def binary_search.simps [of E t "Suc 0" ff lf] uintn_eq_uval)
  next
    case False
    then show ?thesis using binary_search_finds [OF assms(1), of ff lf t e ls 1] assms l(2) eq by auto
  qed
qed

lemma find_file_finds:
  assumes "ready" "a \<le> b" "st a \<le> uval t" "le_s3 E = None"
    and "le_store_first E = Ok sf" "le_store_last E = Ok sl" "le_wal_first E = Ok wf'" "le_wal_last E = Ok wl"
    and "first_of_three sf wf' None = Some ff" "uval ff = a" "last_of_two sl wl = Some lf" "uval lf = b"
  shows "\<exists>f. find_file_with_s3 E t = Ret (Ok (Some f)) \<and> holds_target a b st (uval t) f"
proof -
  obtain rng s e where f: "le_store_range E ff = Ret (Ok rng)" "first_file_range E ff rng = Inr (s, e)"
    "uval s = st a" "\<And>v. e = Some v \<Longrightarrow> uval v + 1 = st (a + 1)"
    using first_range [OF assms(1), of ff] assms(2,10) by auto
  obtain rng' where l: "le_store_range E lf = Ret (Ok rng')"
    using first_range [OF assms(1), of lf] assms(2,12) by auto
  have "find_file_with_s3 E t = search_from_first E t ff lf s e"
    using assms f l by (simp add: find_file_with_s3_def s3_first_def)
  then show ?thesis using search_finds [OF assms(1,10,12,2,3) f(3)] f(4) by simp
qed

end

section \<open>The files of a queue on disk\<close>

text \<open>
  The situation the search is used in: the files of a chain, the first \<open>m\<close> of them in the store and the others
  still in the WAL, the last perhaps with a torn rest; the directories list them, and the cache of ranges is empty, as
  after a restart.
\<close>

definition lists_files :: "string \<Rightarrow> node option \<Rightarrow> nat \<Rightarrow> nat \<Rightarrow> bool" where
  "lists_files extension tree i j \<longleftrightarrow>
     (\<exists>n. tree = Some n \<and> id_root extension n \<and> hex_nat ` set (dir_hexes extension n) = {i..<j})"

fun in_store :: "store_ext \<Rightarrow> fs_view \<Rightarrow> persist_store \<Rightarrow> queue_id \<Rightarrow> log_file \<Rightarrow> bool" where
  "in_store S V store q (f, h, es) \<longleftrightarrow> es \<noteq> [] \<and> length es < 2 ^ 64 \<and>
     (\<exists>w tail data. fv_read V (queue_id_to_store_path (se_ext S) q (ps_root store) f) =
        Ok (store_file_bytes S (ps_crypto_ctx store) w (content_of S h es tail) data))"

fun in_wal :: "store_ext \<Rightarrow> fs_view \<Rightarrow> persist_store \<Rightarrow> queue_id \<Rightarrow> log_file \<Rightarrow> bool" where
  "in_wal S V store q (f, h, es) \<longleftrightarrow>
     fv_read V (queue_id_to_store_path (se_ext S) q (ps_root store) f) = Err NotFound \<and>
     (\<exists>tail. fv_read V (queue_id_to_wal_path (se_ext S) q (ps_root store) f) =
        Ok (wal_file_bytes (se_ext S) h es @ tail))"

definition chain_on_disk ::
  "store_ext \<Rightarrow> fs_view \<Rightarrow> persist_store \<Rightarrow> queue_id \<Rightarrow> nat \<Rightarrow> nat \<Rightarrow> nat \<Rightarrow> log_file list \<Rightarrow> bool" where
  "chain_on_disk S V store q k n m files \<longleftrightarrow>
     store_ext_ok S \<and> ubig_hex_ok (se_ext S) \<and> hex_decode_ok (se_ext S) \<and>
     files \<noteq> [] \<and> m \<le> length files \<and> wal_chain (se_ext S) k n files \<and>
     list_all (in_store S V store q) (take m files) \<and> list_all (in_wal S V store q) (drop m files) \<and>
     ps_range_store store = range_store_new (ps_root store) (ps_crypto_ctx store)
       (swc_verify_signatures (ps_config store)) \<and>
     (\<forall>dir. fv_mkdir V dir = Ok ()) \<and>
     lists_files ''store'' (created_dir V (queue_id_to_store_dir q (ps_root store))) k (k + m) \<and>
     lists_files ''wal'' (created_dir V (queue_id_to_wal_dir q (ps_root store))) (k + m) (k + length files)"

definition start_of :: "nat \<Rightarrow> nat \<Rightarrow> log_file list \<Rightarrow> nat \<Rightarrow> nat" where
  "start_of k n files j = n + length (logged (take (j - k) files))"

lemma wal_chain_nth:
  "wal_chain X k n files \<Longrightarrow> i < length files \<Longrightarrow> files ! i = (f, h, es) \<Longrightarrow>
   uval f = k + i \<and> uval (wh_num_entries_before h) = n + length (logged (take i files)) \<and>
   ids es = [n + length (logged (take i files))..<n + length (logged (take i files)) + length es] \<and>
   wal_header_readable X h \<and> uintn_size_in_bytes X (wh_num_entries_before h) \<le> 16"
proof (induction X k n files arbitrary: i rule: wal_chain.induct)
  case (2 X k n f' h' es' fs)
  show ?case
  proof (cases i)
    case 0
    then show ?thesis using 2 by auto
  next
    case (Suc j)
    then show ?thesis using 2(1) [of j] 2(2-4) by (simp add: add.assoc)
  qed
qed simp

lemma to_file_path_uval:
  "ubig_hex_ok X \<Longrightarrow> uval f = uval g \<Longrightarrow> uintn_to_file_path X f base e = uintn_to_file_path X g base e"
  by (simp add: uintn_to_file_path_eq)

lemma read_wal_header_file:
  assumes "ubig_bytes_ok X" "wal_header_readable X h" "uintn_size_in_bytes X (wh_num_entries_before h) \<le> 16"
    and "fs (uintn_to_file_path X f base ''wal'') = Ok (wal_file_bytes X h es @ tail)"
  shows "read_wal_header X fs base f = Ok h"
proof -
  have len: "length (wal_header_enc X h) \<le> 48" using assms(1,3) by (simp add: length_wal_header_enc)
  then have "take 128 (wal_file_bytes X h es @ tail) =
      wal_header_enc X h @ take (128 - length (wal_header_enc X h)) (entries_enc X h es @ tail)"
    by (simp add: wal_file_bytes_def)
  then show ?thesis
    using assms wal_file_not_Nil [OF assms(1), of h es] wal_header_from_reader_enc [OF assms(1)]
    by (simp add: read_wal_header_def wal_header_readable_def)
qed

lemma store_file_range:
  assumes "store_ext_ok S" "ubig_hex_ok (se_ext S)" "wal_header_readable (se_ext S) h"
    and "uintn_size_in_bytes (se_ext S) (wh_num_entries_before h) \<le> 16"
    and "in_store S V store q (g, h, es)" "uval g = uval f"
    and "ps_range_store store = range_store_new (ps_root store) (ps_crypto_ctx store) v"
  shows "\<exists>e. le_store_range (lookup_env_of S V store root q s3) f = Ret (Ok (Some (wh_num_entries_before h, e))) \<and>
    uval e + 1 = uval (wh_num_entries_before h) + length es \<and> canonical e"
proof -
  obtain w tail data where stored: "fv_read V (queue_id_to_store_path (se_ext S) q (ps_root store) f) =
      Ok (store_file_bytes S (ps_crypto_ctx store) w (content_of S h es tail) data)"
    and es: "es \<noteq> []" "length es < 2 ^ 64"
    using assms(5) to_file_path_uval [OF assms(2,6)] by (auto simp: queue_id_to_store_path_def)
  let ?before = "wh_num_entries_before h"
  have before: "canonical ?before" "wal_content_ok (se_ext S) (content_of S h es tail)"
    using assms(3) size_from_u64 [of "se_ext S" "of_nat (length es)"]
    by (simp_all add: wal_header_readable_def wal_header_ok_def uintn_encodable_def wal_content_ok_def)
  obtain last_id k where last_id: "uval last_id + 1 = uval ?before + length es"
    "uintn_sub (uintn_from_u64 (of_nat (length es))) uintn_one = Ret (Ok k)" "uintn_add ?before k = last_id"
    by (rule last_entry_id [OF before(1), of "length es"]) (use es in auto)
  have "canonical k" by (rule uintn_sub_one [OF canonical_from_u64 [of "of_nat (length es)"]]) (use last_id(2) in auto)
  then have can: "canonical last_id" using last_id(3) before(1) canonical_add by blast
  have "uval (uintn_from_u64 (of_nat (length es))) \<noteq> 0" using es by (simp add: unat_of_nat_word)
  with last_id have "read_range_from_fs S (fv_read V) (ps_range_store store) q f = Ret (Ok (Some (?before, last_id)))"
    using assms(1,4,7) stored before(2) size_from_u64 [of "se_ext S" "of_nat (length es)"]
    by (subst read_range_written [where c = "content_of S h es tail" and data = data and w = w])
       (auto simp: range_store_new_def)
  then have "le_store_range (lookup_env_of S V store root q s3) f = Ret (Ok (Some (?before, last_id)))"
    using assms(7) by (simp add: lookup_env_of_def get_file_range_def get_range_def range_store_new_def)
  then show ?thesis using last_id(1) can by blast
qed

lemma wal_file_start:
  assumes "ubig_bytes_ok (se_ext S)" "ubig_hex_ok (se_ext S)" "wal_header_readable (se_ext S) h"
    and "uintn_size_in_bytes (se_ext S) (wh_num_entries_before h) \<le> 16"
    and "in_wal S V store q (g, h, es)" "uval g = uval f"
    and "ps_range_store store = range_store_new (ps_root store) (ps_crypto_ctx store) v"
  shows "le_store_range (lookup_env_of S V store (ps_root store) q s3) f = Ret (Ok None)"
    and "le_wal_before (lookup_env_of S V store (ps_root store) q s3) f = Ok (wh_num_entries_before h)"
proof -
  obtain tail where "fv_read V (queue_id_to_store_path (se_ext S) q (ps_root store) f) = Err NotFound"
    and wal: "fv_read V (uintn_to_file_path (se_ext S) f (queue_id_to_wal_dir q (ps_root store)) ''wal'') =
      Ok (wal_file_bytes (se_ext S) h es @ tail)"
    using assms(5) to_file_path_uval [OF assms(2,6)]
    by (auto simp: queue_id_to_store_path_def queue_id_to_wal_path_def)
  then show "le_store_range (lookup_env_of S V store (ps_root store) q s3) f = Ret (Ok None)"
    using assms(7)
    by (simp add: lookup_env_of_def get_file_range_def get_range_def range_store_new_def read_range_from_fs_def)
  show "le_wal_before (lookup_env_of S V store (ps_root store) q s3) f = Ok (wh_num_entries_before h)"
    using read_wal_header_file [where fs = "fv_read V", OF assms(1,3,4) wal]
    by (simp add: lookup_env_of_def wal_get_entries_before_def)
qed

lemma list_all_take_drop:
  "list_all P (take m xs) \<Longrightarrow> i < m \<Longrightarrow> i < length xs \<Longrightarrow> P (xs ! i)"
  "list_all Q (drop m xs) \<Longrightarrow> \<not> i < m \<Longrightarrow> i < length xs \<Longrightarrow> Q (xs ! i)"
proof -
  assume "list_all P (take m xs)" "i < m" "i < length xs"
  then show "P (xs ! i)" by (auto simp: list_all_length)
next
  assume "list_all Q (drop m xs)" "\<not> i < m" "i < length xs"
  then have "Q (drop m xs ! (i - m))" unfolding list_all_length by (metis diff_less_mono length_drop not_less)
  then show "Q (xs ! i)" using \<open>\<not> i < m\<close> \<open>i < length xs\<close> by simp
qed

interpretation disk_files:
  ordered_files "chain_on_disk S V store q k n m files" "lookup_env_of S V store (ps_root store) q s3" k
    "k + length files - 1" "start_of k n files" for S V store q k n m files s3
proof unfold_locales
  fix f
  assume c: "chain_on_disk S V store q k n m files" "k \<le> uval f" "uval f \<le> k + length files - 1"
  note d = c(1) [unfolded chain_on_disk_def]
  let ?E = "lookup_env_of S V store (ps_root store) q s3" and ?i = "uval f - k"
  obtain g h es where g: "files ! ?i = (g, h, es)" by (cases "files ! ?i") auto
  have "files \<noteq> []" using d by blast
  then have i: "?i < length files" using c(2,3) by (cases files) auto
  have ch: "uval g = uval f" "uval (wh_num_entries_before h) = start_of k n files (uval f)"
    "wal_header_readable (se_ext S) h" "uintn_size_in_bytes (se_ext S) (wh_num_entries_before h) \<le> 16"
    using wal_chain_nth [of "se_ext S" k n files ?i g h es] d i g c(2) by (auto simp: start_of_def)
  have next_start: "start_of k n files (uval f + 1) = start_of k n files (uval f) + length es"
    using i g c(2) by (simp add: start_of_def Suc_diff_le take_Suc_conv_app_nth)
  show "\<exists>s. uval s = start_of k n files (uval f) \<and>
      ((\<exists>e. le_store_range ?E f = Ret (Ok (Some (s, e))) \<and> uval s \<le> uval e \<and> uval e + 1 = start_of k n files (uval f + 1)) \<or>
       (le_store_range ?E f = Ret (Ok None) \<and> le_wal_before ?E f = Ok s))"
  proof (cases "?i < m")
    case True
    then have st: "in_store S V store q (g, h, es)"
      using list_all_take_drop(1) [of "in_store S V store q" m files ?i] d i g by metis
    obtain e where e: "le_store_range ?E f = Ret (Ok (Some (wh_num_entries_before h, e)))"
      "uval e + 1 = uval (wh_num_entries_before h) + length es"
      using store_file_range [OF _ _ ch(3,4) st ch(1), where root = "ps_root store"] d by metis
    have "0 < length es" using st by simp
    then have "uval (wh_num_entries_before h) \<le> uval e" using e(2) by linarith
    then show ?thesis using e ch(2) next_start by (intro exI [of _ "wh_num_entries_before h"]) simp
  next
    case False
    then have "in_wal S V store q (g, h, es)"
      using list_all_take_drop(2) [of "in_wal S V store q" m files ?i] d i g by metis
    then show ?thesis
      using wal_file_start [OF _ _ ch(3,4) _ ch(1)] d ch(2) by (metis store_ext_ok_def)
  qed
next
  fix j
  assume "k \<le> j"
  then show "start_of k n files j \<le> start_of k n files (j + 1)"
    by (cases "j - k < length files")
       (simp_all add: start_of_def Suc_diff_le take_Suc_conv_app_nth)
qed

text \<open>The identifiers the search computes are in the representation of their width, as the key derivation of files needs it.\<close>

lemma canonical_middle:
  assumes "canonical a" "canonical b"
  shows "canonical (uintn_middle a b)"
  using assms
  by (cases a; cases b)
     (auto simp: canonical_def [of "U8 _"] canonical_def [of "U16 _"] canonical_def [of "U32 _"] canonical_def [of "U64 _"]
      canonical_def [of "U128 _"] canonical_def [of "Big _"] unat_half_sum ubig_try_into_def unat_of_nat_word Let_def)

lemma canonical_decrement: "uintn_decrement u = Ok v \<Longrightarrow> canonical v"
  by (auto simp: uintn_decrement_def split: if_splits uintn.splits)

lemma backward_canonical:
  "find_valid_file_backward E i m = Ret (Ok (Some (v, s, e))) \<Longrightarrow> canonical i \<Longrightarrow> canonical v"
proof (induction E i m arbitrary: v rule: find_valid_file_backward.induct)
  case (1 E i m)
  then show ?case
    by (subst (asm) (2) find_valid_file_backward.simps)
       (auto split: option.splits result.splits if_splits dest: canonical_decrement)
qed

lemma mid_lookup_canonical:
  assumes "mid_lookup E i l m = Ret r" "canonical l" "canonical m"
  shows "\<And>v s e. r = MidBackward v s e \<Longrightarrow> canonical v" "\<And>f. r = MidResult (Ok (Some f)) \<Longrightarrow> canonical f"
proof -
  have bw: "mid_backward E l m = Ret r \<Longrightarrow> (\<forall>v s e. r = MidBackward v s e \<longrightarrow> canonical v) \<and>
      (\<forall>f. r = MidResult (Ok (Some f)) \<longrightarrow> canonical f)"
    using assms(2,3) by (auto simp: mid_backward_def split: bind_splits result.splits option.splits dest: backward_canonical)
  have "(\<forall>v s e. r = MidBackward v s e \<longrightarrow> canonical v) \<and> (\<forall>f. r = MidResult (Ok (Some f)) \<longrightarrow> canonical f)"
    using assms(1) bw
    by (auto simp: mid_lookup_def split: bind_splits result.splits option.splits wal_error.splits)
  then show "\<And>v s e. r = MidBackward v s e \<Longrightarrow> canonical v" "\<And>f. r = MidResult (Ok (Some f)) \<Longrightarrow> canonical f" by blast+
qed

lemma next_lookup_canonical:
  "next_lookup E i m x = Ret (Inl (Ok (Some f))) \<Longrightarrow> canonical m \<Longrightarrow> canonical f"
  by (auto simp: next_lookup_def split: bind_splits result.splits option.splits wal_error.splits)

lemma binary_search_canonical:
  assumes "binary_search E t i l r le rs = Ret (Ok (Some f))" "canonical l" "canonical r"
  shows "canonical f"
proof -
  have "\<forall>f. canonical l \<longrightarrow> canonical r \<longrightarrow> y = Ok (Some f) \<longrightarrow> canonical f" if "binary_search E t i l r le rs = Ret y" for y
  proof (rule binary_search.raw_induct [where P = "\<lambda>E t i l r le rs y. \<forall>f. canonical l \<longrightarrow> canonical r \<longrightarrow> y = Ok (Some f) \<longrightarrow> canonical f",
        OF _ that], goal_cases)
    case (1 bs E t i l r le rs y)
    show ?case
    proof (intro allI impI)
      fix f assume c: "canonical l" "canonical r" and y: "y = Ok (Some f)"
      have m: "canonical (uintn_middle l r)" by (rule canonical_middle [OF c])
      show "canonical f"
        using 1(2) c m y
        by (auto split: if_splits bind_splits mid_file.splits option.splits sum.splits
            dest!: 1(1) dest: mid_lookup_canonical [OF _ c(1) m] next_lookup_canonical simp: Let_def)
    qed
  qed
  with assms show ?thesis by blast
qed

lemma find_file_canonical:
  assumes "find_file_with_s3 E t = Ret (Ok (Some f))" "le_store_first E = Ok sf" "le_store_last E = Ok sl"
    "le_wal_first E = Ok fw" "le_wal_last E = Ok lw" "first_of_three sf fw (s3_first E) = Some ff" "canonical ff"
    "last_of_two sl lw = Some lf" "canonical lf"
  shows "canonical f"
proof -
  have inl: "first_file_range E ff x = Inl r \<Longrightarrow> r \<noteq> Ok (Some f)" for x r
    by (auto simp: first_file_range_def split: option.splits result.splits wal_error.splits)
  then obtain s e where "search_from_first E t ff lf s e = Ret (Ok (Some f))"
    using assms(1-6,8)
    by (auto simp: find_file_with_s3_def split: bind_splits result.splits sum.splits prod.splits)
  then show ?thesis
    using assms(7,9)
    by (auto simp: search_from_first_def split: if_splits bind_splits result.splits option.splits prod.splits
        dest: backward_canonical binary_search_canonical)
qed

text \<open>What the directories list is what the searches for the first and the last file find.\<close>

lemma lists_files_min_max:
  assumes "lists_files e tree i j" "ubig_bytes_ok X" "hex_decode_ok X" "CHR ''.'' \<notin> set e" "slash \<notin> set e"
  shows "find_min_id X tree e = (if i < j then Ok (uintn_from_ubig i) else Err NoFilesFound)"
    and "find_max_id X tree e = (if i < j then Ok (uintn_from_ubig (j - 1)) else Err NoFilesFound)"
proof -
  obtain n where n: "tree = Some n" "id_root e n" "hex_nat ` set (dir_hexes e n) = {i..<j}"
    using assms(1) by (auto simp: lists_files_def)
  have empty: "dir_hexes e n = [] \<longleftrightarrow> \<not> i < j" using n(3) by force
  have "Min {i..<j} = i" if "i < j" using that by (intro Min_eqI) auto
  moreover have "Max {i..<j} = j - 1" if "i < j" using that by (intro Max_eqI) auto
  ultimately show "find_min_id X tree e = (if i < j then Ok (uintn_from_ubig i) else Err NoFilesFound)"
    "find_max_id X tree e = (if i < j then Ok (uintn_from_ubig (j - 1)) else Err NoFilesFound)"
    using find_min_id_correct [OF assms(2-5) n(2)] find_max_id_finds [OF assms(2-5) n(2)] n(1,3) empty by auto
qed

lemma chain_first_last:
  assumes "chain_on_disk S V store q k n m files"
  obtains sf sl fw lw ff lf where
    "le_store_first (lookup_env_of S V store (ps_root store) q s3) = Ok sf"
    "le_store_last (lookup_env_of S V store (ps_root store) q s3) = Ok sl"
    "le_wal_first (lookup_env_of S V store (ps_root store) q s3) = Ok fw"
    "le_wal_last (lookup_env_of S V store (ps_root store) q s3) = Ok lw"
    "first_of_three sf fw None = Some ff" "uval ff = k" "canonical ff"
    "last_of_two sl lw = Some lf" "uval lf = k + length files - 1" "canonical lf"
proof -
  note d = assms [unfolded chain_on_disk_def]
  let ?id = "\<lambda>i j v. if i < j then Some (uintn_from_ubig v) else None"
  let ?len = "length files"
  have X: "ubig_bytes_ok (se_ext S)" "hex_decode_ok (se_ext S)" using d by (simp_all add: store_ext_ok_def)
  have pos: "0 < ?len" "m \<le> ?len" using d by simp_all
  have ls: "lists_files ''store'' (created_dir V (queue_id_to_store_dir q (ps_root store))) k (k + m)"
    "lists_files ''wal'' (created_dir V (queue_id_to_wal_dir q (ps_root store))) (k + m) (k + ?len)"
    "\<And>dir. fv_mkdir V dir = Ok ()"
    using d by blast+
  have store: "store_get_first_file_id (se_ext S) V store q = Ok (?id k (k + m) k)"
    "store_get_last_file_id (se_ext S) V store q = Ok (?id k (k + m) (k + m - 1))"
    using lists_files_min_max [OF ls(1) X]
    by (simp_all add: store_get_first_file_id_def store_get_last_file_id_def ls(3) Let_def)
  have wal: "wal_get_first_file_id (se_ext S) V (ps_root store) q = Ok (?id (k + m) (k + ?len) (k + m))"
    "wal_get_last_file_id (se_ext S) V (ps_root store) q = Ok (?id (k + m) (k + ?len) (k + ?len - 1))"
    using lists_files_min_max [OF ls(2) X]
    by (simp_all add: wal_get_first_file_id_def wal_get_last_file_id_def ls(3) Let_def)
  show thesis
    using that [of "?id k (k + m) k" "?id k (k + m) (k + m - 1)" "?id (k + m) (k + ?len) (k + m)"
        "?id (k + m) (k + ?len) (k + ?len - 1)" "uintn_from_ubig k" "uintn_from_ubig (k + ?len - 1)"] store wal pos
    by (cases "m = 0"; cases "m = ?len") (auto simp: lookup_env_of_def uintn_min_def uintn_max_def)
qed

lemma holds_target_entry:
  assumes "chain_on_disk S V store q k n m files"
    and "holds_target k (k + length files - 1) (start_of k n files) t f"
  obtains g h es where "(g, h, es) \<in> set files" "uval g = uval f" "t < n + length (logged files) \<Longrightarrow> t \<in> set (ids es)"
proof -
  note d = assms(1) [unfolded chain_on_disk_def] and h = assms(2) [unfolded holds_target_def]
  let ?i = "uval f - k"
  obtain g hd es where g: "files ! ?i = (g, hd, es)" by (cases "files ! ?i") auto
  have i: "?i < length files" using d h by (cases files) auto
  have ch: "uval g = k + ?i" "ids es = [start_of k n files (uval f)..<start_of k n files (uval f) + length es]"
    using wal_chain_nth [of "se_ext S" k n files ?i g hd es] d i g by (simp_all add: start_of_def)
  have "start_of k n files (uval f + 1) = start_of k n files (uval f) + length es"
    using i g h by (simp add: start_of_def Suc_diff_le take_Suc_conv_app_nth)
  moreover have "start_of k n files (uval f + 1) = n + length (logged files)" if "\<not> uval f < k + length files - 1"
    using that h i by (simp add: start_of_def)
  ultimately have "t \<in> set (ids es)" if "t < n + length (logged files)"
    using that h unfolding ch(2) by (cases "uval f < k + length files - 1") auto
  moreover have "(g, hd, es) \<in> set files" using i g by (metis nth_mem)
  ultimately show thesis using that ch(1) h by auto
qed

lemma lookup_chain:
  assumes "chain_on_disk S V store q k n m files" "n \<le> uval t"
  obtains f where "find_file_with_s3 (lookup_env_of S V store (ps_root store) q None) t = Ret (Ok (Some f))"
    "holds_target k (k + length files - 1) (start_of k n files) (uval t) f" "canonical f"
proof -
  let ?E = "lookup_env_of S V store (ps_root store) q None"
  obtain sf sl fw lw ff lf where fl: "le_store_first ?E = Ok sf" "le_store_last ?E = Ok sl"
    "le_wal_first ?E = Ok fw" "le_wal_last ?E = Ok lw" "first_of_three sf fw None = Some ff" "uval ff = k" "canonical ff"
    "last_of_two sl lw = Some lf" "uval lf = k + length files - 1" "canonical lf"
    by (rule chain_first_last [OF assms(1)])
  have "files \<noteq> []" using assms(1) by (simp add: chain_on_disk_def)
  then have 1: "k \<le> k + length files - 1" "start_of k n files k \<le> uval t" "le_s3 ?E = None"
    using assms(2) by (cases files; simp add: start_of_def lookup_env_of_def)+
  from disk_files.find_file_finds [OF assms(1) 1 fl(1-6,8,9)]
  obtain f where f: "find_file_with_s3 ?E t = Ret (Ok (Some f))"
    "holds_target k (k + length files - 1) (start_of k n files) (uval t) f" by blast
  moreover have "canonical f"
    using find_file_canonical [OF f(1) fl(1-4) _ fl(7,8,10)] fl(5) 1(3) by (simp add: s3_first_def)
  ultimately show thesis by (rule that)
qed

section \<open>Properties\<close>

text \<open>
  C8. The lookup finds the file. When the files of a queue are a chain, the first of them in
  the store and the others in the WAL, listed by the directories, then the lookup of an identifier
  from the first entry on returns, and the file it returns is the one that holds the
  entry; an identifier beyond the last entry leads to some file of the chain too.
\<close>

theorem lookup_finds_entry:
  assumes "chain_on_disk S V store q k n m files" "n \<le> uval t"
  shows "\<exists>f g h es. find_file_with_s3 (lookup_env_of S V store (ps_root store) q None) t = Ret (Ok (Some f)) \<and>
    (g, h, es) \<in> set files \<and> uval g = uval f \<and>
    (uval t < n + length (logged files) \<longrightarrow> uval t \<in> set (ids es))"
proof -
  obtain f where "find_file_with_s3 (lookup_env_of S V store (ps_root store) q None) t = Ret (Ok (Some f))"
    "holds_target k (k + length files - 1) (start_of k n files) (uval t) f"
    by (rule lookup_chain [OF assms])
  with holds_target_entry [OF assms(1) this(2)] show ?thesis by metis
qed

definition sample_chain :: "log_file list" where
  "sample_chain =
     [(U8 1, wal_header_default, [(U8 0, [10]), (U8 1, [])]),
      (U8 2, wal_header_default \<lparr> wh_num_entries_before := U8 2 \<rparr>, [(U8 2, [12])])]"

definition sample_store :: persist_store where
  "sample_store = persist_store_new ''/d'' store_write_config_default sample_context"

definition sample_store_data :: bytes where
  "sample_store_data =
     (case maybe_compress_and_encrypt store_ext_ref sample_context
         (wal_file_bytes ext_ref wal_header_default [(U8 0, [10]), (U8 1, [])]) sample_wal_file of
        Ok data \<Rightarrow> data | Err _ \<Rightarrow> [])"

definition sample_store_file :: bytes where
  "sample_store_file = store_file_bytes store_ext_ref sample_context sample_wal_file
     (content_of store_ext_ref wal_header_default [(U8 0, [10]), (U8 1, [])] []) sample_store_data"

definition sample_files :: fs_view where
  "sample_files =
     (let q = \<lparr> qid_path = ''/i/q'' \<rparr> in
      \<lparr> fv_read = disk_fs [queue_id_to_store_path ext_ref q ''/d'' (U8 1) \<mapsto> sample_store_file,
          queue_id_to_wal_path ext_ref q ''/d'' (U8 2) \<mapsto>
            wal_file_bytes ext_ref (wal_header_default \<lparr> wh_num_entries_before := U8 2 \<rparr>) [(U8 2, [12])]],
        fv_tree = (\<lambda>dir. if dir = queue_id_to_store_dir q ''/d'' then Some (Dir [(''001.store'', File [])])
                         else Some (Dir [(''002.wal'', File [])])),
        fv_mkdir = (\<lambda>_. Ok ()), fv_walk = (\<lambda>_. []) \<rparr>)"

lemma sample_reads:
  "fv_read sample_files (queue_id_to_store_path ext_ref \<lparr> qid_path = ''/i/q'' \<rparr> ''/d'' (U8 1)) = Ok sample_store_file"
  "fv_read sample_files (queue_id_to_store_path ext_ref \<lparr> qid_path = ''/i/q'' \<rparr> ''/d'' (U8 2)) = Err NotFound"
  "fv_read sample_files (queue_id_to_wal_path ext_ref \<lparr> qid_path = ''/i/q'' \<rparr> ''/d'' (U8 2)) =
     Ok (wal_file_bytes ext_ref (wal_header_default \<lparr> wh_num_entries_before := U8 2 \<rparr>) [(U8 2, [12])])"
proof -
  let ?q = "\<lparr> qid_path = ''/i/q'' \<rparr>"
  have d: "queue_id_to_store_path ext_ref ?q ''/d'' (U8 1) \<noteq> queue_id_to_wal_path ext_ref ?q ''/d'' (U8 2)"
    "queue_id_to_store_path ext_ref ?q ''/d'' (U8 2) \<noteq> queue_id_to_wal_path ext_ref ?q ''/d'' (U8 2)"
    using worker_paths_differ(1) [of ext_ref] by (metis ext_ref_ok(2))+
  have "queue_id_to_store_path ext_ref ?q ''/d'' (U8 2) \<noteq> queue_id_to_store_path ext_ref ?q ''/d'' (U8 1)"
    using to_file_path_same [of ext_ref "''store''" "U8 2" "queue_id_to_store_dir ?q ''/d''" "U8 1"]
    by (auto simp: queue_id_to_store_path_def)
  then show "fv_read sample_files (queue_id_to_store_path ext_ref ?q ''/d'' (U8 1)) = Ok sample_store_file"
    "fv_read sample_files (queue_id_to_store_path ext_ref ?q ''/d'' (U8 2)) = Err NotFound"
    "fv_read sample_files (queue_id_to_wal_path ext_ref ?q ''/d'' (U8 2)) =
      Ok (wal_file_bytes ext_ref (wal_header_default \<lparr> wh_num_entries_before := U8 2 \<rparr>) [(U8 2, [12])])"
    using d by (simp_all add: sample_files_def disk_fs_def Let_def)
qed

lemma sample_stored:
  "in_store store_ext_ref sample_files sample_store \<lparr> qid_path = ''/i/q'' \<rparr> (sample_chain ! 0)"
  "in_wal store_ext_ref sample_files sample_store \<lparr> qid_path = ''/i/q'' \<rparr> (sample_chain ! 1)"
  using sample_reads
  by (auto simp: sample_chain_def sample_store_def persist_store_new_def store_ext_ref_def sample_store_file_def)

lemma sample_listed:
  "lists_files ''store'' (Some (Dir [(''001.store'', File [])])) 1 2"
  "lists_files ''wal'' (Some (Dir [(''002.wal'', File [])])) 2 3"
  by (auto simp: lists_files_def tree_eval upt_conv_Cons)

lemma sample_wal_chain: "wal_chain ext_ref 1 0 sample_chain"
  by (simp add: sample_chain_def wal_header_default_def uintn_zero_def upt_conv_Cons entry_ok_def canonical_def
      wal_header_readable_def wal_header_ok_def valid_sizes_def uintn_encodable_def)

lemma sample_chain_on_disk:
  "chain_on_disk store_ext_ref sample_files sample_store \<lparr> qid_path = ''/i/q'' \<rparr> 1 0 1 sample_chain"
proof -
  let ?q = "\<lparr> qid_path = ''/i/q'' \<rparr>"
  have len: "length sample_chain = 2" by (simp add: sample_chain_def)
  have dirs: "created_dir sample_files (queue_id_to_store_dir ?q ''/d'') = Some (Dir [(''001.store'', File [])])"
    "created_dir sample_files (queue_id_to_wal_dir ?q ''/d'') = Some (Dir [(''002.wal'', File [])])"
    by (simp_all add: created_dir_def sample_files_def queue_id_to_store_dir_def queue_id_to_wal_dir_def path_push_def Let_def)
  have "list_all (in_store store_ext_ref sample_files sample_store ?q) (take 1 sample_chain)"
    "list_all (in_wal store_ext_ref sample_files sample_store ?q) (drop 1 sample_chain)"
    using sample_stored by (simp_all add: sample_chain_def)
  moreover have "ps_root sample_store = ''/d''" "\<And>dir. fv_mkdir sample_files dir = Ok ()"
    "ps_range_store sample_store = range_store_new (ps_root sample_store) (ps_crypto_ctx sample_store)
       (swc_verify_signatures (ps_config sample_store))"
    by (simp_all add: sample_store_def persist_store_new_def sample_files_def Let_def)
  moreover have "se_ext store_ext_ref = ext_ref" "sample_chain \<noteq> []"
    by (simp_all add: store_ext_ref_def sample_chain_def)
  ultimately show ?thesis
    using sample_wal_chain len sample_listed dirs
    unfolding chain_on_disk_def by (simp add: numeral_2_eq_2 numeral_3_eq_3)
qed

theorem lookup_finds_entry_witness:
  "\<exists>f g h es. find_file_with_s3 (lookup_env_of store_ext_ref sample_files sample_store ''/d'' \<lparr> qid_path = ''/i/q'' \<rparr> None)
       (U8 2) = Ret (Ok (Some f)) \<and> (g, h, es) \<in> set sample_chain \<and> uval g = uval f \<and> 2 \<in> set (ids es)"
  using lookup_finds_entry [OF sample_chain_on_disk, of "U8 2"]
  by (auto simp: sample_store_def persist_store_new_def sample_chain_def)

definition gap_env :: lookup_env where
  "gap_env =
     \<lparr> le_store_first = Ok (Some (U8 1)), le_store_last = Ok (Some (U8 5)), le_wal_first = Ok (Some (U8 3)),
       le_wal_last = Ok (Some (U8 3)),
       le_store_range = (\<lambda>f. Ret (Ok (
          if uval f = 1 then Some (U8 0, U8 9) else if uval f = 2 then Some (U8 10, U8 19)
          else if uval f = 4 then Some (U8 20, U8 29) else if uval f = 5 then Some (U8 30, U8 39) else None))),
       le_wal_before = (\<lambda>f. Err (if uval f = 3 then WalEmpty f else WalNotFound)),
       le_s3 = None \<rparr>"

lemma gap_env_sel [simp]:
  "le_store_first gap_env = Ok (Some (U8 1))" "le_store_last gap_env = Ok (Some (U8 5))"
  "le_wal_first gap_env = Ok (Some (U8 3))" "le_wal_last gap_env = Ok (Some (U8 3))"
  "le_store_range gap_env (U8 1) = Ret (Ok (Some (U8 0, U8 9)))"
  "le_store_range gap_env (U8 2) = Ret (Ok (Some (U8 10, U8 19)))"
  "le_store_range gap_env (U8 3) = Ret (Ok None)"
  "le_store_range gap_env (U8 5) = Ret (Ok (Some (U8 30, U8 39)))"
  "le_wal_before gap_env (U8 3) = Err (WalEmpty (U8 3))" "le_s3 gap_env = None"
  by (simp_all add: gap_env_def)

lemma gap_backward:
  "find_valid_file_backward gap_env (U8 5) m = Ret (Ok (Some (U8 5, U8 30, Some (U8 39))))"
  "find_valid_file_backward gap_env (U8 2) m = Ret (Ok (Some (U8 2, U8 10, Some (U8 19))))"
  "find_valid_file_backward gap_env (U8 3) (U8 2) = Ret (Ok (Some (U8 2, U8 10, Some (U8 19))))"
proof -
  show 2: "find_valid_file_backward gap_env (U8 2) m = Ret (Ok (Some (U8 2, U8 10, Some (U8 19))))" for m
    by (simp add: find_valid_file_backward.simps [of gap_env "U8 2"])
  show "find_valid_file_backward gap_env (U8 5) m = Ret (Ok (Some (U8 5, U8 30, Some (U8 39))))"
    by (simp add: find_valid_file_backward.simps [of gap_env "U8 5"])
  show "find_valid_file_backward gap_env (U8 3) (U8 2) = Ret (Ok (Some (U8 2, U8 10, Some (U8 19))))"
    using 2 [of "U8 2"]
    by (simp add: find_valid_file_backward.simps [of gap_env "U8 3"] missing_or_empty_def uintn_decrement_def
        uintn_from_u8_def)
qed


text \<open>
  C35. The search does not return while the cloud fails: when the middle file is neither in the store nor in
  the WAL and every request for its range fails, the round is repeated for ever, although the
  message says that the search goes on without this file.
\<close>

theorem lookup_cloud_failure_loops:
  assumes "le_s3 E = Some s3" "uval l + 1 < uval r"
    and "le_store_range E (uintn_middle l r) = Ret (Ok None)" "le_wal_before E (uintn_middle l r) = Err WalNotFound"
    and "\<And>i. \<exists>e. s3_file_range s3 i (uintn_middle l r) = Err e"
  shows "binary_search E t i l r le rs = None"
proof -
  have again: "mid_lookup E i l (uintn_middle l r) = Ret MidAgain" for i
    using assms(1,3,4) assms(5) [of i] by (auto simp: mid_lookup_def)
  have "\<not> (E' = E \<and> l' = l \<and> r' = r)" if "binary_search E' t' i' l' r' le' rs' = Some y" for E' t' i' l' r' le' rs' y
  proof (rule binary_search.raw_induct [where P = "\<lambda>E' t' i' l' r' le' rs' y. \<not> (E' = E \<and> l' = l \<and> r' = r)", OF _ that], goal_cases)
    case (1 bs E' t' i' l' r' le' rs' y)
    show ?case
    proof
      assume eq: "E' = E \<and> l' = l \<and> r' = r"
      have "bs E t' (i' + 1) l r le' rs' = Some y"
        using 1(2) eq again assms(2) by (simp add: uintn_eq_uval Let_def)
      with 1(1) show False by blast
    qed
  qed
  then show ?thesis by (cases "binary_search E t i l r le rs") blast+
qed

theorem lookup_cloud_failure_loops_witness:
  "binary_search (gap_env \<lparr> le_wal_before := (\<lambda>_. Err WalNotFound),
       le_s3 := Some \<lparr> s3_find_min_id = Ok None, s3_file_range = (\<lambda>_ _. Err ''timeout'') \<rparr> \<rparr>)
     (U8 25) 1 (U8 1) (U8 5) (Some (U8 9)) (U8 30) = None"
  by (rule lookup_cloud_failure_loops [where ?s3.0 = "\<lparr> s3_find_min_id = Ok None, s3_file_range = (\<lambda>_ _. Err ''timeout'') \<rparr>"])
     (simp_all add: gap_env_def)

end
