(* ===== verification/Mem_Queue.thy ===== *)
theory Mem_Queue
  imports Wal_Correct Ordered_Buffer Transition
begin

text \<open>
  The in-memory tail of the queues (\<open>normfs/src/mem/mod.rs\<close>). A \<open>MemQueue\<close> assigns the identifiers,
  keeps the latest entries, drops entries that the WAL has acknowledged when it is over its
  memory limit, and serves reads and subscriptions.

  Locks are held for the whole of each operation, except in the follow operations, which
  read the entries under the lock, send them, and register the subscription after that: they are
  two definitions, \<open>follow_snapshot\<close> and \<open>follow_register\<close>, and their composition. A receiver is a
  \<open>target\<close>: whether it refuses the \<open>t\<close>-th entry, and what it got. The subscribers are an
  association list by their number; a follower is the data its closure captures, any other
  callback is a function of the batches it has been given. \<open>Panic\<close> also stands for a loop
  that does not end (a read with step 0).
\<close>

section \<open>Model\<close>

record mem_read_result =
  mr_success :: bool
  mr_start_id :: "uintn option"
  mr_subscription_id :: "usize option"

definition mem_read_result_fail :: mem_read_result where
  "mem_read_result_fail = \<lparr> mr_success = False, mr_start_id = None, mr_subscription_id = None \<rparr>"

record target =
  tg_refuses :: channel
  tg_looks :: nat
  tg_sent :: "read_entry list"

definition target_send :: "target \<Rightarrow> uintn \<times> bytes \<Rightarrow> target \<times> bool" where
  "target_send tg e =
     (if tg_refuses tg (tg_looks tg) then (tg \<lparr> tg_looks := tg_looks tg + 1 \<rparr>, False)
      else (tg \<lparr> tg_looks := tg_looks tg + 1,
                 tg_sent := tg_sent tg @ [read_entry_new (fst e) (snd e) Memory] \<rparr>, True))"

fun target_send_all :: "target \<Rightarrow> (uintn \<times> bytes) list \<Rightarrow> target \<times> bool" where
  "target_send_all tg [] = (tg, True)"
| "target_send_all tg (e # es) =
     (let (tg, sent) = target_send tg e in if sent then target_send_all tg es else (tg, False))"

datatype subscriber =
    Follower "uintn option" uintn usize target
  | Callback "(uintn \<times> bytes) list list \<Rightarrow> bool" "(uintn \<times> bytes) list list"

record mem_inner =
  mi_entries :: "(uintn \<times> bytes) list"
  mi_last_id :: "uintn option"
  mi_first_id :: "uintn option"
  mi_last_acked_id :: "uintn option"
  mi_memory_usage :: usize

record mem_queue =
  mq_inner :: mem_inner
  mq_max_memory_usage :: usize
  mq_subscribers :: "(usize \<times> subscriber) list"
  mq_next_subscriber_id :: usize

definition mem_queue_new :: "uintn option \<Rightarrow> usize \<Rightarrow> mem_queue" where
  "mem_queue_new last_id max_memory_usage =
     \<lparr> mq_inner = \<lparr> mi_entries = [], mi_last_id = last_id, mi_first_id = None,
                   mi_last_acked_id = None, mi_memory_usage = 0 \<rparr>,
       mq_max_memory_usage = max_memory_usage, mq_subscribers = [], mq_next_subscriber_id = 0 \<rparr>"

definition usize_sub :: "usize \<Rightarrow> usize \<Rightarrow> usize run" where
  "usize_sub a b = (if b \<le> a then Ret (a - b) else Panic)"

definition cleanup_unlocked :: "usize \<Rightarrow> mem_inner \<Rightarrow> mem_inner run" where
  "cleanup_unlocked max_memory_usage inner =
     (if mi_memory_usage inner \<le> max_memory_usage then Ret inner
      else case mi_last_acked_id inner of
        None \<Rightarrow> Ret inner
      | Some last_acked_id \<Rightarrow>
          let to_remove = length (takeWhile (\<lambda>entry. fst entry \<le> last_acked_id) (mi_entries inner))
          in if to_remove > 0 then do {
               let memory_removed = sum_list (map (\<lambda>e. length (snd e)) (take to_remove (mi_entries inner)));
               let entries = drop to_remove (mi_entries inner);
               usage \<leftarrow> usize_sub (mi_memory_usage inner) memory_removed;
               Ret (inner \<lparr> mi_entries := entries, mi_memory_usage := usage,
                            mi_first_id := (if entries = [] then None else Some (fst (hd entries))) \<rparr>) }
             else Ret inner)"

text \<open>A follower's closure, and the calls of all subscribers; those that fail are removed.\<close>

fun follower_deliver ::
  "uintn option \<Rightarrow> uintn \<Rightarrow> usize \<Rightarrow> target \<Rightarrow> (uintn \<times> bytes) list \<Rightarrow> (target \<times> bool) run" where
  "follower_deliver last_sent_id from_id step tg [] = Ret (tg, True)"
| "follower_deliver last_sent_id from_id step tg ((i, data) # entries) =
     (if (case last_sent_id of Some last_id \<Rightarrow> i \<le> last_id | None \<Rightarrow> False)
      then follower_deliver last_sent_id from_id step tg entries
      else do {
        on_step \<leftarrow> uintn_in_step i from_id step;
        if on_step then
          let (tg, sent) = target_send tg (i, data)
          in if sent then follower_deliver last_sent_id from_id step tg entries else Ret (tg, False)
        else follower_deliver last_sent_id from_id step tg entries })"

fun subscriber_call :: "subscriber \<Rightarrow> (uintn \<times> bytes) list \<Rightarrow> (subscriber \<times> bool) run" where
  "subscriber_call (Follower last_sent_id from_id step tg) entries = do {
     (tg, ok) \<leftarrow> follower_deliver last_sent_id from_id step tg entries;
     Ret (Follower last_sent_id from_id step tg, ok) }"
| "subscriber_call (Callback f calls) entries =
     Ret (Callback f (calls @ [entries]), f (calls @ [entries]))"

fun notify_loop ::
  "(usize \<times> subscriber) list \<Rightarrow> (uintn \<times> bytes) list \<Rightarrow> (usize \<times> subscriber) list run" where
  "notify_loop [] entries = Ret []"
| "notify_loop ((k, s) # subs) entries = do {
     (s, keep) \<leftarrow> subscriber_call s entries;
     subs \<leftarrow> notify_loop subs entries;
     Ret (if keep then (k, s) # subs else subs) }"

definition notify_subscribers :: "mem_queue \<Rightarrow> (uintn \<times> bytes) list \<Rightarrow> mem_queue run" where
  "notify_subscribers self entries = do {
     subs \<leftarrow> notify_loop (mq_subscribers self) entries;
     Ret (self \<lparr> mq_subscribers := subs \<rparr>) }"

definition next_entry_id :: "mem_inner \<Rightarrow> uintn" where
  "next_entry_id inner =
     (case mi_last_id inner of None \<Rightarrow> uintn_zero | Some i \<Rightarrow> uintn_increment i)"

definition mem_enqueue :: "mem_queue \<Rightarrow> bytes \<Rightarrow> (mem_queue \<times> uintn) run" where
  "mem_enqueue self data = do {
     let inner = mq_inner self;
     let i = next_entry_id inner;
     let inner = (if mi_first_id inner = None then inner \<lparr> mi_first_id := Some i \<rparr> else inner);
     let inner = inner \<lparr> mi_last_id := Some i \<rparr>;
     let has_subscribers = (mq_subscribers self \<noteq> []);
     usage \<leftarrow> usize_add (mi_memory_usage inner) (length data);
     let inner = inner \<lparr> mi_entries := mi_entries inner @ [(i, data)], mi_memory_usage := usage \<rparr>;
     inner \<leftarrow> cleanup_unlocked (mq_max_memory_usage self) inner;
     let self = self \<lparr> mq_inner := inner \<rparr>;
     self \<leftarrow> (if has_subscribers then notify_subscribers self [(i, data)] else Ret self);
     Ret (self, i) }"

fun push_batch ::
  "mem_inner \<Rightarrow> uintn \<Rightarrow> bytes list \<Rightarrow> (mem_inner \<times> (uintn \<times> bytes) list) run" where
  "push_batch inner nid [] = Ret (inner, [])"
| "push_batch inner nid (data # rest) = do {
     usage \<leftarrow> usize_add (mi_memory_usage inner) (length data);
     (inner, pushed) \<leftarrow> push_batch
        (inner \<lparr> mi_entries := mi_entries inner @ [(nid, data)], mi_memory_usage := usage \<rparr>)
        (uintn_increment nid) rest;
     Ret (inner, (nid, data) # pushed) }"

definition mem_enqueue_batch :: "mem_queue \<Rightarrow> bytes list \<Rightarrow> (mem_queue \<times> uintn list) run" where
  "mem_enqueue_batch self entries =
     (if entries = [] then Ret (self, [])
      else do {
        let inner = mq_inner self;
        let nid = next_entry_id inner;
        let inner = (if mi_first_id inner = None then inner \<lparr> mi_first_id := Some nid \<rparr> else inner);
        let has_subscribers = (mq_subscribers self \<noteq> []);
        (inner, entries_with_ids) \<leftarrow> push_batch inner nid entries;
        let new_ids = map fst entries_with_ids;
        let inner = inner \<lparr> mi_last_id := Some (last new_ids) \<rparr>;
        inner \<leftarrow> cleanup_unlocked (mq_max_memory_usage self) inner;
        let self = self \<lparr> mq_inner := inner \<rparr>;
        self \<leftarrow> (if has_subscribers then notify_subscribers self entries_with_ids else Ret self);
        Ret (self, new_ids) })"

definition mem_get_last_id :: "mem_queue \<Rightarrow> uintn option" where
  "mem_get_last_id self = mi_last_id (mq_inner self)"

definition mem_ack :: "mem_queue \<Rightarrow> uintn \<Rightarrow> mem_queue run" where
  "mem_ack self i = do {
     let inner = mq_inner self;
     let inner =
       (if (case mi_last_acked_id inner of None \<Rightarrow> True | Some last_id \<Rightarrow> i > last_id)
        then inner \<lparr> mi_last_acked_id := Some i \<rparr> else inner);
     inner \<leftarrow> cleanup_unlocked (mq_max_memory_usage self) inner;
     Ret (self \<lparr> mq_inner := inner \<rparr>) }"

section \<open>Reads\<close>

text \<open>
  \<open>while current_id < entry.id\<close>: the first of the requested identifiers that is not before the
  entry. The variant of \<open>read_full\<close> also stops behind the end of the range.
\<close>

partial_function (option) advance_to :: "usize \<Rightarrow> uintn \<Rightarrow> uintn \<Rightarrow> uintn run" where
  "advance_to step current_id entry_id =
     (if current_id < entry_id then advance_to step (uintn_step_by current_id step) entry_id
      else Ret current_id)"

partial_function (option) advance_within :: "usize \<Rightarrow> uintn \<Rightarrow> uintn \<Rightarrow> uintn \<Rightarrow> uintn run" where
  "advance_within step end_id current_id entry_id =
     (if current_id < entry_id then
        let current_id = uintn_step_by current_id step
        in if current_id > end_id then Ret current_id
           else advance_within step end_id current_id entry_id
      else Ret current_id)"

fun read_loop ::
  "usize \<Rightarrow> uintn \<Rightarrow> uintn \<Rightarrow> (uintn \<times> bytes) list \<Rightarrow> (uintn \<times> bytes) list run" where
  "read_loop step end_id current_id [] = Ret []"
| "read_loop step end_id current_id (entry # entries) =
     (if fst entry > end_id then Ret []
      else do {
        current_id \<leftarrow> advance_within step end_id current_id (fst entry);
        if uintn_eq current_id (fst entry) then do {
          results \<leftarrow> read_loop step end_id (uintn_step_by current_id step) entries;
          Ret (entry # results) }
        else read_loop step end_id current_id entries })"

fun negative_loop ::
  "usize \<Rightarrow> u64 \<Rightarrow> u64 \<Rightarrow> uintn \<Rightarrow> (uintn \<times> bytes) list \<Rightarrow> (uintn \<times> bytes) list run" where
  "negative_loop step limit n current_id [] = Ret []"
| "negative_loop step limit n current_id (entry # entries) =
     (if limit > 0 \<and> n \<ge> limit then Ret []
      else do {
        current_id \<leftarrow> advance_to step current_id (fst entry);
        if uintn_eq current_id (fst entry) then do {
          results \<leftarrow> negative_loop step limit (n + 1) (uintn_step_by current_id step) entries;
          Ret (entry # results) }
        else negative_loop step limit n current_id entries })"

fun follow_loop :: "usize \<Rightarrow> uintn \<Rightarrow> (uintn \<times> bytes) list \<Rightarrow> (uintn \<times> bytes) list run" where
  "follow_loop step current_id [] = Ret []"
| "follow_loop step current_id (entry # entries) = do {
     current_id \<leftarrow> advance_to step current_id (fst entry);
     if uintn_eq current_id (fst entry) then do {
       results \<leftarrow> follow_loop step (uintn_step_by current_id step) entries;
       Ret (entry # results) }
     else follow_loop step current_id entries }"

definition from_start :: "uintn \<Rightarrow> (uintn \<times> bytes) list \<Rightarrow> (uintn \<times> bytes) list" where
  "from_start start_id entries = dropWhile (\<lambda>e. fst e < start_id) entries"

definition mem_read_full ::
  "mem_queue \<Rightarrow> uintn \<Rightarrow> uintn \<Rightarrow> usize \<Rightarrow> target \<Rightarrow> (target \<times> mem_read_result) run" where
  "mem_read_full self start_id end_id step tg =
     (let inner = mq_inner self;
          success = \<lparr> mr_success = True, mr_start_id = None, mr_subscription_id = None \<rparr>
      in case mi_last_id inner of
        None \<Rightarrow> Ret (tg, success)
      | Some mem_last_id \<Rightarrow>
          if start_id > mem_last_id then Ret (tg, success)
          else case mi_first_id inner of
            None \<Rightarrow> Ret (tg, mem_read_result_fail)
          | Some mem_start_id \<Rightarrow>
              if start_id < mem_start_id then Ret (tg, mem_read_result_fail)
              else do {
                entries_to_send \<leftarrow> read_loop step end_id start_id (from_start start_id (mi_entries inner));
                Ret (fst (target_send_all tg entries_to_send), success) })"

definition tail_start :: "uintn \<Rightarrow> uintn \<Rightarrow> uintn run" where
  "tail_start last_id offset =
     (if offset > last_id then Ret uintn_zero
      else do { d \<leftarrow> uintn_sub last_id offset; Ret (unwrap_or d uintn_zero) })"

definition mem_read_full_negative ::
  "mem_queue \<Rightarrow> uintn \<Rightarrow> usize \<Rightarrow> u64 \<Rightarrow> target \<Rightarrow> (target \<times> mem_read_result) run" where
  "mem_read_full_negative self offset step limit tg =
     (let inner = mq_inner self;
          result = (\<lambda>ok start. \<lparr> mr_success = ok, mr_start_id = Some start, mr_subscription_id = None \<rparr>)
      in case mi_last_id inner of
        None \<Rightarrow> Ret (tg, result True uintn_zero)
      | Some last_id \<Rightarrow> do {
          start_id \<leftarrow> tail_start last_id offset;
          case mi_first_id inner of
            None \<Rightarrow> Ret (tg, result False start_id)
          | Some mem_start_id \<Rightarrow>
              if start_id < mem_start_id then Ret (tg, result False start_id)
              else do {
                entries_to_send \<leftarrow>
                  negative_loop step limit 0 start_id (from_start start_id (mi_entries inner));
                if entries_to_send = [] then Ret (tg, result False start_id)
                else let (tg, ok) = target_send_all tg entries_to_send
                     in Ret (tg, result ok start_id) } })"

section \<open>Subscriptions\<close>

definition mem_subscribe :: "mem_queue \<Rightarrow> subscriber \<Rightarrow> (mem_queue \<times> usize) run" where
  "mem_subscribe self s = do {
     let k = mq_next_subscriber_id self;
     k' \<leftarrow> usize_add k 1;
     Ret (self \<lparr> mq_next_subscriber_id := k', mq_subscribers := mq_subscribers self @ [(k, s)] \<rparr>, k) }"

definition mem_unsubscribe :: "mem_queue \<Rightarrow> usize \<Rightarrow> mem_queue" where
  "mem_unsubscribe self k =
     self \<lparr> mq_subscribers := filter (\<lambda>s. fst s \<noteq> k) (mq_subscribers self) \<rparr>"

text \<open>
  The first half of the follow operations: the existing entries are read under the lock and sent
  without it. The result is the last identifier sent, or that the read is not possible.
\<close>

definition follow_snapshot ::
  "mem_queue \<Rightarrow> uintn \<Rightarrow> usize \<Rightarrow> target \<Rightarrow> (target \<times> uintn option option) run" where
  "follow_snapshot self start_id step tg =
     (let inner = mq_inner self
      in case mi_first_id inner of
        None \<Rightarrow> Ret (tg, Some None)
      | Some mem_start_id \<Rightarrow>
          if start_id < mem_start_id then Ret (tg, None)
          else do {
            entries_to_send \<leftarrow> follow_loop step start_id (from_start start_id (mi_entries inner));
            let last_id = (if entries_to_send = [] then None else Some (fst (last entries_to_send)));
            let (tg, ok) = target_send_all tg entries_to_send;
            Ret (tg, if ok then Some last_id else None) })"

definition follow_register ::
  "mem_queue \<Rightarrow> uintn \<Rightarrow> usize \<Rightarrow> target \<Rightarrow> uintn option \<Rightarrow> (mem_queue \<times> usize) run" where
  "follow_register self from_id step tg last_sent_id =
     mem_subscribe self (Follower last_sent_id from_id step tg)"

definition mem_follow_full ::
  "mem_queue \<Rightarrow> uintn \<Rightarrow> uintn \<Rightarrow> usize \<Rightarrow> target \<Rightarrow> (mem_queue \<times> target \<times> mem_read_result) run" where
  "mem_follow_full self from_id start_id step tg = do {
     (tg, snapshot) \<leftarrow> follow_snapshot self start_id step tg;
     case snapshot of
       None \<Rightarrow> Ret (self, tg, mem_read_result_fail)
     | Some last_sent_id \<Rightarrow> do {
         (self, k) \<leftarrow> follow_register self from_id step tg last_sent_id;
         Ret (self, tg, \<lparr> mr_success = True, mr_start_id = None, mr_subscription_id = Some k \<rparr>) } }"

definition mem_follow_full_negative ::
  "mem_queue \<Rightarrow> uintn \<Rightarrow> usize \<Rightarrow> target \<Rightarrow> (mem_queue \<times> target \<times> mem_read_result) run" where
  "mem_follow_full_negative self offset step tg =
     (let inner = mq_inner self;
          result = (\<lambda>ok start k. \<lparr> mr_success = ok, mr_start_id = Some start, mr_subscription_id = k \<rparr>)
      in if uintn_eq offset uintn_zero then do {
           let last_id = mi_last_id inner;
           let from_id = (case last_id of Some i \<Rightarrow> uintn_add i (uintn_from_u64 1) | None \<Rightarrow> uintn_zero);
           (self, k) \<leftarrow> follow_register self from_id step tg last_id;
           Ret (self, tg, result True from_id (Some k)) }
         else case mi_last_id inner of
           None \<Rightarrow> Ret (self, tg, result True uintn_zero None)
         | Some last_id \<Rightarrow> do {
             start_id \<leftarrow> tail_start last_id offset;
             case mi_first_id inner of
               None \<Rightarrow> Ret (self, tg, result False start_id None)
             | Some _ \<Rightarrow> do {
                 (tg, snapshot) \<leftarrow> follow_snapshot self start_id step tg;
                 case snapshot of
                   None \<Rightarrow> Ret (self, tg, result False start_id None)
                 | Some last_sent_id \<Rightarrow> do {
                     (self, k) \<leftarrow> follow_register self start_id step tg last_sent_id;
                     Ret (self, tg, result True start_id (Some k)) } } })"

section \<open>The queues\<close>

record mem_store =
  ms_queues :: "(queue_id \<times> mem_queue) list"
  ms_max_memory_usage :: usize

definition mem_store_new :: "usize \<Rightarrow> mem_store" where
  "mem_store_new max_memory_usage = \<lparr> ms_queues = [], ms_max_memory_usage = max_memory_usage \<rparr>"

definition mem_store_put :: "mem_store \<Rightarrow> queue_id \<Rightarrow> mem_queue \<Rightarrow> mem_store" where
  "mem_store_put self q mq =
     self \<lparr> ms_queues := (q, mq) # filter (\<lambda>p. fst p \<noteq> q) (ms_queues self) \<rparr>"

definition mem_store_start_queue :: "mem_store \<Rightarrow> queue_id \<Rightarrow> uintn option \<Rightarrow> mem_store" where
  "mem_store_start_queue self q last_id =
     (if map_of (ms_queues self) q = None
      then mem_store_put self q
             (mem_queue_new last_id (ms_max_memory_usage self div max (length (ms_queues self)) 1))
      else self)"

text \<open>\<open>expect("queue not setup")\<close> panics.\<close>

definition mem_store_enqueue :: "mem_store \<Rightarrow> queue_id \<Rightarrow> bytes \<Rightarrow> (mem_store \<times> uintn) run" where
  "mem_store_enqueue self q data = do {
     mq \<leftarrow> map_of (ms_queues self) q;
     (mq, i) \<leftarrow> mem_enqueue mq data;
     Ret (mem_store_put self q mq, i) }"

definition mem_store_enqueue_batch ::
  "mem_store \<Rightarrow> queue_id \<Rightarrow> bytes list \<Rightarrow> (mem_store \<times> uintn list) run" where
  "mem_store_enqueue_batch self q entries = do {
     mq \<leftarrow> map_of (ms_queues self) q;
     (mq, new_ids) \<leftarrow> mem_enqueue_batch mq entries;
     Ret (mem_store_put self q mq, new_ids) }"

definition mem_store_get_last_id :: "mem_store \<Rightarrow> queue_id \<Rightarrow> uintn option option" where
  "mem_store_get_last_id self q = map_option mem_get_last_id (map_of (ms_queues self) q)"

definition mem_store_ack :: "mem_store \<Rightarrow> queue_id \<Rightarrow> uintn \<Rightarrow> mem_store run" where
  "mem_store_ack self q i =
     (case map_of (ms_queues self) q of
        Some mq \<Rightarrow> do { mq \<leftarrow> mem_ack mq i; Ret (mem_store_put self q mq) }
      | None \<Rightarrow> Ret self)"

definition mem_store_read_full ::
  "mem_store \<Rightarrow> queue_id \<Rightarrow> uintn \<Rightarrow> uintn \<Rightarrow> usize \<Rightarrow> target \<Rightarrow> (target \<times> mem_read_result) run" where
  "mem_store_read_full self q start_id end_id step tg =
     (case map_of (ms_queues self) q of
        Some mq \<Rightarrow> mem_read_full mq start_id end_id step tg
      | None \<Rightarrow> Ret (tg, mem_read_result_fail))"

definition mem_store_read_full_negative ::
  "mem_store \<Rightarrow> queue_id \<Rightarrow> uintn \<Rightarrow> usize \<Rightarrow> u64 \<Rightarrow> target \<Rightarrow> (target \<times> mem_read_result) run" where
  "mem_store_read_full_negative self q offset step limit tg =
     (case map_of (ms_queues self) q of
        Some mq \<Rightarrow> mem_read_full_negative mq offset step limit tg
      | None \<Rightarrow> Ret (tg, mem_read_result_fail))"

definition mem_store_follow_full ::
  "mem_store \<Rightarrow> queue_id \<Rightarrow> uintn \<Rightarrow> uintn \<Rightarrow> usize \<Rightarrow> target \<Rightarrow>
   (mem_store \<times> target \<times> mem_read_result) run" where
  "mem_store_follow_full self q from_id start_id step tg =
     (case map_of (ms_queues self) q of
        Some mq \<Rightarrow> do {
          (mq, tg, r) \<leftarrow> mem_follow_full mq from_id start_id step tg;
          Ret (mem_store_put self q mq, tg, r) }
      | None \<Rightarrow> Ret (self, tg, mem_read_result_fail))"

definition mem_store_follow_full_negative ::
  "mem_store \<Rightarrow> queue_id \<Rightarrow> uintn \<Rightarrow> usize \<Rightarrow> target \<Rightarrow> (mem_store \<times> target \<times> mem_read_result) run" where
  "mem_store_follow_full_negative self q offset step tg =
     (case map_of (ms_queues self) q of
        Some mq \<Rightarrow> do {
          (mq, tg, r) \<leftarrow> mem_follow_full_negative mq offset step tg;
          Ret (mem_store_put self q mq, tg, r) }
      | None \<Rightarrow> Ret (self, tg, mem_read_result_fail))"

definition mem_store_subscribe ::
  "mem_store \<Rightarrow> queue_id \<Rightarrow> subscriber \<Rightarrow> (mem_store \<times> usize option) run" where
  "mem_store_subscribe self q s =
     (case map_of (ms_queues self) q of
        Some mq \<Rightarrow> do { (mq, k) \<leftarrow> mem_subscribe mq s; Ret (mem_store_put self q mq, Some k) }
      | None \<Rightarrow> Ret (self, None))"

definition mem_store_unsubscribe :: "mem_store \<Rightarrow> queue_id \<Rightarrow> usize \<Rightarrow> mem_store" where
  "mem_store_unsubscribe self q k =
     (case map_of (ms_queues self) q of
        Some mq \<Rightarrow> mem_store_put self q (mem_unsubscribe mq k)
      | None \<Rightarrow> self)"

end
