(* ===== verification/Mem_Correct.thy ===== *)
theory Mem_Correct
  imports Mem_Queue
begin

text \<open>
  What the in-memory queue guarantees. Its state refines a log of everything that was enqueued:
  the memory holds a suffix of the log, and everything before the suffix has been acknowledged. Reads
  and follows return exactly the requested entries of that log.
\<close>

section \<open>The read loops\<close>

lemma advance_to_done [simp]: "uval entry_id \<le> uval c \<Longrightarrow> advance_to step c entry_id = Ret c"
  by (subst advance_to.simps) simp

lemma advance_within_done [simp]:
  "uval entry_id \<le> uval c \<Longrightarrow> advance_within step end_id c entry_id = Ret c"
  by (subst advance_within.simps) simp

text \<open>
  The loops run over consecutive identifiers from \<open>n\<close> on, with \<open>current_id\<close> the first requested
  identifier that is at least \<open>n\<close>.
\<close>

definition aligned :: "uintn \<Rightarrow> usize \<Rightarrow> nat \<Rightarrow> uintn \<Rightarrow> bool" where
  "aligned start step n c \<longleftrightarrow> uval start \<le> n \<and> n \<le> uval c \<and> uval c < n + step \<and>
     (uval c - uval start) mod step = 0"

lemma aligned_hit:
  assumes "aligned start step n c" "uval i = n"
  shows "on_step start step i \<longleftrightarrow> uval c = n"
proof
  assume "on_step start step i"
  then have "(uval c - uval start) mod step = (n - uval start) mod step"
    using assms by (simp add: on_step_def aligned_def)
  moreover have "uval c - uval start = (n - uval start) + (uval c - n)"
    using assms by (simp add: aligned_def)
  ultimately have "(uval c - n) mod step = 0"
    using \<open>on_step start step i\<close> assms(2) mod_add_left_eq [of "n - uval start" step "uval c - n"]
    by (simp add: on_step_def)
  moreover have "uval c - n < step" using assms(1) by (auto simp: aligned_def)
  ultimately have "uval c - n = 0" by simp
  then show "uval c = n" using assms(1) by (simp add: aligned_def)
qed (use assms in \<open>simp add: on_step_def aligned_def\<close>)

lemma aligned_next:
  assumes "aligned start step n c" "step < 2 ^ 64" "0 < step"
  shows "uval c = n \<Longrightarrow> aligned start step (n + 1) (uintn_step_by c step)"
    and "uval c \<noteq> n \<Longrightarrow> aligned start step (n + 1) c"
proof -
  have "uval c + step - uval start = (uval c - uval start) + step" using assms(1) by (simp add: aligned_def)
  then have "(uval c + step - uval start) mod step = (uval c - uval start) mod step"
    by (simp only: mod_add_self2)
  then show "uval c = n \<Longrightarrow> aligned start step (n + 1) (uintn_step_by c step)"
    using assms by (auto simp: aligned_def)
  show "uval c \<noteq> n \<Longrightarrow> aligned start step (n + 1) c"
    using assms by (auto simp: aligned_def)
qed

lemma upt_ids_Cons:
  "ids (e # es) = [n..<n + length (e # es)] \<Longrightarrow> uval (fst e) = n \<and> ids es = [n + 1..<n + 1 + length es]"
  by (simp add: upt_conv_Cons del: upt_Suc)

lemma ids_member:
  assumes "ids es = [n..<m]" "e \<in> set es"
  shows "n \<le> uval (fst e)" "uval (fst e) < m"
proof -
  have "uval (fst e) \<in> set (ids es)" using assms(2) by simp
  then have "uval (fst e) \<in> {n..<m}" unfolding assms(1) by simp
  then show "n \<le> uval (fst e)" "uval (fst e) < m" by simp_all
qed

lemma follow_loop_spec:
  assumes "0 < step" "step < 2 ^ 64"
  shows "ids es = [n..<n + length es] \<Longrightarrow> aligned start step n c \<Longrightarrow>
    follow_loop step c es = Ret (filter (\<lambda>e. on_step start step (fst e)) es)"
proof (induction es arbitrary: n c)
  case (Cons e es)
  note e = upt_ids_Cons [OF Cons.prems(1)]
  note hit = aligned_hit [OF Cons.prems(2) conjunct1 [OF e]]
  have "uval (fst e) \<le> uval c" using e Cons.prems(2) by (simp add: aligned_def)
  then show ?case
    using Cons.IH [OF conjunct2 [OF e]] hit aligned_next [OF Cons.prems(2) assms(2,1)] e
    by (cases "uval c = n") (simp_all add: uintn_eq_uval)
qed simp

lemma read_loop_spec:
  assumes "0 < step" "step < 2 ^ 64"
  shows "ids es = [n..<n + length es] \<Longrightarrow> aligned start step n c \<Longrightarrow>
    read_loop step end_id c es =
      Ret (filter (\<lambda>e. uval (fst e) \<le> uval end_id \<and> on_step start step (fst e)) es)"
proof (induction es arbitrary: n c)
  case (Cons e es)
  note e = upt_ids_Cons [OF Cons.prems(1)]
  note hit = aligned_hit [OF Cons.prems(2) conjunct1 [OF e]]
  have c: "uval (fst e) \<le> uval c" using e Cons.prems(2) by (simp add: aligned_def)
  show ?case
  proof (cases "uval end_id < uval (fst e)")
    case True
    have "\<forall>f \<in> set es. uval end_id < uval (fst f)"
      using ids_member(1) [OF conjunct2 [OF e]] e True by fastforce
    then have "filter (\<lambda>e. uval (fst e) \<le> uval end_id \<and> on_step start step (fst e)) (e # es) = []"
      using True by (auto simp: filter_empty_conv)
    then show ?thesis using True by simp
  next
    case False
    then show ?thesis
      using Cons.IH [OF conjunct2 [OF e]] hit aligned_next [OF Cons.prems(2) assms(2,1)] e c
      by (cases "uval c = n") (simp_all add: uintn_eq_uval)
  qed
qed simp

lemma negative_loop_spec:
  assumes "0 < step" "step < 2 ^ 64"
  shows "ids es = [n..<n + length es] \<Longrightarrow> aligned start step n c \<Longrightarrow>
    unat k + length es < 2 ^ 64 \<Longrightarrow>
    negative_loop step limit k c es =
      Ret ((if limit = 0 then id else take (unat limit - unat k))
             (filter (\<lambda>e. on_step start step (fst e)) es))"
proof (induction es arbitrary: n c k)
  case (Cons e es)
  note e = upt_ids_Cons [OF Cons.prems(1)]
  note hit = aligned_hit [OF Cons.prems(2) conjunct1 [OF e]]
  have c: "uval (fst e) \<le> uval c" using e Cons.prems(2) by (simp add: aligned_def)
  have k: "unat (k + 1) = unat k + 1" using Cons.prems(3) by (simp add: unat_word_add_small)
  show ?case
  proof (cases "limit > 0 \<and> limit \<le> k")
    case True
    then show ?thesis by (auto simp: word_le_nat_alt)
  next
    case False
    then have lt: "limit = 0 \<or> unat k < unat limit" by (auto simp: word_le_nat_alt word_gt_0)
    have "unat k + length es < 2 ^ 64" "unat (k + 1) + length es < 2 ^ 64" using Cons.prems(3) k by simp_all
    then show ?thesis
      using Cons.IH [OF conjunct2 [OF e]] hit aligned_next [OF Cons.prems(2) assms(2,1)] e c False lt k
      by (cases "uval c = n") (auto simp: uintn_eq_uval take_Cons' Suc_diff_Suc)
  qed
qed simp

section \<open>The queue as a suffix of a log\<close>

text \<open>
  The abstract queue is the log of everything enqueued since the start. The invariant
  relates it to the memory: from position \<open>k\<close> on it is in memory, before \<open>k\<close> everything is
  acknowledged, the bookkeeping fields are what they should be, and the memory is within its
  limit unless nothing acknowledged is left in it.
\<close>

definition acked_upto :: "mem_inner \<Rightarrow> nat \<Rightarrow> bool" where
  "acked_upto inner i = (case mi_last_acked_id inner of None \<Rightarrow> False | Some a \<Rightarrow> i \<le> uval a)"

definition data_size :: "(uintn \<times> bytes) list \<Rightarrow> nat" where
  "data_size es = sum_list (map (\<lambda>e. length (snd e)) es)"

lemma data_size_simps [simp]:
  "data_size [] = 0" "data_size (e # es) = length (snd e) + data_size es"
  "data_size (es @ fs) = data_size es + data_size fs"
  by (simp_all add: data_size_def)

definition first_of :: "(uintn \<times> bytes) list \<Rightarrow> uintn option" where
  "first_of es = (if es = [] then None else Some (fst (hd es)))"

text \<open>The invariant of the inner state before the clean-up.\<close>

definition inner_inv :: "nat \<Rightarrow> mem_inner \<Rightarrow> (uintn \<times> bytes) list \<Rightarrow> bool" where
  "inner_inv n inner log \<longleftrightarrow>
     ids log = [n..<n + length log] \<and> list_all (\<lambda>e. canonical (fst e)) log \<and>
     next_id (mi_last_id inner) = n + length log \<and> pred_option canonical (mi_last_id inner) \<and>
     (\<exists>k \<le> length log. mi_entries inner = drop k log \<and>
        (\<forall>i \<in> set (ids (take k log)). acked_upto inner i)) \<and>
     mi_first_id inner = first_of (mi_entries inner) \<and>
     mi_memory_usage inner = data_size (mi_entries inner)"

definition within_limit :: "usize \<Rightarrow> mem_inner \<Rightarrow> bool" where
  "within_limit limit inner \<longleftrightarrow>
     mi_memory_usage inner \<le> limit \<or>
     (\<forall>i \<in> set (ids (mi_entries inner)). \<not> acked_upto inner i)"

lemma dropWhile_above:
  "sorted (map f xs) \<Longrightarrow> x \<in> set (dropWhile (\<lambda>x. f x \<le> a) xs) \<Longrightarrow> (a :: nat) < f x"
  by (induction xs) (auto split: if_splits)

text \<open>Dropping the acknowledged prefix.\<close>

definition drained :: "uintn \<Rightarrow> mem_inner \<Rightarrow> mem_inner" where
  "drained a inner =
     (let entries = dropWhile (\<lambda>e. fst e \<le> a) (mi_entries inner)
      in inner \<lparr> mi_entries := entries, mi_memory_usage := data_size entries,
                 mi_first_id := first_of entries \<rparr>)"

lemma cleanup_eq:
  assumes "inner_inv n inner log"
  shows "cleanup_unlocked limit inner =
    Ret (if mi_memory_usage inner \<le> limit then inner
         else case mi_last_acked_id inner of None \<Rightarrow> inner | Some a \<Rightarrow> drained a inner)"
proof (cases "mi_last_acked_id inner")
  case (Some a)
  let ?es = "mi_entries inner"
  let ?P = "\<lambda>e :: uintn \<times> bytes. fst e \<le> a"
  define front rest where "front = takeWhile ?P ?es" and "rest = dropWhile ?P ?es"
  have es: "?es = front @ rest" by (simp add: front_def rest_def)
  have usage: "mi_memory_usage inner = data_size front + data_size rest"
    "mi_first_id inner = first_of ?es"
    using assms es by (simp_all add: inner_inv_def)
  have drained: "drained a inner = inner \<lparr> mi_entries := rest, mi_memory_usage := data_size rest,
      mi_first_id := first_of rest \<rparr>"
    by (simp add: drained_def Let_def rest_def)
  have none: "drained a inner = inner" if "front = []"
    unfolding drained using that es usage by (cases inner) simp
  have cut: "take (length front) ?es = front" "drop (length front) ?es = rest" by (simp_all add: es)
  show ?thesis
    unfolding cleanup_unlocked_def Some front_def [symmetric] Let_def option.case cut
      data_size_def [symmetric] first_of_def [symmetric]
    using none drained usage(1) by (simp add: usize_sub_def)
qed (simp add: cleanup_unlocked_def)

lemma drained_inv:
  assumes "inner_inv n inner log" "mi_last_acked_id inner = Some a"
  shows "inner_inv n (drained a inner) log"
    "\<forall>i \<in> set (ids (mi_entries (drained a inner))). \<not> acked_upto (drained a inner) i"
proof -
  from assms(1) obtain k where k: "k \<le> length log" "mi_entries inner = drop k log"
    "\<forall>i \<in> set (ids (take k log)). acked_upto inner i" by (auto simp: inner_inv_def)
  let ?es = "mi_entries inner" and ?P = "\<lambda>e. fst e \<le> a"
  let ?r = "length (takeWhile ?P ?es)"
  have tw: "take ?r ?es = takeWhile ?P ?es" "drop ?r ?es = dropWhile ?P ?es"
    by (simp_all add: takeWhile_eq_take [symmetric] dropWhile_eq_drop [symmetric])
  have same: "acked_upto (drained a inner) = acked_upto inner"
    by (rule ext) (simp add: acked_upto_def drained_def Let_def)
  have "take (k + ?r) log = take k log @ takeWhile ?P ?es" using tw(1) k(2) by (simp add: take_add)
  then have acked: "\<forall>i \<in> set (ids (take (k + ?r) log)). acked_upto inner i"
    using k(3) assms(2) by (auto simp: acked_upto_def dest: set_takeWhileD)
  have "k + ?r \<le> length log" using k(1,2) length_takeWhile_le [of ?P ?es] by simp
  moreover have "mi_entries (drained a inner) = drop (k + ?r) log"
    using tw(2) k(2) by (simp add: drained_def Let_def add.commute)
  ultimately have "\<exists>k \<le> length log. mi_entries (drained a inner) = drop k log \<and>
      (\<forall>i \<in> set (ids (take k log)). acked_upto (drained a inner) i)"
    using acked unfolding same by blast
  then show "inner_inv n (drained a inner) log"
    using assms(1) by (simp add: inner_inv_def drained_def Let_def)
  have "ids ?es = [n + k..<n + length log]"
    using assms(1) k(2) by (simp add: inner_inv_def flip: drop_map)
  then have "sorted (map (\<lambda>e. uval (fst e)) ?es)" by (simp only: sorted_upt)
  then show "\<forall>i \<in> set (ids (mi_entries (drained a inner))). \<not> acked_upto (drained a inner) i"
    using dropWhile_above [of "\<lambda>e. uval (fst e)" ?es _ "uval a"] assms(2) unfolding same
    by (auto simp: drained_def Let_def acked_upto_def not_le)
qed

lemma cleanup_ok:
  assumes "inner_inv n inner log"
  obtains inner' where "cleanup_unlocked limit inner = Ret inner'" "inner_inv n inner' log"
    "within_limit limit inner'" "mi_last_acked_id inner' = mi_last_acked_id inner"
proof (rule that [OF cleanup_eq [OF assms, of limit]])
  let ?i = "if mi_memory_usage inner \<le> limit then inner
    else case mi_last_acked_id inner of None \<Rightarrow> inner | Some a \<Rightarrow> drained a inner"
  show "inner_inv n ?i log" using assms drained_inv(1) by (auto split: option.splits)
  show "within_limit limit ?i"
    using drained_inv(2) [OF assms] by (auto simp: within_limit_def acked_upto_def split: option.splits)
  show "mi_last_acked_id ?i = mi_last_acked_id inner"
    by (auto simp: drained_def Let_def split: option.splits)
qed

section \<open>Steps\<close>

text \<open>
  The operations of a queue as steps on the queue and its log. A follow registers a subscriber; reads
  change nothing.
\<close>

datatype mem_label =
    MEnqueue bytes
  | MBatch "bytes list"
  | MAck uintn
  | MSubscribe subscriber
  | MUnsubscribe usize

type_synonym mem_config = "mem_queue \<times> (uintn \<times> bytes) list"

inductive mem_step :: "mem_config \<Rightarrow> mem_label \<Rightarrow> mem_config \<Rightarrow> bool" where
  mem_step_enqueue:
    "mem_enqueue q d = Ret (q', i) \<Longrightarrow> mem_step (q, log) (MEnqueue d) (q', log @ [(i, d)])"
| mem_step_batch:
    "mem_enqueue_batch q ds = Ret (q', is) \<Longrightarrow> mem_step (q, log) (MBatch ds) (q', log @ zip is ds)"
| mem_step_ack:
    "mem_ack q i = Ret q' \<Longrightarrow> mem_step (q, log) (MAck i) (q', log)"
| mem_step_subscribe:
    "mem_subscribe q s = Ret (q', k) \<Longrightarrow> mem_step (q, log) (MSubscribe s) (q', log)"
| mem_step_unsubscribe:
    "mem_step (q, log) (MUnsubscribe k) (mem_unsubscribe q k, log)"

definition mem_inv :: "nat \<Rightarrow> usize \<Rightarrow> mem_config \<Rightarrow> bool" where
  "mem_inv n limit s \<longleftrightarrow>
     inner_inv n (mq_inner (fst s)) (snd s) \<and> within_limit limit (mq_inner (fst s)) \<and>
     mq_max_memory_usage (fst s) = limit"

lemma next_entry_id_ok:
  assumes "inner_inv n inner log"
  shows "uval (next_entry_id inner) = n + length log" "canonical (next_entry_id inner)"
  using assms
  by (auto simp: inner_inv_def next_entry_id_def next_id_def canonical_increment split: option.splits)

lemma notify_inner: "notify_subscribers q es = Ret q' \<Longrightarrow> mq_inner q' = mq_inner q \<and>
    mq_max_memory_usage q' = mq_max_memory_usage q"
  by (auto simp: notify_subscribers_def bind_eq_Some_conv)

text \<open>Appending entries with the next identifiers.\<close>

lemma inner_inv_append:
  assumes "inner_inv n inner log" "es \<noteq> []"
    and "ids es = [n + length log..<n + length log + length es]" "list_all (\<lambda>e. canonical (fst e)) es"
  shows "inner_inv n (inner \<lparr> mi_entries := mi_entries inner @ es, mi_last_id := Some (fst (last es)),
      mi_first_id := (if mi_first_id inner = None then Some (fst (hd es)) else mi_first_id inner),
      mi_memory_usage := mi_memory_usage inner + data_size es \<rparr>) (log @ es)"
    (is "inner_inv n ?in _")
proof -
  from assms(1) obtain k where k: "k \<le> length log" "mi_entries inner = drop k log"
    "\<forall>i \<in> set (ids (take k log)). acked_upto inner i" by (auto simp: inner_inv_def)
  have same: "acked_upto ?in = acked_upto inner" by (rule ext) (simp add: acked_upto_def)
  have pos: "0 < length es" using assms(2) by simp
  have l: "uval (fst (last es)) = n + length log + length es - 1"
    using assms(2,3) last_map [of es "\<lambda>e. uval (fst e)"] last_upt [of "n + length log" "n + length log + length es"]
    by (metis (no_types, lifting) add_less_cancel_left add.right_neutral length_greater_0_conv)
  show ?thesis
    unfolding inner_inv_def
  proof (intro conjI)
    show "ids (log @ es) = [n..<n + length (log @ es)]"
      using assms(1,3) upt_add_eq_append [of n "n + length log" "length es"]
      by (simp add: inner_inv_def add.assoc)
    show "\<exists>k \<le> length (log @ es). mi_entries ?in = drop k (log @ es) \<and>
        (\<forall>i \<in> set (ids (take k (log @ es))). acked_upto ?in i)"
      unfolding same using k by (intro exI [of _ k]) simp
    show "next_id (mi_last_id ?in) = n + length (log @ es)" using l pos by simp
    show "mi_first_id ?in = first_of (mi_entries ?in)"
      using assms(1,2) by (auto simp: inner_inv_def first_of_def split: if_splits)
    show "mi_memory_usage ?in = data_size (mi_entries ?in)"
      using assms(1) by (simp add: inner_inv_def)
    show "list_all (\<lambda>e. canonical (fst e)) (log @ es)" using assms(1,4) by (simp add: inner_inv_def)
    show "pred_option canonical (mi_last_id ?in)" using assms(2,4) by (simp add: list_all_iff)
  qed
qed

lemma mem_enqueue_inv:
  assumes "mem_inv n limit (q, log)" "mem_enqueue q d = Ret (q', i)"
  shows "mem_inv n limit (q', log @ [(i, d)])" "uval i = n + length log"
proof -
  let ?in = "mq_inner q"
  have inv: "inner_inv n ?in log" "mq_max_memory_usage q = limit" using assms(1) by (simp_all add: mem_inv_def)
  let ?i = "next_entry_id ?in"
  let ?in1 = "?in \<lparr> mi_entries := mi_entries ?in @ [(?i, d)], mi_last_id := Some (fst (last [(?i, d)])),
    mi_first_id := (if mi_first_id ?in = None then Some (fst (hd [(?i, d)])) else mi_first_id ?in),
    mi_memory_usage := mi_memory_usage ?in + data_size [(?i, d)] \<rparr>"
  have 1: "inner_inv n ?in1 (log @ [(?i, d)])"
    by (rule inner_inv_append [OF inv(1)]) (simp_all add: next_entry_id_ok [OF inv(1)])
  obtain in2 where in2: "cleanup_unlocked limit ?in1 = Ret in2" "inner_inv n in2 (log @ [(?i, d)])"
    "within_limit limit in2" by (rule cleanup_ok [OF 1])
  have order: "mi_first_id ?in = None \<Longrightarrow> ?in \<lparr> mi_first_id := Some ?i, mi_last_id := Some ?i,
        mi_entries := mi_entries ?in @ [(?i, d)], mi_memory_usage := mi_memory_usage ?in + length d \<rparr> = ?in1"
    "mi_first_id ?in \<noteq> None \<Longrightarrow> ?in \<lparr> mi_last_id := Some ?i,
        mi_entries := mi_entries ?in @ [(?i, d)], mi_memory_usage := mi_memory_usage ?in + length d \<rparr> = ?in1"
    by (cases ?in; simp)+
  define in1 where "in1 = ?in1"
  note order = order [folded in1_def] and in2 = in2 [folded in1_def]
  have "i = ?i \<and> mq_inner q' = in2 \<and> mq_max_memory_usage q' = limit"
    using assms(2) in2(1) inv(2)
    by (cases "mi_first_id ?in = None"; cases "mq_subscribers q = []")
       (auto simp: order mem_enqueue_def usize_add_def bind_eq_Some_conv Let_def
        dest!: notify_inner split: if_split_asm)
  then show "mem_inv n limit (q', log @ [(i, d)])" "uval i = n + length log"
    using in2 next_entry_id_ok(1) [OF inv(1)] by (simp_all add: mem_inv_def)
qed

lemma push_batch_spec:
  "push_batch inner nid ds = Ret (inner', es) \<Longrightarrow> canonical nid \<Longrightarrow>
   map snd es = ds \<and> ids es = [uval nid..<uval nid + length es] \<and>
   list_all (\<lambda>e. canonical (fst e)) es \<and>
   inner' = inner \<lparr> mi_entries := mi_entries inner @ es, mi_memory_usage := mi_memory_usage inner + data_size es \<rparr>"
proof (induction inner nid ds arbitrary: inner' es rule: push_batch.induct)
  case (2 inner nid d ds)
  from 2(2) obtain es' where es: "es = (nid, d) # es'"
    "mi_memory_usage inner + length d < 2 ^ 64"
    "push_batch (inner \<lparr> mi_entries := mi_entries inner @ [(nid, d)],
        mi_memory_usage := mi_memory_usage inner + length d \<rparr>) (uintn_increment nid) ds = Ret (inner', es')"
    by (auto simp: usize_add_def bind_eq_Some_conv split: if_splits)
  have "usize_add (mi_memory_usage inner) (length d) = Ret (mi_memory_usage inner + length d)"
    using es(2) by (simp add: usize_add_def)
  from 2(1) [OF this es(3)] 2(3) show ?case
    unfolding es(1) by (simp add: canonical_increment upt_conv_Cons add.assoc del: upt_Suc)
qed simp

lemma mem_enqueue_batch_inv:
  assumes "mem_inv n limit (q, log)" "mem_enqueue_batch q ds = Ret (q', is)"
  shows "mem_inv n limit (q', log @ zip is ds)"
    "map uval is = [n + length log..<n + length log + length ds]"
proof -
  have "mem_inv n limit (q', log @ zip is ds) \<and> map uval is = [n + length log..<n + length log + length ds]"
  proof (cases "ds = []")
    case True
    then show ?thesis using assms by (simp add: mem_enqueue_batch_def)
  next
    case False
    let ?in = "mq_inner q"
    have inv: "inner_inv n ?in log" "mq_max_memory_usage q = limit" using assms(1) by (simp_all add: mem_inv_def)
    let ?i = "next_entry_id ?in"
    let ?base = "if mi_first_id ?in = None then ?in \<lparr> mi_first_id := Some ?i \<rparr> else ?in"
    from assms(2) False obtain in1 es in2 where b: "push_batch ?base ?i ds = Ret (in1, es)"
      "cleanup_unlocked limit (in1 \<lparr> mi_last_id := Some (last (map fst es)) \<rparr>) = Ret in2"
      "mq_inner q' = in2" "is = map fst es" "mq_max_memory_usage q' = limit"
      using inv(2)
      by (auto simp: mem_enqueue_batch_def bind_eq_Some_conv Let_def dest!: notify_inner split: if_splits)
    note es = push_batch_spec [OF b(1) next_entry_id_ok(2) [OF inv(1)]]
    have ne: "es \<noteq> []" using es False by auto
    have nid: "uval ?i = n + length log" by (rule next_entry_id_ok(1) [OF inv(1)])
    have hd: "hd (map fst es) = ?i"
      using b(1) False by (cases ds) (auto simp: bind_eq_Some_conv)
    let ?in1 = "?in \<lparr> mi_entries := mi_entries ?in @ es, mi_last_id := Some (fst (last es)),
      mi_first_id := (if mi_first_id ?in = None then Some (fst (hd es)) else mi_first_id ?in),
      mi_memory_usage := mi_memory_usage ?in + data_size es \<rparr>"
    have 1: "inner_inv n ?in1 (log @ es)"
      using es nid by (intro inner_inv_append [OF inv(1) ne]) simp_all
    have "in1 \<lparr> mi_last_id := Some (last (map fst es)) \<rparr> = ?in1"
      using es hd ne by (cases ?in; cases "mi_first_id ?in = None") (simp_all add: last_map hd_map)
    moreover obtain in3 where "cleanup_unlocked limit ?in1 = Ret in3" "inner_inv n in3 (log @ es)"
      "within_limit limit in3" by (rule cleanup_ok [OF 1])
    ultimately have "mem_inv n limit (q', log @ es)" using b by (simp add: mem_inv_def)
    moreover have "zip is ds = es" using es b(4) zip_map_fst_snd [of es] by simp
    moreover have "map uval is = ids es" using b(4) by (simp add: comp_def)
    moreover have "length es = length ds" using es by (metis length_map)
    ultimately show ?thesis using es nid by simp
  qed
  then show "mem_inv n limit (q', log @ zip is ds)"
    "map uval is = [n + length log..<n + length log + length ds]" by blast+
qed

lemma mem_ack_inv:
  assumes "mem_inv n limit (q, log)" "mem_ack q i = Ret q'"
  shows "mem_inv n limit (q', log)"
proof -
  let ?in = "mq_inner q"
  have inv: "inner_inv n ?in log" "mq_max_memory_usage q = limit" using assms(1) by (simp_all add: mem_inv_def)
  let ?in1 = "if (case mi_last_acked_id ?in of None \<Rightarrow> True | Some last_id \<Rightarrow> i > last_id)
    then ?in \<lparr> mi_last_acked_id := Some i \<rparr> else ?in"
  have "inner_inv n ?in1 log"
    using inv(1) by (fastforce simp: inner_inv_def acked_upto_def split: option.splits)
  then obtain in2 where "cleanup_unlocked limit ?in1 = Ret in2" "inner_inv n in2 log"
    "within_limit limit in2" by (rule cleanup_ok)
  then show ?thesis
    using assms(2) inv(2) by (auto simp: mem_ack_def mem_inv_def Let_def)
qed

lemma mem_new_inv:
  "pred_option canonical last_id \<Longrightarrow> mem_inv (next_id last_id) limit (mem_queue_new last_id limit, [])"
  by (simp add: mem_inv_def mem_queue_new_def inner_inv_def within_limit_def first_of_def)

lemma mem_step_inv: "mem_step s l t \<Longrightarrow> mem_inv n limit s \<Longrightarrow> mem_inv n limit t"
proof (induction rule: mem_step.induct)
  case (mem_step_subscribe q s q' k log)
  then show ?case by (auto simp: mem_subscribe_def mem_inv_def bind_eq_Some_conv Let_def)
next
  case (mem_step_unsubscribe q log k)
  then show ?case by (simp add: mem_unsubscribe_def mem_inv_def)
qed (auto intro: mem_enqueue_inv mem_enqueue_batch_inv mem_ack_inv)

interpretation mem_system:
  measured_system "\<lambda>s. pred_option canonical last_id \<and> s = (mem_queue_new last_id limit, [])"
    mem_step "mem_inv (next_id last_id) limit" snd for last_id limit
proof unfold_locales
  fix s l t
  assume "mem_inv (next_id last_id) limit s" "mem_step s l t"
  then show "mem_inv (next_id last_id) limit t" by (blast intro: mem_step_inv)
  from \<open>mem_step s l t\<close> show "\<exists>new. snd t = snd s @ new" by cases auto
qed (auto intro: mem_new_inv)

lemma mem_run_inv:
  assumes "pred_option canonical last_id" "steps mem_step (mem_queue_new last_id limit, []) ls (q, log)"
  shows "mem_inv (next_id last_id) limit (q, log)"
  using mem_system.inv_steps [OF assms(2)] mem_new_inv [OF assms(1)] by blast

section \<open>What reads send\<close>

definition open_target :: "target \<Rightarrow> bool" where
  "open_target tg \<longleftrightarrow> (\<forall>t. \<not> tg_refuses tg t)"

lemma target_send_all_open:
  "open_target tg \<Longrightarrow> target_send_all tg es =
     (tg \<lparr> tg_looks := tg_looks tg + length es, tg_sent := tg_sent tg @ map (as_read Memory) es \<rparr>, True)"
  by (induction es arbitrary: tg) (simp_all add: target_send_def open_target_def as_read_def)

lemma from_start_ids:
  assumes "ids es = [n..<n + length es]"
  shows "from_start start es = drop (uval start - n) es"
proof -
  have "dropWhile (\<lambda>e. fst e < start) es = drop (uval start - n) es"
    using assms
  proof (induction es arbitrary: n)
    case (Cons e es)
    note e = upt_ids_Cons [OF Cons.prems]
    show ?case using Cons.IH [OF conjunct2 [OF e]] e
      by (cases "uval start \<le> n") (auto simp: drop_Cons')
  qed simp
  then show ?thesis by (simp add: from_start_def)
qed

text \<open>What is in memory of a log, and which part of it a read from \<open>start\<close> on looks at.\<close>

lemma inner_suffix:
  assumes "inner_inv n inner log" "mi_first_id inner = Some first" "uval first \<le> uval start"
  obtains k where "from_start start (mi_entries inner) = drop k log" "k = uval start - n"
    "ids (drop k log) = [n + k..<n + k + length (drop k log)]" "n \<le> uval start"
    "k < length log \<Longrightarrow> n + k = uval start"
proof -
  from assms(1) obtain j where j: "j \<le> length log" "mi_entries inner = drop j log" by (auto simp: inner_inv_def)
  have ids: "ids log = [n..<n + length log]" using assms(1) by (simp add: inner_inv_def)
  have es: "ids (drop j log) = [n + j..<n + j + length (drop j log)]"
    using ids j by (simp flip: drop_map)
  have "mi_entries inner \<noteq> []" "first = fst (hd (mi_entries inner))"
    using assms(1,2) by (auto simp: inner_inv_def first_of_def split: if_splits)
  then have "uval first = n + j" using es j
    by (cases "drop j log") (auto simp: upt_conv_Cons simp del: upt_Suc)
  then have le: "n + j \<le> uval start" using assms(3) by simp
  have "from_start start (mi_entries inner) = drop (uval start - n) log"
    using from_start_ids [OF es, of start] j(2) le by simp
  moreover have "ids (drop (uval start - n) log) =
      [n + (uval start - n)..<n + (uval start - n) + length (drop (uval start - n) log)]"
    using ids by (cases "uval start - n \<le> length log") (simp_all flip: drop_map)
  ultimately show thesis using that le by simp
qed

lemma selected_drop:
  assumes "ids log = [n..<n + length log]" "n \<le> uval start"
  shows "selected start until_id step log = selected start until_id step (drop (uval start - n) log)"
proof -
  let ?k = "uval start - n"
  have "\<forall>e \<in> set (take ?k log). \<not> in_range start until_id (fst e)"
  proof
    fix e assume "e \<in> set (take ?k log)"
    then have "uval (fst e) \<in> set (take ?k (ids log))" by (force simp: take_map)
    then have "uval (fst e) < uval start" using assms by (auto simp: in_set_conv_nth)
    then show "\<not> in_range start until_id (fst e)" by (auto simp: in_range_def)
  qed
  then have "selected start until_id step (take ?k log) = []" by (auto simp: selected_def filter_empty_conv)
  then show ?thesis
    using append_take_drop_id [of ?k log] by (metis append_Nil filter_append selected_def)
qed

lemma mem_read_full_log:
  assumes "inner_inv n (mq_inner q) log" "mi_first_id (mq_inner q) = Some first"
    and "uval first \<le> uval start" "0 < step" "step < 2 ^ 64" "open_target tg"
    and "mi_last_id (mq_inner q) = Some l" "uval start \<le> uval l"
  shows "mem_read_full q start end_id step tg =
    Ret (tg \<lparr> tg_looks := tg_looks tg + length (selected start (Some end_id) step log),
              tg_sent := tg_sent tg @ map (as_read Memory) (selected start (Some end_id) step log) \<rparr>,
         \<lparr> mr_success = True, mr_start_id = None, mr_subscription_id = None \<rparr>)"
proof (rule inner_suffix [OF assms(1-3)])
  fix k
  assume k: "from_start start (mi_entries (mq_inner q)) = drop k log" "k = uval start - n"
    "ids (drop k log) = [n + k..<n + k + length (drop k log)]" "n \<le> uval start"
  have ids: "ids log = [n..<n + length log]" using assms(1) by (simp add: inner_inv_def)
  have "aligned start step (n + k) start" using k(2,4) assms(4) by (simp add: aligned_def)
  from read_loop_spec [OF assms(4,5) k(3) this]
  have "read_loop step end_id start (drop k log) =
      Ret (filter (\<lambda>e. uval (fst e) \<le> uval end_id \<and> on_step start step (fst e)) (drop k log))" .
  moreover have "filter (\<lambda>e. uval (fst e) \<le> uval end_id \<and> on_step start step (fst e)) (drop k log) =
      selected start (Some end_id) step log"
  proof -
    have "\<forall>e \<in> set (drop k log). uval start \<le> uval (fst e)"
      using ids_member(1) [OF k(3)] k(2,4) by simp
    then show ?thesis
      unfolding selected_drop [OF ids k(4)] k(2) [symmetric]
      by (auto simp: selected_def in_range_def intro!: filter_cong)
  qed
  ultimately show ?thesis
    using assms(2,3,6-8) k(1)
    by (simp add: mem_read_full_def target_send_all_open)
qed

section \<open>What followers receive\<close>

lemma follower_deliver_open:
  assumes "0 < step" "step < 2 ^ 64"
  shows "open_target tg \<Longrightarrow> list_all (\<lambda>e. canonical (fst e)) es \<Longrightarrow>
    \<forall>e \<in> set es. uval start \<le> uval (fst e) \<and> (\<forall>l. last_sent = Some l \<longrightarrow> uval l < uval (fst e)) \<Longrightarrow>
    follower_deliver last_sent start step tg es =
      Ret (tg \<lparr> tg_looks := tg_looks tg + length (filter (\<lambda>e. on_step start step (fst e)) es),
                tg_sent := tg_sent tg @ map (as_read Memory) (filter (\<lambda>e. on_step start step (fst e)) es) \<rparr>,
           True)"
proof (induction es arbitrary: tg)
  case (Cons e es)
  obtain i d where e: "e = (i, d)" by fastforce
  have i: "uintn_ok i" "uval start \<le> uval i" using Cons.prems e by auto
  have "1 \<le> step" using assms(1) by simp
  note on = in_step_on_step [OF i(1) this assms(2) i(2)]
  have skip: "\<not> (case last_sent of Some last_id \<Rightarrow> i \<le> last_id | None \<Rightarrow> False)"
    using Cons.prems(3) e by (auto split: option.splits)
  have send: "target_send tg (i, d) =
      (tg \<lparr> tg_looks := tg_looks tg + 1, tg_sent := tg_sent tg @ [as_read Memory (i, d)] \<rparr>, True)"
    using Cons.prems(1) by (simp add: target_send_def open_target_def as_read_def)
  have "open_target (tg \<lparr> tg_looks := tg_looks tg + 1, tg_sent := tg_sent tg @ [as_read Memory (i, d)] \<rparr>)"
    using Cons.prems(1) by (simp add: open_target_def)
  from Cons.IH [OF this] Cons.IH [OF Cons.prems(1)] Cons.prems(2,3) show ?case
    unfolding e by (simp add: on skip send del: less_eq_uintn_uval)
qed simp

lemma notify_loop_member:
  "notify_loop subs es = Ret subs' \<Longrightarrow> (k, s) \<in> set subs \<Longrightarrow> subscriber_call s es = Ret (s', True) \<Longrightarrow>
   (k, s') \<in> set subs'"
proof (induction subs arbitrary: subs')
  case (Cons a subs)
  obtain k' t where a: "a = (k', t)" by fastforce
  from Cons.prems(1) a obtain t' keep rest where "subscriber_call t es = Ret (t', keep)"
    "notify_loop subs es = Ret rest" "subs' = (if keep then (k', t') # rest else rest)"
    by (auto simp: bind_eq_Some_conv split: prod.splits)
  then show ?case using Cons a by (cases "(k, s) = a") auto
qed simp

text \<open>
  A follower that is up to date: it has been sent what the log holds for it, and nothing of what
  comes next.
\<close>

definition following ::
  "usize \<Rightarrow> uintn \<Rightarrow> usize \<Rightarrow> nat \<Rightarrow> read_entry list \<Rightarrow> mem_config \<Rightarrow> bool" where
  "following k start step n sent s \<longleftrightarrow>
     (\<exists>l tg. (k, Follower l start step tg) \<in> set (mq_subscribers (fst s)) \<and> open_target tg \<and>
        tg_sent tg = sent @ map (as_read Memory) (selected start None step (snd s)) \<and>
        (\<forall>i. l = Some i \<longrightarrow> uval i < n + length (snd s)))"

lemma selected_all:
  "\<forall>e \<in> set es. uval start \<le> uval (fst e) \<Longrightarrow>
   selected start None step es = filter (\<lambda>e. on_step start step (fst e)) es"
  by (auto simp: selected_def in_range_def intro: filter_cong)

lemma selected_append [simp]:
  "selected start until_id step (es @ fs) = selected start until_id step es @ selected start until_id step fs"
  by (simp add: selected_def)

lemma following_notify:
  assumes "following k start step n sent (q, log)" "notify_subscribers q1 es = Ret q2"
    and "mq_subscribers q1 = mq_subscribers q" "0 < step" "step < 2 ^ 64"
    and "ids es = [n + length log..<n + length log + length es]" "list_all (\<lambda>e. canonical (fst e)) es"
    and "uval start \<le> n + length log"
  shows "following k start step n sent (q2, log @ es)"
proof -
  from assms(1) obtain l tg where f: "(k, Follower l start step tg) \<in> set (mq_subscribers q)"
    "open_target tg" "tg_sent tg = sent @ map (as_read Memory) (selected start None step log)"
    "\<forall>i. l = Some i \<longrightarrow> uval i < n + length log" by (auto simp: following_def)
  have es: "\<forall>e \<in> set es. uval start \<le> uval (fst e) \<and> (\<forall>i. l = Some i \<longrightarrow> uval i < uval (fst e))"
    using ids_member(1) [OF assms(6)] assms(8) f(4) by fastforce
  then have sel: "selected start None step es = filter (\<lambda>e. on_step start step (fst e)) es"
    by (intro selected_all) auto
  obtain subs where subs: "notify_loop (mq_subscribers q1) es = Ret subs" "q2 = q1 \<lparr> mq_subscribers := subs \<rparr>"
    using assms(2) by (auto simp: notify_subscribers_def bind_eq_Some_conv)
  let ?tg = "tg \<lparr> tg_looks := tg_looks tg + length (selected start None step es),
    tg_sent := tg_sent tg @ map (as_read Memory) (selected start None step es) \<rparr>"
  have "subscriber_call (Follower l start step tg) es = Ret (Follower l start step ?tg, True)"
    using follower_deliver_open [OF assms(4,5) f(2) assms(7) es] by (simp add: sel)
  from notify_loop_member [OF subs(1) _ this] f(1) assms(3)
  have "(k, Follower l start step ?tg) \<in> set (mq_subscribers q2)" by (simp add: subs(2))
  moreover have "open_target ?tg" using f(2) by (simp add: open_target_def)
  moreover have "tg_sent ?tg = sent @ map (as_read Memory) (selected start None step (log @ es))"
    using f(3) by simp
  ultimately show ?thesis using f(4) unfolding following_def by fastforce
qed

lemma mem_enqueue_notifies:
  assumes "mem_enqueue q d = Ret (q', i)" "mq_subscribers q \<noteq> []"
  obtains q1 where "mq_subscribers q1 = mq_subscribers q" "notify_subscribers q1 [(i, d)] = Ret q'"
    "i = next_entry_id (mq_inner q)"
proof -
  from assms obtain in2 where "notify_subscribers (q \<lparr> mq_inner := in2 \<rparr>) [(i, d)] = Ret q'"
    "i = next_entry_id (mq_inner q)"
    by (auto simp: mem_enqueue_def bind_eq_Some_conv Let_def split: if_splits)
  then show thesis using that [of "q \<lparr> mq_inner := in2 \<rparr>"] by simp
qed

lemma mem_enqueue_batch_notifies:
  assumes "mem_enqueue_batch q ds = Ret (q', is)" "mq_subscribers q \<noteq> []" "ds \<noteq> []"
    and "inner_inv n (mq_inner q) log"
  obtains q1 where "mq_subscribers q1 = mq_subscribers q" "notify_subscribers q1 (zip is ds) = Ret q'"
    "list_all (\<lambda>e. canonical (fst e)) (zip is ds)"
    "ids (zip is ds) = [n + length log..<n + length log + length (zip is ds)]"
proof -
  let ?in = "mq_inner q"
  let ?i = "next_entry_id ?in"
  let ?base = "if mi_first_id ?in = None then ?in \<lparr> mi_first_id := Some ?i \<rparr> else ?in"
  from assms(1-3) obtain in1 es in2 where b: "push_batch ?base ?i ds = Ret (in1, es)" "is = map fst es"
    "notify_subscribers (q \<lparr> mq_inner := in2 \<rparr>) es = Ret q'"
    by (auto simp: mem_enqueue_batch_def bind_eq_Some_conv Let_def split: if_splits)
  note es = push_batch_spec [OF b(1) next_entry_id_ok(2) [OF assms(4)]]
  have "zip is ds = es" using es b(2) zip_map_fst_snd [of es] by simp
  then show thesis
    using that [of "q \<lparr> mq_inner := in2 \<rparr>"] b(3) es next_entry_id_ok(1) [OF assms(4)] by simp
qed

lemma following_step:
  assumes "mem_step s l t" "mem_inv n limit s" "following k start step n sent s" "l \<noteq> MUnsubscribe k"
    and "0 < step" "step < 2 ^ 64" "uval start \<le> n + length (snd s)"
  shows "following k start step n sent t"
  using assms(1)
proof cases
  case (mem_step_enqueue q d q' i log)
  have inv: "inner_inv n (mq_inner q) log" using assms(2) mem_step_enqueue by (simp add: mem_inv_def)
  have "mq_subscribers q \<noteq> []" using assms(3) mem_step_enqueue by (auto simp: following_def)
  then obtain q1 where q1: "mq_subscribers q1 = mq_subscribers q" "notify_subscribers q1 [(i, d)] = Ret q'"
    "i = next_entry_id (mq_inner q)" by (rule mem_enqueue_notifies [OF mem_step_enqueue(4)])
  have "following k start step n sent (q', log @ [(i, d)])"
    by (rule following_notify [OF assms(3) [unfolded mem_step_enqueue(1)] q1(2,1) assms(5,6)])
       (use assms(7) mem_step_enqueue(1) q1(3) next_entry_id_ok [OF inv] in simp_all)
  then show ?thesis using mem_step_enqueue by simp
next
  case (mem_step_batch q ds q' ns log)
  have inv: "inner_inv n (mq_inner q) log" using assms(2) mem_step_batch by (simp add: mem_inv_def)
  have sub: "mq_subscribers q \<noteq> []" using assms(3) mem_step_batch by (auto simp: following_def)
  show ?thesis
  proof (cases "ds = []")
    case True
    then show ?thesis using mem_step_batch assms(3) by (simp add: mem_enqueue_batch_def)
  next
    case False
    obtain q1 where q1: "mq_subscribers q1 = mq_subscribers q" "notify_subscribers q1 (zip ns ds) = Ret q'"
      "list_all (\<lambda>e. canonical (fst e)) (zip ns ds)"
      "ids (zip ns ds) = [n + length log..<n + length log + length (zip ns ds)]"
      by (rule mem_enqueue_batch_notifies [OF mem_step_batch(4) sub False inv])
    have "following k start step n sent (q', log @ zip ns ds)"
      by (rule following_notify [OF assms(3) [unfolded mem_step_batch(1)] q1(2,1) assms(5,6) q1(4,3)])
         (use assms(7) mem_step_batch(1) in simp)
    then show ?thesis using mem_step_batch by simp
  qed
next
  case (mem_step_ack q i q' log)
  then have "mq_subscribers q' = mq_subscribers q" by (auto simp: mem_ack_def bind_eq_Some_conv Let_def)
  then show ?thesis using assms(3) mem_step_ack by (simp add: following_def)
next
  case (mem_step_subscribe q s' q' k' log)
  then have "set (mq_subscribers q) \<subseteq> set (mq_subscribers q')"
    by (auto simp: mem_subscribe_def bind_eq_Some_conv Let_def)
  then show ?thesis using assms(3) mem_step_subscribe by (fastforce simp: following_def)
next
  case (mem_step_unsubscribe q log j)
  then show ?thesis using assms(3,4) by (auto simp: following_def mem_unsubscribe_def)
qed

lemma following_steps:
  assumes "0 < step" "step < 2 ^ 64"
  shows "steps mem_step s ls t \<Longrightarrow> mem_inv n limit s \<Longrightarrow> following k start step n sent s \<Longrightarrow>
    MUnsubscribe k \<notin> set ls \<Longrightarrow> uval start \<le> n + length (snd s) \<Longrightarrow> following k start step n sent t"
proof (induction rule: steps.induct)
  case (steps_Cons s l t ls u)
  have "mem_inv n limit t" by (rule mem_step_inv [OF steps_Cons.hyps(1) steps_Cons.prems(1)])
  moreover have "following k start step n sent t"
    using following_step [OF steps_Cons.hyps(1) steps_Cons.prems(1,2) _ assms steps_Cons.prems(4)]
      steps_Cons.prems(3) by auto
  moreover have "length (snd s) \<le> length (snd t)"
    using steps_Cons.hyps(1) by cases auto
  ultimately show ?case using steps_Cons by auto
qed

text \<open>A follow from an identifier that is in memory, or the next one, starts up to date.\<close>

lemma mem_follow_full_following:
  assumes "inner_inv n (mq_inner q) log" "mi_first_id (mq_inner q) = Some first"
    and "uval first \<le> uval start" "uval start \<le> n + length log" "0 < step" "step < 2 ^ 64"
    and "open_target tg" "mq_next_subscriber_id q < 2 ^ 63"
  obtains q' tg' where "mem_follow_full q start start step tg = Ret (q', tg',
      \<lparr> mr_success = True, mr_start_id = None, mr_subscription_id = Some (mq_next_subscriber_id q) \<rparr>)"
    "mq_inner q' = mq_inner q" "mq_max_memory_usage q' = mq_max_memory_usage q"
    "following (mq_next_subscriber_id q) start step n (tg_sent tg) (q', log)"
proof (rule inner_suffix [OF assms(1-3)])
  fix j
  assume j: "from_start start (mi_entries (mq_inner q)) = drop j log" "j = uval start - n"
    "ids (drop j log) = [n + j..<n + j + length (drop j log)]" "n \<le> uval start"
  have ids: "ids log = [n..<n + length log]" using assms(1) by (simp add: inner_inv_def)
  let ?sel = "selected start None step log"
  have "aligned start step (n + j) start" using j(2,4) assms(5) by (simp add: aligned_def)
  from follow_loop_spec [OF assms(5,6) j(3) this]
  have "follow_loop step start (drop j log) = Ret (filter (\<lambda>e. on_step start step (fst e)) (drop j log))" .
  moreover have "filter (\<lambda>e. on_step start step (fst e)) (drop j log) = ?sel"
    unfolding selected_drop [OF ids j(4)] j(2) [symmetric]
    using ids_member(1) [OF j(3)] j(2,4) by (intro selected_all [symmetric]) simp
  ultimately have loop: "follow_loop step start (drop j log) = Ret ?sel" by simp
  let ?tg = "tg \<lparr> tg_looks := tg_looks tg + length ?sel, tg_sent := tg_sent tg @ map (as_read Memory) ?sel \<rparr>"
  let ?l = "if ?sel = [] then None else Some (fst (last ?sel))"
  have last: "\<forall>i. ?l = Some i \<longrightarrow> uval i < n + length log"
  proof (intro allI impI)
    fix i assume "?l = Some i"
    then have "last ?sel \<in> set ?sel" "i = fst (last ?sel)" by (auto split: if_splits)
    then show "uval i < n + length log"
      using ids_member(2) [OF ids, of "last ?sel"] by (simp add: selected_def)
  qed
  let ?q = "q \<lparr> mq_next_subscriber_id := mq_next_subscriber_id q + 1,
    mq_subscribers := mq_subscribers q @ [(mq_next_subscriber_id q, Follower ?l start step ?tg)] \<rparr>"
  have "mem_follow_full q start start step tg = Ret (?q, ?tg,
      \<lparr> mr_success = True, mr_start_id = None, mr_subscription_id = Some (mq_next_subscriber_id q) \<rparr>)"
    using assms(2,3,7,8) j(1) loop
    by (simp add: mem_follow_full_def follow_snapshot_def follow_register_def mem_subscribe_def
        target_send_all_open usize_add_def Let_def)
  moreover have "following (mq_next_subscriber_id q) start step n (tg_sent tg) (?q, log)"
    unfolding following_def using last assms(7)
    by (intro exI [of _ ?l] exI [of _ ?tg]) (simp add: open_target_def)
  ultimately show thesis using that [of ?q ?tg] by simp
qed

section \<open>Properties\<close>

text \<open>
  C5. The in-memory queue refines a log. Whatever is enqueued, acknowledged, subscribed and
  unsubscribed in whatever order, the identifiers assigned are consecutive from the one after the last
  identifier at the start, the memory holds a suffix of the log, every entry that is no
  longer in memory has been acknowledged, and the memory is within its limit unless everything in
  it is still unacknowledged.
\<close>

theorem mem_queue_refines_log:
  assumes "pred_option canonical last_id" "steps mem_step (mem_queue_new last_id limit, []) ls (q, log)"
  shows "map (\<lambda>e. uval (fst e)) log = [next_id last_id..<next_id last_id + length log] \<and>
    (\<exists>k \<le> length log. mi_entries (mq_inner q) = drop k log \<and>
       list_all (\<lambda>e. acked_upto (mq_inner q) (uval (fst e))) (take k log)) \<and>
    within_limit limit (mq_inner q)"
  using mem_run_inv [OF assms] by (auto simp: mem_inv_def inner_inv_def list_all_iff)

lemma sample_mem_run:
  obtains q where "steps mem_step (mem_queue_new None 100, []) [MBatch [[1], [2, 2], [3]]]
      (q, [(U8 0, [1]), (U8 1, [2, 2]), (U8 2, [3])])"
    "mi_first_id (mq_inner q) = Some (U8 0)" "mi_last_id (mq_inner q) = Some (U8 2)"
    "mq_next_subscriber_id q = 0"
proof -
  let ?q = "mem_queue_new None 100 \<lparr> mq_inner :=
    \<lparr> mi_entries = [(U8 0, [1]), (U8 1, [2, 2]), (U8 2, [3])], mi_last_id = Some (U8 2),
      mi_first_id = Some (U8 0), mi_last_acked_id = None, mi_memory_usage = 4 \<rparr> \<rparr>"
  have "mem_enqueue_batch (mem_queue_new None 100) [[1], [2, 2], [3]] = Ret (?q, [U8 0, U8 1, U8 2])"
    by (simp add: mem_enqueue_batch_def mem_queue_new_def next_entry_id_def uintn_zero_def usize_add_def
        cleanup_unlocked_def Let_def)
  from mem_step_batch [OF this, of "[]"]
  have "steps mem_step (mem_queue_new None 100, []) [MBatch [[1], [2, 2], [3]]]
      (?q, [(U8 0, [1]), (U8 1, [2, 2]), (U8 2, [3])])" by simp
  then show thesis by (rule that) (simp_all add: mem_queue_new_def)
qed

theorem mem_queue_refines_log_witness:
  "\<exists>q. steps mem_step (mem_queue_new None 100, []) [MBatch [[1], [2, 2], [3]]]
         (q, [(U8 0, [1]), (U8 1, [2, 2]), (U8 2, [3])]) \<and>
       within_limit 100 (mq_inner q)"
proof (rule sample_mem_run)
  fix q
  assume q: "steps mem_step (mem_queue_new None 100, []) [MBatch [[1], [2, 2], [3]]]
      (q, [(U8 0, [1]), (U8 1, [2, 2]), (U8 2, [3])])"
  with mem_queue_refines_log [OF _ q] show ?thesis by (intro exI conjI) auto
qed

text \<open>
  C16. A memory read never returns too little or too much: with a positive step it terminates, and when it
  reports success it has sent exactly the entries of the log in the range that lie on the step, in
  order; it reports failure only when the first requested entry may not be in memory.
\<close>

theorem mem_read_full_exact:
  assumes "pred_option canonical last_id" "steps mem_step (mem_queue_new last_id limit, []) ls (q, log)"
    and "0 < step" "step < 2 ^ 64" "open_target tg"
  shows "\<exists>tg' r. mem_read_full q start end_id step tg = Ret (tg', r) \<and>
    (mr_success r \<longrightarrow>
       tg_sent tg' = tg_sent tg @ map (as_read Memory) (selected start (Some end_id) step log)) \<and>
    (\<not> mr_success r \<longrightarrow> tg' = tg \<and>
       (\<forall>first. mi_first_id (mq_inner q) = Some first \<longrightarrow> start < first))"
proof -
  let ?in = "mq_inner q"
  have inv: "inner_inv (next_id last_id) ?in log" using mem_run_inv [OF assms(1,2)] by (simp add: mem_inv_def)
  then have ids: "ids log = [next_id last_id..<next_id (mi_last_id ?in)]" by (simp add: inner_inv_def)
  have beyond: "selected start (Some end_id) step log = []"
    if "next_id (mi_last_id ?in) \<le> uval start"
    using ids_member(2) [OF ids] that by (fastforce simp: selected_def in_range_def filter_empty_conv)
  show ?thesis
  proof (cases "mi_last_id ?in")
    case None
    then show ?thesis using beyond by (simp add: mem_read_full_def)
  next
    case (Some l)
    show ?thesis
    proof (cases "uval l < uval start")
      case True
      then show ?thesis using Some beyond by (simp add: mem_read_full_def)
    next
      case False
      show ?thesis
      proof (cases "\<exists>first. mi_first_id ?in = Some first \<and> uval first \<le> uval start")
        case True
        then obtain first where "mi_first_id ?in = Some first" "uval first \<le> uval start" by blast
        from mem_read_full_log [OF inv this assms(3-5) Some] False show ?thesis by simp
      next
        case miss: False
        then have "mem_read_full q start end_id step tg = Ret (tg, mem_read_result_fail)"
          using Some False by (auto simp: mem_read_full_def Let_def split: option.splits)
        then show ?thesis using miss by (auto simp: mem_read_result_fail_def)
      qed
    qed
  qed
qed

theorem mem_read_full_exact_witness:
  "\<exists>q tg' r. steps mem_step (mem_queue_new None 100, []) [MBatch [[1], [2, 2], [3]]]
       (q, [(U8 0, [1]), (U8 1, [2, 2]), (U8 2, [3])]) \<and>
     mem_read_full q (U8 0) (U8 5) 2 \<lparr> tg_refuses = (\<lambda>_. False), tg_looks = 0, tg_sent = [] \<rparr> = Ret (tg', r) \<and>
     (mr_success r \<longrightarrow> map re_data (tg_sent tg') = [[1], [3]])"
proof (rule sample_mem_run)
  fix q
  assume q: "steps mem_step (mem_queue_new None 100, []) [MBatch [[1], [2, 2], [3]]]
      (q, [(U8 0, [1]), (U8 1, [2, 2]), (U8 2, [3])])"
  have "map re_data (map (as_read Memory)
      (selected (U8 0) (Some (U8 5)) 2 [(U8 0, [1]), (U8 1, [2, 2]), (U8 2, [3])])) = [[1], [3]]"
    by (simp add: selected_def in_range_def on_step_def as_read_def read_entry_new_def)
  with mem_read_full_exact [OF _ q, of 2 "\<lparr> tg_refuses = (\<lambda>_. False), tg_looks = 0, tg_sent = [] \<rparr>"
      "U8 0" "U8 5"] q
  show ?thesis by (fastforce simp: open_target_def)
qed




text \<open>
  C31. After a restart a follow skips the history: as long as nothing has been enqueued since, the memory
  has no first identifier, and \<open>follow_full\<close> from any identifier registers the
  subscriber and reports success without sending anything, although the entries up to the last
  identifier are on disk.
\<close>

theorem mem_follow_after_restart_skips_history:
  "mem_follow_full (mem_queue_new (Some last_id) limit) start start step tg =
   Ret (mem_queue_new (Some last_id) limit \<lparr> mq_next_subscriber_id := 1,
          mq_subscribers := [(0, Follower None start step tg)] \<rparr>, tg,
        \<lparr> mr_success = True, mr_start_id = None, mr_subscription_id = Some 0 \<rparr>)"
  by (simp add: mem_follow_full_def follow_snapshot_def follow_register_def mem_subscribe_def
      mem_queue_new_def usize_add_def Let_def)

end
