(* ===== verification/Reader_Fsm.thy ===== *)
theory Reader_Fsm
  imports Lookup Config Mem_Correct
begin

text \<open>
  The reader (\<open>normfs/src/reader_fsm\<close>): a state machine that serves a read from memory, or finds the file of the first
  entry and goes through the files, each from the store, the WAL or the cloud, until the range is read or memory
  takes over.

  A handler is a function of the world, which is the memory store and the receiver; each look at the receiver (\<open>is_closed\<close>
  or a send) is one tick of its \<open>tg_looks\<close>. \<open>reader_fsm\<close> holds what does not change: the third-party functions, the store and the
  cloud. The file system may change between two transitions (\<open>views\<close>), and so may the memory store (\<open>others\<close>);
  the prefetch task reads the files as they are when it is spawned. A panic of that task is the value
  \<open>None\<close> of its handle. The prefetch field of \<open>ParseWalBytes\<close>, which is always empty and not looked at, is left out,
  and so is the sender in the states and contexts, which is the one receiver of the world. The loop is a partial function: no result means that it runs for ever or panics.
\<close>

section \<open>States\<close>

record read_context =
  rc_queue :: queue_id
  rc_file_id :: uintn
  rc_next_id :: uintn
  rc_step :: u64
  rc_last_id :: "uintn option"

definition read_context_new :: "queue_id \<Rightarrow> uintn \<Rightarrow> uintn \<Rightarrow> u64 \<Rightarrow> uintn option \<Rightarrow> read_context" where
  "read_context_new queue file_id nid step last_id =
     \<lparr> rc_queue = queue, rc_file_id = file_id, rc_next_id = nid, rc_step = step, rc_last_id = last_id \<rparr>"

definition with_file_id :: "read_context \<Rightarrow> uintn \<Rightarrow> read_context" where
  "with_file_id self file_id = self \<lparr> rc_file_id := file_id \<rparr>"

definition with_next_id :: "read_context \<Rightarrow> uintn \<Rightarrow> read_context" where
  "with_next_id self nid = self \<lparr> rc_next_id := nid \<rparr>"

type_synonym prefetched = "((bytes \<times> data_source) option, normfs_error) result run"

datatype reader_state =
    LookupPositive queue_id uintn u64
  | LookupNegative queue_id uintn u64
  | LookupFile queue_id uintn "uintn option" u64
  | ReadFile read_context
  | ReadStore read_context
  | ReadWal read_context
  | ReadS3 read_context
  | ExtractWalBytes read_context bytes data_source
  | ParseWalBytes read_context bytes data_source
  | ReadNextFile uintn read_context "prefetched option"
  | Subscribed
  | Completed
  | Failed normfs_error

definition is_terminal :: "reader_state \<Rightarrow> bool" where
  "is_terminal s = (case s of Completed \<Rightarrow> True | Failed _ \<Rightarrow> True | Subscribed \<Rightarrow> True | _ \<Rightarrow> False)"

record reader_s3 =
  rs3_env :: s3_env
  rs3_get_store_bytes :: "queue_id \<Rightarrow> uintn \<Rightarrow> (bytes option, cloud_error) result"

record reader_fsm =
  rf_ext :: store_ext
  rf_wal_root :: string
  rf_store :: persist_store
  rf_s3 :: "reader_s3 option"

record reader_world =
  rw_mem :: mem_store
  rw_sender :: target

type_synonym transition_result = "(reader_world \<times> (reader_state, normfs_error) result) run"

definition sender_is_closed :: "target \<Rightarrow> target \<times> bool" where
  "sender_is_closed tg = (tg \<lparr> tg_looks := tg_looks tg + 1 \<rparr>, tg_refuses tg (tg_looks tg))"

text \<open>\<open>if sender.is_closed() { return Failed(ClientDisconnected) }\<close>, the first lines of every handler.\<close>

definition unless_closed :: "reader_world \<Rightarrow> (reader_world \<Rightarrow> transition_result) \<Rightarrow> transition_result" where
  "unless_closed w handler =
     (let (tg, closed) = sender_is_closed (rw_sender w);
          w = w \<lparr> rw_sender := tg \<rparr>
      in if closed then Ret (w, Ok (Failed ClientDisconnected)) else handler w)"

definition u64_mul_run :: "u64 \<Rightarrow> u64 \<Rightarrow> u64 run" where
  "u64_mul_run a b = (if unat a * unat b < 2 ^ 64 then Ret (a * b) else Panic)"

section \<open>Lookups\<close>

definition last_requested :: "uintn \<Rightarrow> u64 \<Rightarrow> u64 \<Rightarrow> uintn run" where
  "last_requested start_id limit step = do {
     d \<leftarrow> u64_mul_run (limit - 1) step;
     Ret (uintn_add start_id (uintn_from_u64 d)) }"

definition handle_lookup_positive :: "queue_id \<Rightarrow> uintn \<Rightarrow> u64 \<Rightarrow> u64 \<Rightarrow> reader_world \<Rightarrow> transition_result" where
  "handle_lookup_positive queue start_id limit step w = unless_closed w (\<lambda>w.
     if limit > 0 then do {
       end_id \<leftarrow> last_requested start_id limit step;
       (tg, result) \<leftarrow> mem_store_read_full (rw_mem w) queue start_id end_id (unat step) (rw_sender w);
       let w = w \<lparr> rw_sender := tg \<rparr>;
       Ret (w, Ok (if mr_success result then Completed else LookupFile queue start_id (Some end_id) step)) }
     else do {
       (mem, tg, result) \<leftarrow> mem_store_follow_full (rw_mem w) queue start_id start_id (unat step) (rw_sender w);
       let w = w \<lparr> rw_mem := mem, rw_sender := tg \<rparr>;
       Ret (w, Ok (if mr_success result \<and> mr_subscription_id result \<noteq> None then Subscribed
                   else LookupFile queue start_id None step)) })"

definition handle_lookup_negative :: "queue_id \<Rightarrow> uintn \<Rightarrow> u64 \<Rightarrow> u64 \<Rightarrow> reader_world \<Rightarrow> transition_result" where
  "handle_lookup_negative queue offset limit step w = unless_closed w (\<lambda>w.
     if limit > 0 then do {
       (tg, result) \<leftarrow> mem_store_read_full_negative (rw_mem w) queue offset (unat step) limit (rw_sender w);
       let w = w \<lparr> rw_sender := tg \<rparr>;
       if mr_success result then Ret (w, Ok Completed)
       else case mr_start_id result of
         None \<Rightarrow> Ret (w, Err QueueNotFound)
       | Some start_id \<Rightarrow> do {
           end_id \<leftarrow> last_requested start_id limit step;
           Ret (w, Ok (LookupFile queue start_id (Some end_id) step)) } }
     else do {
       (mem, tg, result) \<leftarrow> mem_store_follow_full_negative (rw_mem w) queue offset (unat step) (rw_sender w);
       let w = w \<lparr> rw_mem := mem, rw_sender := tg \<rparr>;
       if mr_success result \<and> mr_subscription_id result \<noteq> None then Ret (w, Ok Subscribed)
       else case mr_start_id result of
         None \<Rightarrow> Ret (w, Err QueueNotFound)
       | Some start_id \<Rightarrow> Ret (w, Ok (LookupFile queue start_id None step)) })"

definition handle_lookup_file ::
  "reader_fsm \<Rightarrow> fs_view \<Rightarrow> queue_id \<Rightarrow> uintn \<Rightarrow> uintn option \<Rightarrow> u64 \<Rightarrow> reader_world \<Rightarrow> transition_result" where
  "handle_lookup_file F V queue start_id end_id step w = unless_closed w (\<lambda>w. do {
     r \<leftarrow> find_file_with_s3
            (lookup_env_of (rf_ext F) V (rf_store F) (rf_wal_root F) queue (map_option rs3_env (rf_s3 F))) start_id;
     Ret (w, Ok (case r of
         Ok (Some file_id) \<Rightarrow> ReadFile (read_context_new queue file_id start_id step end_id)
       | Ok None \<Rightarrow> Failed QueueNotFound
       | Err _ \<Rightarrow> Failed Error_NotFound)) })"

section \<open>Reading a file\<close>

definition handle_read_file :: "read_context \<Rightarrow> reader_world \<Rightarrow> transition_result" where
  "handle_read_file ctx w = unless_closed w (\<lambda>w. Ret (w, Ok (ReadStore ctx)))"

definition handle_read_store :: "reader_fsm \<Rightarrow> fs_view \<Rightarrow> read_context \<Rightarrow> reader_world \<Rightarrow> transition_result" where
  "handle_read_store F V ctx w = unless_closed w (\<lambda>w. Ret (w, Ok (
     case get_store_bytes (se_ext (rf_ext F)) (fv_read V) (rf_store F) (rc_queue ctx) (rc_file_id ctx) of
       Ok (Some store_bytes) \<Rightarrow> ExtractWalBytes ctx store_bytes DiskStore
     | Ok None \<Rightarrow> ReadWal ctx
     | Err e \<Rightarrow> Failed (Error_Store e))))"

definition handle_read_wal :: "reader_fsm \<Rightarrow> fs_view \<Rightarrow> read_context \<Rightarrow> reader_world \<Rightarrow> transition_result" where
  "handle_read_wal F V ctx w = unless_closed w (\<lambda>w. Ret (w, Ok (
     case get_wal_bytes (se_ext (rf_ext F)) (fv_read V) (rf_wal_root F) (rc_queue ctx) (rc_file_id ctx) of
       Ok (Some wal_bytes) \<Rightarrow> ParseWalBytes ctx wal_bytes DiskWal
     | Ok None \<Rightarrow> if rf_s3 F \<noteq> None then ReadS3 ctx else ReadNextFile (rc_file_id ctx) ctx None
     | Err e \<Rightarrow> Failed (Error_Wal e))))"

definition handle_read_s3 :: "reader_fsm \<Rightarrow> read_context \<Rightarrow> reader_world \<Rightarrow> transition_result" where
  "handle_read_s3 F ctx w = unless_closed w (\<lambda>w. Ret (w, Ok (
     case rf_s3 F of
       None \<Rightarrow> Failed Error_NotFound
     | Some s3 \<Rightarrow>
         (case rs3_get_store_bytes s3 (rc_queue ctx) (rc_file_id ctx) of
            Ok (Some store_bytes) \<Rightarrow> ExtractWalBytes ctx store_bytes Cloud
          | Ok None \<Rightarrow> ReadNextFile (rc_file_id ctx) ctx None
          | Err Cloud_NoFilesFound \<Rightarrow> ReadNextFile (rc_file_id ctx) ctx None
          | Err e \<Rightarrow> Failed (Error_Cloud e)))))"

definition handle_extract_wal_bytes ::
  "reader_fsm \<Rightarrow> read_context \<Rightarrow> bytes \<Rightarrow> data_source \<Rightarrow> reader_world \<Rightarrow> transition_result" where
  "handle_extract_wal_bytes F ctx store_bytes data_source w = unless_closed w (\<lambda>w. do {
     let verify_signatures = (data_source = Cloud);
     r \<leftarrow> extract_wal_bytes (rf_ext F) (ps_crypto_ctx (rf_store F)) (rc_queue ctx) (rc_file_id ctx) store_bytes
            verify_signatures;
     Ret (w, Ok (case r of
         Ok wal_bytes \<Rightarrow> ParseWalBytes ctx wal_bytes data_source
       | Err _ \<Rightarrow> ReadNextFile (rc_file_id ctx) ctx None)) })"

text \<open>
  The prefetch of the next file: store, then WAL, then cloud. A file that cannot be decoded counts as missing.
\<close>

definition decoded ::
  "reader_fsm \<Rightarrow> queue_id \<Rightarrow> uintn \<Rightarrow> bytes \<Rightarrow> data_source \<Rightarrow> ((bytes \<times> data_source) option, normfs_error) result run" where
  "decoded F queue file_id store_bytes src = do {
     r \<leftarrow> extract_wal_bytes (rf_ext F) (ps_crypto_ctx (rf_store F)) queue file_id store_bytes (src = Cloud);
     Ret (case r of Ok wal_bytes \<Rightarrow> Ok (Some (wal_bytes, src)) | Err _ \<Rightarrow> Ok None) }"

definition prefetch_next_file :: "reader_fsm \<Rightarrow> fs_view \<Rightarrow> queue_id \<Rightarrow> uintn \<Rightarrow> prefetched" where
  "prefetch_next_file F V queue file_id =
     (case get_store_bytes (se_ext (rf_ext F)) (fv_read V) (rf_store F) queue file_id of
        Err e \<Rightarrow> Ret (Err (Error_Store e))
      | Ok (Some store_bytes) \<Rightarrow> decoded F queue file_id store_bytes DiskStore
      | Ok None \<Rightarrow>
          (case get_wal_bytes (se_ext (rf_ext F)) (fv_read V) (rf_wal_root F) queue file_id of
             Err e \<Rightarrow> Ret (Err (Error_Wal e))
           | Ok (Some wal_bytes) \<Rightarrow> Ret (Ok (Some (wal_bytes, DiskWal)))
           | Ok None \<Rightarrow>
               (case rf_s3 F of
                  None \<Rightarrow> Ret (Ok None)
                | Some s3 \<Rightarrow>
                    (case rs3_get_store_bytes s3 queue file_id of
                       Ok (Some store_bytes) \<Rightarrow> decoded F queue file_id store_bytes Cloud
                     | Ok None \<Rightarrow> Ret (Ok None)
                     | Err e \<Rightarrow> Ret (Err (Error_Cloud e))))))"

definition should_prefetch :: "read_context \<Rightarrow> bool" where
  "should_prefetch ctx \<longleftrightarrow>
     rc_step ctx = 1 \<and> (case rc_last_id ctx of None \<Rightarrow> True | Some last_id \<Rightarrow> rc_next_id ctx < last_id)"

text \<open>The receiver after a range read: one look for each entry sent and one for the failed send.\<close>

definition after_range_read ::
  "target \<Rightarrow> read_entry list \<Rightarrow> (read_range_result, wal_error) result \<Rightarrow> target" where
  "after_range_read tg sent r =
     tg \<lparr> tg_looks := tg_looks tg + length sent + (if r = Ok ChannelClosed then 1 else 0), tg_sent := tg_sent tg @ sent \<rparr>"

definition handle_parse_wal_bytes ::
  "reader_fsm \<Rightarrow> fs_view \<Rightarrow> read_context \<Rightarrow> bytes \<Rightarrow> data_source \<Rightarrow> reader_world \<Rightarrow> transition_result" where
  "handle_parse_wal_bytes F V ctx wal_bytes data_source w = unless_closed w (\<lambda>w. do {
     let prefetch_handle =
       (if should_prefetch ctx then Some (prefetch_next_file F V (rc_queue ctx) (uintn_increment (rc_file_id ctx)))
        else None);
     let tg = rw_sender w;
     (sent, r) \<leftarrow> read_wal_content_range (se_ext (rf_ext F)) wal_bytes (rc_next_id ctx) (rc_last_id ctx) (unat (rc_step ctx))
                    (\<lambda>t. tg_refuses tg (tg_looks tg + t)) data_source;
     let w = w \<lparr> rw_sender := after_range_read tg sent r \<rparr>;
     Ret (w, Ok (case r of
         Ok Complete \<Rightarrow> Completed
       | Ok (PartialRead last_read_id last_id_in_file) \<Rightarrow>
           let new_next_id = (case last_read_id of
                 Some last_read \<Rightarrow> uintn_add last_read (uintn_from_u64 (rc_step ctx))
               | None \<Rightarrow> rc_next_id ctx)
           in ReadNextFile (rc_file_id ctx) (with_next_id ctx new_next_id) prefetch_handle
       | Ok ChannelClosed \<Rightarrow> Failed ClientDisconnected
       | Err _ \<Rightarrow> ReadNextFile (rc_file_id ctx) ctx prefetch_handle)) })"

text \<open>After the memory has been asked: the prefetched file, or the next file by the usual way.\<close>

definition after_memory :: "uintn \<Rightarrow> read_context \<Rightarrow> prefetched option \<Rightarrow> reader_state" where
  "after_memory current_file ctx prefetch_handle =
     (let next_file_id = uintn_increment current_file in
      case prefetch_handle of
        None \<Rightarrow> ReadFile (with_file_id ctx next_file_id)
      | Some None \<Rightarrow> Failed (Error_Io ''Prefetch task panicked'')
      | Some (Some (Ok (Some (wal_bytes, source)))) \<Rightarrow> ParseWalBytes (with_file_id ctx next_file_id) wal_bytes source
      | Some (Some (Ok None)) \<Rightarrow> ReadNextFile next_file_id ctx None
      | Some (Some (Err e)) \<Rightarrow> Failed e)"

definition handle_read_next_file ::
  "uintn \<Rightarrow> read_context \<Rightarrow> prefetched option \<Rightarrow> reader_world \<Rightarrow> transition_result" where
  "handle_read_next_file current_file ctx prefetch_handle w = unless_closed w (\<lambda>w.
     if (case mem_store_get_last_id (rw_mem w) (rc_queue ctx) of
           Some (Some queue_last_id) \<Rightarrow> rc_next_id ctx > queue_last_id | _ \<Rightarrow> False)
     then Ret (w, Ok Completed)
     else case rc_last_id ctx of
       Some end_id \<Rightarrow> do {
         (tg, result) \<leftarrow> mem_store_read_full (rw_mem w) (rc_queue ctx) (rc_next_id ctx) end_id (unat (rc_step ctx))
                           (rw_sender w);
         let w = w \<lparr> rw_sender := tg \<rparr>;
         Ret (w, Ok (if mr_success result then Completed else after_memory current_file ctx prefetch_handle)) }
     | None \<Rightarrow> do {
         (mem, tg, result) \<leftarrow> mem_store_follow_full (rw_mem w) (rc_queue ctx) (rc_next_id ctx) (rc_next_id ctx)
                                (unat (rc_step ctx)) (rw_sender w);
         let w = w \<lparr> rw_mem := mem, rw_sender := tg \<rparr>;
         Ret (w, Ok (if mr_success result \<and> mr_subscription_id result \<noteq> None then Subscribed
                     else after_memory current_file ctx prefetch_handle)) })"

section \<open>The machine\<close>

text \<open>\<open>unreachable!()\<close> for a terminal state is a panic.\<close>

fun transition :: "reader_fsm \<Rightarrow> fs_view \<Rightarrow> reader_state \<Rightarrow> u64 \<Rightarrow> reader_world \<Rightarrow> transition_result" where
  "transition F V (LookupPositive queue offset limit) step w = handle_lookup_positive queue offset limit step w"
| "transition F V (LookupNegative queue offset limit) step w = handle_lookup_negative queue offset limit step w"
| "transition F V (LookupFile queue start_id end_id step') step w = handle_lookup_file F V queue start_id end_id step' w"
| "transition F V (ReadFile ctx) step w = handle_read_file ctx w"
| "transition F V (ReadStore ctx) step w = handle_read_store F V ctx w"
| "transition F V (ReadWal ctx) step w = handle_read_wal F V ctx w"
| "transition F V (ReadS3 ctx) step w = handle_read_s3 F ctx w"
| "transition F V (ExtractWalBytes ctx store_bytes src) step w = handle_extract_wal_bytes F ctx store_bytes src w"
| "transition F V (ParseWalBytes ctx wal_bytes src) step w = handle_parse_wal_bytes F V ctx wal_bytes src w"
| "transition F V (ReadNextFile current_file ctx prefetch_handle) step w =
     handle_read_next_file current_file ctx prefetch_handle w"
| "transition F V _ step w = Panic"

partial_function (option) reader_run ::
  "reader_fsm \<Rightarrow> (nat \<Rightarrow> fs_view) \<Rightarrow> (nat \<Rightarrow> mem_store \<Rightarrow> mem_store) \<Rightarrow> u64 \<Rightarrow> nat \<Rightarrow> reader_state \<Rightarrow> reader_world \<Rightarrow>
   transition_result" where
  "reader_run F views others step t state w =
     (if is_terminal state then Ret (w, Ok state)
      else do {
        (w, r) \<leftarrow> transition F (views t) state step (w \<lparr> rw_mem := others t (rw_mem w) \<rparr>);
        case r of
          Err e \<Rightarrow> Ret (w, Err e)
        | Ok state \<Rightarrow> reader_run F views others step (t + 1) state w })"

fun first_state :: "queue_id \<Rightarrow> read_position \<Rightarrow> u64 \<Rightarrow> reader_state" where
  "first_state queue (Absolute offset) limit = LookupPositive queue offset limit"
| "first_state queue (ShiftFromTail offset) limit = LookupNegative queue offset limit"

fun read_outcome :: "(reader_state, normfs_error) result \<Rightarrow> (bool, normfs_error) result run" where
  "read_outcome (Ok Completed) = Ret (Ok False)"
| "read_outcome (Ok Subscribed) = Ret (Ok True)"
| "read_outcome (Ok (Failed err)) = Ret (Err err)"
| "read_outcome (Err e) = Ret (Err e)"
| "read_outcome (Ok _) = Panic"

definition reader_read ::
  "reader_fsm \<Rightarrow> (nat \<Rightarrow> fs_view) \<Rightarrow> (nat \<Rightarrow> mem_store \<Rightarrow> mem_store) \<Rightarrow> queue_id \<Rightarrow> read_position \<Rightarrow> u64 \<Rightarrow> u64 \<Rightarrow>
   reader_world \<Rightarrow> (reader_world \<times> (bool, normfs_error) result) run" where
  "reader_read F views others queue position limit step w =
     (let (tg, closed) = sender_is_closed (rw_sender w);
          w = w \<lparr> rw_sender := tg \<rparr>
      in if closed then Ret (w, Err ClientDisconnected)
         else do {
           (w, r) \<leftarrow> reader_run F views others step 0 (first_state queue position limit) w;
           outcome \<leftarrow> read_outcome r;
           Ret (w, outcome) })"

end
