(* ===== verification/Reader_Correct.thy ===== *)
theory Reader_Correct
  imports Reader_Fsm
begin

text \<open>
  Correctness of the reader: a limited read from the files of a queue, in the store and in the WAL, sends exactly the
  requested entries and ends; the states of the machine keep their type; and two behaviours of reads without
  limit that lose the subscription or the history.
\<close>

section \<open>Runs without interference\<close>

abbreviation quiet_run :: "reader_fsm \<Rightarrow> fs_view \<Rightarrow> u64 \<Rightarrow> nat \<Rightarrow> reader_state \<Rightarrow> reader_world \<Rightarrow> transition_result" where
  "quiet_run F V step \<equiv> reader_run F (\<lambda>_. V) (\<lambda>_ m. m) step"

text \<open>The receiver has got \<open>es\<close> and is still there; the memory store is unchanged.\<close>

definition delivered :: "reader_world \<Rightarrow> read_entry list \<Rightarrow> reader_world \<Rightarrow> bool" where
  "delivered w es w' \<longleftrightarrow> rw_mem w' = rw_mem w \<and> open_target (rw_sender w') \<and>
     tg_sent (rw_sender w') = tg_sent (rw_sender w) @ es"

definition leads_to ::
  "reader_fsm \<Rightarrow> fs_view \<Rightarrow> u64 \<Rightarrow> reader_state \<Rightarrow> reader_world \<Rightarrow> reader_state \<Rightarrow> read_entry list \<Rightarrow> bool" where
  "leads_to F V step s w s' es \<longleftrightarrow> (\<forall>t. \<exists>w'. quiet_run F V step t s w = Ret (w', Ok s') \<and> delivered w es w')"

lemma leads_to_end: "is_terminal s \<Longrightarrow> open_target (rw_sender w) \<Longrightarrow> leads_to F V step s w s []"
  by (simp add: leads_to_def reader_run.simps delivered_def)

lemma leads_to_step:
  assumes "\<not> is_terminal s" "transition F V s step w = Ret (w1, Ok s1)" "delivered w es1 w1"
    and "leads_to F V step s1 w1 s' es2"
  shows "leads_to F V step s w s' (es1 @ es2)"
proof (unfold leads_to_def, intro allI)
  fix t
  obtain w' where w': "quiet_run F V step (t + 1) s1 w1 = Ret (w', Ok s')" "delivered w1 es2 w'"
    using assms(4) unfolding leads_to_def by blast
  have "quiet_run F V step t s w = Ret (w', Ok s')"
    using w'(1) assms(1,2) by (subst reader_run.simps) simp
  moreover have "delivered w (es1 @ es2) w'" using assms(3) w'(2) by (simp add: delivered_def)
  ultimately show "\<exists>w'. quiet_run F V step t s w = Ret (w', Ok s') \<and> delivered w (es1 @ es2) w'" by blast
qed

definition looked :: "reader_world \<Rightarrow> reader_world" where
  "looked w = w \<lparr> rw_sender := rw_sender w \<lparr> tg_looks := tg_looks (rw_sender w) + 1 \<rparr> \<rparr>"

lemma looked_sel [simp]:
  "rw_mem (looked w) = rw_mem w" "tg_sent (rw_sender (looked w)) = tg_sent (rw_sender w)"
  "open_target (rw_sender (looked w)) = open_target (rw_sender w)" "looked w \<lparr> rw_mem := rw_mem w \<rparr> = looked w"
  by (simp_all add: looked_def open_target_def)

lemma delivered_looked: "open_target (rw_sender w) \<Longrightarrow> delivered w [] (looked w)"
  by (simp add: delivered_def)

lemma unless_closed_open [simp]: "open_target (rw_sender w) \<Longrightarrow> unless_closed w handler = handler (looked w)"
  by (simp add: unless_closed_def sender_is_closed_def open_target_def looked_def)

text \<open>A transition that only looks at the receiver.\<close>

lemma leads_to_looked:
  assumes "open_target (rw_sender w)" "\<not> is_terminal s" "transition F V s step w = Ret (looked w, Ok s1)"
    and "leads_to F V step s1 (looked w) s' es"
  shows "leads_to F V step s w s' es"
  using leads_to_step [OF assms(2,3) delivered_looked [OF assms(1)] assms(4)] by simp

section \<open>The files of a queue\<close>

text \<open>
  The files can be read: those in the store hold the encoded WAL file, those in the WAL the file itself.
\<close>

definition source_of :: "nat \<Rightarrow> nat \<Rightarrow> data_source" where
  "source_of m i = (if i < m then DiskStore else DiskWal)"

definition file_content :: "store_ext \<Rightarrow> log_file \<Rightarrow> bytes" where
  "file_content S file_log = (case file_log of (f, h, es) \<Rightarrow> wal_file_bytes (se_ext S) h es)"

fun encoded_in_store :: "store_ext \<Rightarrow> fs_view \<Rightarrow> persist_store \<Rightarrow> queue_id \<Rightarrow> log_file \<Rightarrow> bool" where
  "encoded_in_store S V store q (f, h, es) \<longleftrightarrow>
     (\<exists>w data. wf_queue_id w = q \<and> wf_file_id w = uintn_from_ubig (uval f) \<and> length es < 2 ^ 64 \<and>
        maybe_compress_and_encrypt S (ps_crypto_ctx store) (wal_file_bytes (se_ext S) h es) w = Ok data \<and>
        fv_read V (queue_id_to_store_path (se_ext S) q (ps_root store) f) =
          Ok (store_file_bytes S (ps_crypto_ctx store) w (content_of S h es []) data))"

fun plain_in_wal :: "store_ext \<Rightarrow> fs_view \<Rightarrow> persist_store \<Rightarrow> queue_id \<Rightarrow> log_file \<Rightarrow> bool" where
  "plain_in_wal S V store q (f, h, es) \<longleftrightarrow>
     fv_read V (queue_id_to_store_path (se_ext S) q (ps_root store) f) = Err NotFound \<and>
     fv_read V (queue_id_to_wal_path (se_ext S) q (ps_root store) f) = Ok (wal_file_bytes (se_ext S) h es)"

definition readable_files ::
  "reader_fsm \<Rightarrow> fs_view \<Rightarrow> queue_id \<Rightarrow> nat \<Rightarrow> nat \<Rightarrow> nat \<Rightarrow> log_file list \<Rightarrow> bool" where
  "readable_files F V q k n m files \<longleftrightarrow>
     chain_on_disk (rf_ext F) V (rf_store F) q k n m files \<and> rf_wal_root F = ps_root (rf_store F) \<and> rf_s3 F = None \<and>
     list_all (encoded_in_store (rf_ext F) V (rf_store F) q) (take m files) \<and>
     list_all (plain_in_wal (rf_ext F) V (rf_store F) q) (drop m files) \<and>
     list_all (\<lambda>l. length (file_content (rf_ext F) l) < 2 ^ 63) files"

lemma readable_file:
  assumes "readable_files F V q k n m files" "i < length files" "uval f = k + i" "canonical f"
  shows "i < m \<Longrightarrow> \<exists>bs. get_store_bytes (se_ext (rf_ext F)) (fv_read V) (rf_store F) q f = Ok (Some bs) \<and>
      (\<forall>v. extract_wal_bytes (rf_ext F) (ps_crypto_ctx (rf_store F)) q f bs v = Ret (Ok (file_content (rf_ext F) (files ! i))))"
    and "\<not> i < m \<Longrightarrow> get_store_bytes (se_ext (rf_ext F)) (fv_read V) (rf_store F) q f = Ok None \<and>
      get_wal_bytes (se_ext (rf_ext F)) (fv_read V) (rf_wal_root F) q f = Ok (Some (file_content (rf_ext F) (files ! i)))"
proof -
  let ?S = "rf_ext F" and ?store = "rf_store F"
  note r = assms(1) [unfolded readable_files_def]
  note c = conjunct1 [OF r, unfolded chain_on_disk_def]
  obtain g h es where g: "files ! i = (g, h, es)" by (cases "files ! i") auto
  have ch: "uval g = k + i" "wal_header_readable (se_ext ?S) h"
    using wal_chain_nth [of "se_ext ?S" k n files i g h es] c assms(2) g by auto
  have path: "uintn_to_file_path (se_ext ?S) f base e = uintn_to_file_path (se_ext ?S) g base e" for base e
    using c ch(1) assms(3) by (intro to_file_path_uval) auto
  show "\<exists>bs. get_store_bytes (se_ext ?S) (fv_read V) ?store q f = Ok (Some bs) \<and>
      (\<forall>v. extract_wal_bytes ?S (ps_crypto_ctx ?store) q f bs v = Ret (Ok (file_content ?S (files ! i))))" if "i < m"
  proof -
    have "encoded_in_store ?S V ?store q (files ! i)"
      using list_all_take_drop(1) [of "encoded_in_store ?S V ?store q" m files i] r that assms(2) by blast
    then obtain w data where w: "wf_queue_id w = q" "wf_file_id w = uintn_from_ubig (uval g)" "length es < 2 ^ 64"
      "maybe_compress_and_encrypt ?S (ps_crypto_ctx ?store) (wal_file_bytes (se_ext ?S) h es) w = Ok data"
      "fv_read V (queue_id_to_store_path (se_ext ?S) q (ps_root ?store) g) =
          Ok (store_file_bytes ?S (ps_crypto_ctx ?store) w (content_of ?S h es []) data)"
      using g by auto
    have "wal_content_ok (se_ext ?S) (content_of ?S h es [])"
      using ch(2) size_from_u64 [of "se_ext ?S" "of_nat (length es)"]
      by (simp add: wal_header_readable_def wal_header_ok_def uintn_encodable_def wal_content_ok_def)
    from extract_wal_bytes_written [OF _ this w(4)] c have
      "extract_wal_bytes ?S (ps_crypto_ctx ?store) q f (store_file_bytes ?S (ps_crypto_ctx ?store) w (content_of ?S h es []) data) v =
        Ret (Ok (wal_file_bytes (se_ext ?S) h es))" for v
      using w(1,2) ch(1) assms(3) canonical_from_uval [OF assms(4)] by simp
    then show ?thesis using w(5) g by (simp add: get_store_bytes_def path queue_id_to_store_path_def file_content_def)
  qed
  show "get_store_bytes (se_ext ?S) (fv_read V) ?store q f = Ok None \<and>
      get_wal_bytes (se_ext ?S) (fv_read V) (rf_wal_root F) q f = Ok (Some (file_content ?S (files ! i)))" if "\<not> i < m"
  proof -
    have "plain_in_wal ?S V ?store q (files ! i)"
      using list_all_take_drop(2) [of "plain_in_wal ?S V ?store q" m files i] r that assms(2) by blast
    moreover have "rf_wal_root F = ps_root ?store" using r by blast
    ultimately show ?thesis
      using g by (simp add: get_store_bytes_def get_wal_bytes_def path queue_id_to_store_path_def queue_id_to_wal_path_def file_content_def)
  qed
qed

section \<open>Selections of consecutive entries\<close>

text \<open>
  Where the reader goes on after a file: one step behind the last entry sent, or where it was.
\<close>

definition next_read :: "u64 \<Rightarrow> uintn \<Rightarrow> (uintn \<times> bytes) list \<Rightarrow> uintn" where
  "next_read step nx sel = (if sel = [] then nx else uintn_add (fst (last sel)) (uintn_from_u64 step))"

lemma ids_ascending: "ids es = [s..<t] \<Longrightarrow> ascending es"
proof (induction es arbitrary: s)
  case (Cons e es)
  then have s: "s < t" "uval (fst e) = s" "ids es = [s + 1..<t]"
    by (cases "s < t"; simp add: upt_conv_Cons)+
  then show ?case using Cons.IH [OF s(3)] ids_member(1) [OF s(3)] by fastforce
qed simp

lemma selected_below: "\<forall>e \<in> set es. uval (fst e) < uval nx \<Longrightarrow> selected nx u step es = []"
  by (auto simp: selected_def in_range_def filter_empty_conv)

lemma on_step_shift:
  assumes "uval nx \<le> uval x" "(uval x - uval nx) mod step = 0" "uval x \<le> uval y"
  shows "on_step nx step y \<longleftrightarrow> (uval y - uval x) mod step = 0"
proof -
  have "uval y - uval nx = (uval x - uval nx) + (uval y - uval x)" using assms(1,3) by simp
  then show ?thesis using assms(2) mod_add_left_eq [of "uval x - uval nx" step "uval y - uval x"]
    by (simp add: on_step_def)
qed

lemma next_read_aligned:
  assumes "1 \<le> unat step"
  shows "uval nx \<le> uval (next_read step nx (selected nx u (unat step) es))"
    "(uval (next_read step nx (selected nx u (unat step) es)) - uval nx) mod unat step = 0"
proof -
  let ?sel = "selected nx u (unat step) es"
  have "uval nx \<le> uval (next_read step nx ?sel) \<and> (uval (next_read step nx ?sel) - uval nx) mod unat step = 0"
  proof (cases "?sel = []")
    case False
    then have "last ?sel \<in> set ?sel" by simp
    then have l: "uval nx \<le> uval (fst (last ?sel))" "on_step nx (unat step) (fst (last ?sel))"
      by (auto simp: selected_def in_range_def)
    then have "uval (fst (last ?sel)) + unat step - uval nx = (uval (fst (last ?sel)) - uval nx) + unat step" by simp
    then have "(uval (fst (last ?sel)) + unat step - uval nx) mod unat step = 0"
      using l(2) by (simp only: mod_add_self2 on_step_def)
    then show ?thesis using l(1) False by (simp add: next_read_def)
  qed (simp add: next_read_def)
  then show "uval nx \<le> uval (next_read step nx ?sel)" "(uval (next_read step nx ?sel) - uval nx) mod unat step = 0"
    by blast+
qed

text \<open>A file that does not reach the end of the range is read to its end.\<close>

lemma next_read_beyond:
  assumes "1 \<le> unat step" "ids es = [s..<s + length es]" "s \<le> uval nx"
    and "\<not> (\<exists>e \<in> set es. reached_end u (fst e))"
  shows "s + length es \<le> uval (next_read step nx (selected nx u (unat step) es))"
proof (rule ccontr)
  let ?sel = "selected nx u (unat step) es"
  let ?nx = "next_read step nx ?sel"
  assume "\<not> s + length es \<le> uval ?nx"
  moreover have al: "uval nx \<le> uval ?nx" "(uval ?nx - uval nx) mod unat step = 0"
    using next_read_aligned [OF assms(1)] by blast+
  ultimately have "uval ?nx \<in> set (ids es)" using assms(2,3) by simp
  then obtain e where e: "e \<in> set es" "uval (fst e) = uval ?nx" by auto
  then have "uval nx \<le> uval (fst e)" "(uval (fst e) - uval nx) mod unat step = 0" using al by simp_all
  then have sel: "e \<in> set ?sel"
    using e(1) assms(4) by (fastforce simp: selected_def in_range_def on_step_def reached_end_def split: option.splits)
  moreover have "ascending ?sel"
    using ids_ascending [OF assms(2)] by (simp add: ascending_def selected_def sorted_wrt_filter)
  ultimately have "uval ?nx \<le> uval (fst (last ?sel))" using ascending_last e(2) by metis
  then show False using sel assms(1) by (auto simp: next_read_def split: if_splits)
qed

lemma selected_next_read:
  assumes "1 \<le> unat step" "ids es = [s..<s + length es]"
    and "\<forall>e \<in> set post. s + length es \<le> uval (fst e)"
  shows "selected (next_read step nx (selected nx u (unat step) es)) u (unat step) post = selected nx u (unat step) post"
proof (cases "selected nx u (unat step) es = []")
  case False
  let ?sel = "selected nx u (unat step) es"
  let ?x = "fst (last ?sel)"
  have "last ?sel \<in> set ?sel" using False by simp
  then have x: "uval nx \<le> uval ?x" "(uval ?x - uval nx) mod unat step = 0" "last ?sel \<in> set es"
    by (auto simp: selected_def in_range_def on_step_def)
  have "uval ?x < s + length es" using ids_member(2) [OF assms(2) x(3)] .
  let ?nx = "next_read step nx ?sel"
  have nx: "uval ?nx = uval ?x + unat step" using False by (simp add: next_read_def)
  have "in_range ?nx u y \<and> on_step ?nx (unat step) y \<longleftrightarrow> in_range nx u y \<and> on_step nx (unat step) y"
    if y: "uval ?x < uval y" for y
  proof -
    have shift: "on_step nx (unat step) y \<longleftrightarrow> (uval y - uval ?x) mod unat step = 0"
      using on_step_shift [OF x(1,2)] y by simp
    show ?thesis
    proof (cases "uval ?nx \<le> uval y")
      case True
      then have "on_step ?nx (unat step) y \<longleftrightarrow> on_step nx (unat step) y"
        using nx shift le_mod_geq [of "unat step" "uval y - uval ?x"] by (simp add: on_step_def)
      then show ?thesis using True x(1) y by (auto simp: in_range_def)
    next
      case False
      then have "(uval y - uval ?x) mod unat step \<noteq> 0" using nx y by simp
      then show ?thesis using False shift by (auto simp: in_range_def)
    qed
  qed
  moreover have "\<forall>e \<in> set post. uval ?x < uval (fst e)" using assms(3) \<open>uval ?x < s + length es\<close> by fastforce
  ultimately show ?thesis
    unfolding selected_def [of _ u "unat step" post] by (intro filter_cong) blast+
qed (simp add: next_read_def)

section \<open>The log, in files and in memory\<close>

text \<open>
  The entries \<open>lg\<close> of a queue from identifier \<open>n\<close> on: the files hold a prefix, the memory what came since the start of
  the process, without what has been cleaned up, and nothing is missing between the two.
\<close>

definition log_split :: "nat \<Rightarrow> log_file list \<Rightarrow> mem_inner \<Rightarrow> (uintn \<times> bytes) list \<Rightarrow> bool" where
  "log_split n files inner lg \<longleftrightarrow>
     lg \<noteq> [] \<and> ids lg = [n..<n + length lg] \<and>
     (\<exists>rest. lg = logged files @ rest) \<and> (\<exists>r \<le> length lg. inner_inv (n + r) inner (drop r lg)) \<and>
     (case mi_first_id inner of
        None \<Rightarrow> length lg = length (logged files)
      | Some first \<Rightarrow> uval first \<le> n + length (logged files))"

lemma log_split_last:
  assumes "log_split n files inner lg"
  obtains l where "mi_last_id inner = Some l" "uval l + 1 = n + length lg"
proof -
  obtain r where "r \<le> length lg" "inner_inv (n + r) inner (drop r lg)" using assms by (auto simp: log_split_def)
  then have "next_id (mi_last_id inner) = n + length lg" by (simp add: inner_inv_def)
  moreover have "lg \<noteq> []" using assms by (simp add: log_split_def)
  ultimately show thesis using that by (cases "mi_last_id inner") (auto simp: next_id_def)
qed

lemma selected_beyond:
  assumes "ids lg = [n..<n + length lg]" "n + length lg \<le> uval nx"
  shows "selected nx u step lg = []"
  using ids_member(2) [OF assms(1)] assms(2) by (intro selected_below) fastforce

text \<open>An entry that is not before the first one in memory: what is in memory is all that counts.\<close>

lemma memory_part:
  assumes "log_split n files inner lg" "mi_first_id inner = Some first" "uval first \<le> uval nx"
  obtains r where "r \<le> length lg" "inner_inv (n + r) inner (drop r lg)"
    "\<And>u step. selected nx u step (drop r lg) = selected nx u step lg"
proof -
  obtain r where r: "r \<le> length lg" "inner_inv (n + r) inner (drop r lg)" using assms(1) by (auto simp: log_split_def)
  have lg: "ids lg = [n..<n + length lg]" using assms(1) by (simp add: log_split_def)
  have "n + r \<le> uval first"
  proof -
    obtain j where "mi_entries inner = drop j (drop r lg)" "mi_entries inner \<noteq> []" "first = fst (hd (mi_entries inner))"
      using r(2) assms(2) by (auto simp: inner_inv_def first_of_def split: if_splits)
    then have "hd (mi_entries inner) \<in> set (drop r lg)" by (metis in_set_dropD list.set_sel(1))
    then show ?thesis using ids_member(1) [of "drop r lg" "n + r"] r(2) \<open>first = _\<close> by (auto simp: inner_inv_def)
  qed
  have "ids (take r lg) = [n..<n + r]" using lg r(1) by (simp flip: take_map)
  then have "\<forall>e \<in> set (take r lg). uval (fst e) < uval nx"
    using assms(3) \<open>n + r \<le> uval first\<close> by (auto dest!: ids_member(2))
  then have "selected nx u step (drop r lg) = selected nx u step lg" for u step
    using selected_append [of nx u step "take r lg" "drop r lg"] selected_below by simp
  with r show thesis by (rule that)
qed

text \<open>The memory is asked first: it serves the rest of the range, or the entry is in the files.\<close>

lemma memory_serves:
  assumes "log_split n files (mq_inner q) lg" "1 \<le> step" "step < 2 ^ 64" "open_target tg" "n \<le> uval nx"
  shows "(\<exists>tg'. mem_read_full q nx end_id step tg =
        Ret (tg', \<lparr> mr_success = True, mr_start_id = None, mr_subscription_id = None \<rparr>) \<and> open_target tg' \<and>
        tg_sent tg' = tg_sent tg @ map (as_read Memory) (selected nx (Some end_id) step lg)) \<or>
     mem_read_full q nx end_id step tg = Ret (tg, mem_read_result_fail) \<and> uval nx < n + length (logged files)"
proof -
  let ?in = "mq_inner q"
  obtain l where l: "mi_last_id ?in = Some l" "uval l + 1 = n + length lg" by (rule log_split_last [OF assms(1)])
  have lg: "ids lg = [n..<n + length lg]" using assms(1) by (simp add: log_split_def)
  consider (beyond) "uval l < uval nx" | (none) "uval nx \<le> uval l" "mi_first_id ?in = None"
    | (miss) first where "uval nx \<le> uval l" "mi_first_id ?in = Some first" "uval nx < uval first"
    | (hit) first where "uval nx \<le> uval l" "mi_first_id ?in = Some first" "uval first \<le> uval nx"
    by (cases "uval l < uval nx"; cases "mi_first_id ?in") (auto, meson not_le_imp_less)
  then show ?thesis
  proof cases
    case beyond
    then show ?thesis using l assms(4) selected_beyond [OF lg] by (simp add: mem_read_full_def)
  next
    case none
    then show ?thesis using l assms(1) by (simp add: mem_read_full_def log_split_def)
  next
    case miss
    then show ?thesis using l assms(1) by (simp add: mem_read_full_def log_split_def)
  next
    case hit
    obtain r where "r \<le> length lg" "inner_inv (n + r) ?in (drop r lg)"
      "\<And>u step. selected nx u step (drop r lg) = selected nx u step lg"
      by (rule memory_part [OF assms(1) hit(2,3)]) (rule that)
    then show ?thesis
      using mem_read_full_log [OF _ hit(2,3) _ assms(3,4) l(1) hit(1), of "n + r" "drop r lg" end_id] assms(2,4)
      by (simp add: open_target_def)
  qed
qed

section \<open>Reading through the files\<close>

definition entries_of :: "read_entry list \<Rightarrow> (uintn \<times> bytes) list" where
  "entries_of es = map (\<lambda>e. (re_id e, re_data e)) es"

lemma entries_of_simps [simp]:
  "entries_of [] = []" "entries_of (es @ fs) = entries_of es @ entries_of fs" "entries_of (map (as_read src) xs) = xs"
  by (simp_all add: entries_of_def as_read_def read_entry_new_def comp_def)

text \<open>From a state the machine completes, having sent the entries \<open>xs\<close>.\<close>

definition reads :: "reader_fsm \<Rightarrow> fs_view \<Rightarrow> u64 \<Rightarrow> reader_state \<Rightarrow> reader_world \<Rightarrow> (uintn \<times> bytes) list \<Rightarrow> bool" where
  "reads F V step s w xs \<longleftrightarrow> (\<exists>es. leads_to F V step s w Completed es \<and> entries_of es = xs)"

lemma reads_completed: "open_target (rw_sender w) \<Longrightarrow> reads F V step Completed w []"
  unfolding reads_def by (intro exI [of _ "[]"]) (simp add: leads_to_end is_terminal_def)

lemma reads_step:
  assumes "\<not> is_terminal s" "transition F V s step w = Ret (w1, Ok s1)" "delivered w es w1" "reads F V step s1 w1 xs"
  shows "reads F V step s w (entries_of es @ xs)"
  using assms(4) leads_to_step [OF assms(1-3)] unfolding reads_def by (metis entries_of_simps(2))

lemma reads_looked:
  assumes "open_target (rw_sender w)" "\<not> is_terminal s" "transition F V s step w = Ret (looked w, Ok s1)"
    and "reads F V step s1 (looked w) xs"
  shows "reads F V step s w xs"
  using assms(4) leads_to_looked [OF assms(1-3)] unfolding reads_def by metis

definition reading ::
  "reader_fsm \<Rightarrow> fs_view \<Rightarrow> queue_id \<Rightarrow> nat \<Rightarrow> nat \<Rightarrow> nat \<Rightarrow> log_file list \<Rightarrow> mem_queue \<Rightarrow> (uintn \<times> bytes) list \<Rightarrow>
   reader_world \<Rightarrow> bool" where
  "reading F V q k n m files mq lg w \<longleftrightarrow>
     readable_files F V q k n m files \<and> log_split n files (mq_inner mq) lg \<and>
     map_of (ms_queues (rw_mem w)) q = Some mq \<and> open_target (rw_sender w)"

lemma reading_looked [simp]: "reading F V q k n m files mq lg (looked w) = reading F V q k n m files mq lg w"
  by (simp add: reading_def)

lemma reading_delivered:
  "reading F V q k n m files mq lg w \<Longrightarrow> delivered w es w' \<Longrightarrow> reading F V q k n m files mq lg w'"
  by (simp add: reading_def delivered_def)

lemma opens_file:
  assumes "reading F V q k n m files mq lg w" "i < length files" "uval f = k + i" "canonical f"
    and "rc_queue ctx = q" "rc_file_id ctx = f"
    and "\<And>src w'. reading F V q k n m files mq lg w' \<Longrightarrow>
      reads F V step (ParseWalBytes ctx (file_content (rf_ext F) (files ! i)) src) w' xs"
  shows "reads F V step (ReadFile ctx) w xs"
proof -
  have o: "open_target (rw_sender w)" and r: "readable_files F V q k n m files"
    using assms(1) by (simp_all add: reading_def)
  let ?w = "looked w"
  let ?c = "file_content (rf_ext F) (files ! i)"
  have "reads F V step (ReadStore ctx) ?w xs"
  proof (cases "i < m")
    case True
    then obtain bs where bs: "get_store_bytes (se_ext (rf_ext F)) (fv_read V) (rf_store F) q f = Ok (Some bs)"
      "\<And>v. extract_wal_bytes (rf_ext F) (ps_crypto_ctx (rf_store F)) q f bs v = Ret (Ok ?c)"
      using readable_file(1) [OF r assms(2-4)] by blast
    have "reads F V step (ExtractWalBytes ctx bs DiskStore) (looked ?w) xs"
      by (rule reads_looked [OF _ _ _ assms(7) [of _ DiskStore]])
         (use o assms(1,5,6) bs(2) in \<open>simp_all add: handle_extract_wal_bytes_def is_terminal_def\<close>)
    then show ?thesis
      by (rule reads_looked [rotated 3])
         (use o assms(5,6) bs(1) in \<open>simp_all add: handle_read_store_def is_terminal_def\<close>)
  next
    case False
    note g = readable_file(2) [OF r assms(2-4) this]
    have "reads F V step (ReadWal ctx) (looked ?w) xs"
      by (rule reads_looked [OF _ _ _ assms(7) [of _ DiskWal]])
         (use o assms(1,5,6) g in \<open>simp_all add: handle_read_wal_def is_terminal_def\<close>)
    then show ?thesis
      by (rule reads_looked [rotated 3])
         (use o assms(5,6) g in \<open>simp_all add: handle_read_store_def is_terminal_def\<close>)
  qed
  then show ?thesis
    by (rule reads_looked [rotated 3]) (use o in \<open>simp_all add: handle_read_file_def is_terminal_def\<close>)
qed

lemma prefetches_file:
  assumes "readable_files F V q k n m files" "i < length files" "uval f = k + i" "canonical f"
  shows "prefetch_next_file F V q f = Ret (Ok (Some (file_content (rf_ext F) (files ! i), source_of m i)))"
proof (cases "i < m")
  case True
  with readable_file(1) [OF assms True] show ?thesis
    by (auto simp: prefetch_next_file_def decoded_def source_of_def)
next
  case False
  with readable_file(2) [OF assms False] show ?thesis by (simp add: prefetch_next_file_def source_of_def)
qed

text \<open>A decoded file is parsed as the file itself would be.\<close>

lemma parses_file:
  fixes step :: u64
  assumes "readable_files F V q k n m files" "i < length files" "files ! i = (g, h, es)"
    and "1 \<le> unat step" "open_target tg"
  shows "read_wal_content_range (se_ext (rf_ext F)) (file_content (rf_ext F) (files ! i)) nx u (unat step)
      (\<lambda>t. tg_refuses tg (tg_looks tg + t)) src =
    Ret (map (as_read src) (selected nx u (unat step) es), Ok (range_outcome nx u (unat step) es))"
proof -
  let ?X = "se_ext (rf_ext F)" and ?c = "file_content (rf_ext F) (files ! i)"
  have r: "chain_on_disk (rf_ext F) V (rf_store F) q k n m files" "length ?c < 2 ^ 63"
    using assms(1,2) by (auto simp: readable_files_def list_all_length)
  then have X: "ubig_bytes_ok ?X" "wal_chain ?X k n files" by (auto simp: chain_on_disk_def store_ext_ok_def)
  have h: "wal_header_readable ?X h" "list_all (entry_ok h) es"
    using wal_chain_readable [OF X(2), of g h es] nth_mem [OF assms(2)] assms(3) by auto
  have "ascending es" using wal_chain_nth [OF X(2) assms(2,3)] ids_ascending by blast
  moreover have "stops ?X h []" using h(1) by (intro stops_Nil) (simp add: wal_header_readable_def)
  moreover have "(\<lambda>_. Ok ?c) (uintn_to_file_path ?X uintn_zero [] ''wal'') = Ok (wal_file_bytes ?X h es @ [])"
    using assms(3) by (simp add: file_content_def)
  moreover have step: "unat step < 2 ^ 64" using unat_lt2p [of step] by simp
  ultimately have "read_wal_file_range ?X (\<lambda>_. Ok ?c) [] uintn_zero nx u (unat step) (\<lambda>_. False) src =
      Ret (map (as_read src) (selected nx u (unat step) es), Ok (range_outcome nx u (unat step) es))"
    using read_wal_file_range_file [OF X(1) h(1) step h(2), where tail = "[]" and fs = "\<lambda>_. Ok ?c"] assms(4)
    by (metis max_absorb1)
  moreover have "(\<lambda>t. tg_refuses tg (tg_looks tg + t)) = (\<lambda>_. False)" using assms(5) by (auto simp: open_target_def)
  ultimately show ?thesis
    using read_ranges_agree_lemma [of "\<lambda>_. Ok ?c" ?X uintn_zero "[]" ?c nx u "unat step" "\<lambda>_. False" src] r(2)
    by (simp add: read_wal_content_range_def)
qed

text \<open>Where file \<open>i\<close> stands in the log.\<close>

lemma log_at_file:
  assumes "log_split n files inner lg" "wal_chain X k n files" "i < length files" "files ! i = (g, h, es)"
  obtains pre post where "lg = pre @ es @ post"
    "ids pre = [n..<start_of k n files (k + i)]"
    "ids es = [start_of k n files (k + i)..<start_of k n files (k + i) + length es]"
    "\<forall>e \<in> set post. start_of k n files (k + i) + length es \<le> uval (fst e)"
    "start_of k n files (k + i + 1) = start_of k n files (k + i) + length es"
    "\<forall>e \<in> set pre. uval (fst e) < start_of k n files (k + i)"
proof -
  obtain rest where lg: "ids lg = [n..<n + length lg]" "lg = logged files @ rest"
    using assms(1) unfolding log_split_def by blast
  let ?pre = "logged (take i files)" and ?post = "logged (drop (i + 1) files) @ rest"
  let ?s = "start_of k n files (k + i)"
  have "files = take i files @ (g, h, es) # drop (i + 1) files" using id_take_nth_drop [OF assms(3)] assms(4) by simp
  then have "logged files = ?pre @ es @ logged (drop (i + 1) files)" by (metis logged_simps(2,3))
  then have split: "lg = ?pre @ es @ ?post" using lg(2) by simp
  have s: "?s = n + length ?pre" by (simp add: start_of_def)
  have es: "ids es = [?s..<?s + length es]" using wal_chain_nth [OF assms(2-4)] s by simp
  have all: "ids ?pre @ ids es @ ids ?post = [n..<n + length lg]" using lg(1) split by (metis map_append)
  have len: "length lg = length ?pre + length es + length ?post" using split by (metis length_append add.assoc)
  have "ids ?pre = take (length ?pre) [n..<n + length lg]" using all by (metis append_eq_conv_conj length_map)
  then have pre: "ids ?pre = [n..<?s]" using s len by simp
  have "(ids ?pre @ ids es) @ ids ?post = [n..<n + length lg]" using all by simp
  then have "ids ?post = drop (length (ids ?pre @ ids es)) [n..<n + length lg]" by (metis append_eq_conv_conj)
  then have post: "ids ?post = [?s + length es..<n + length lg]" using s by (simp add: add.assoc)
  show thesis
  proof (rule that [OF split pre es])
    show "\<forall>e \<in> set ?post. ?s + length es \<le> uval (fst e)" using ids_member(1) [OF post] by blast
    show "start_of k n files (k + i + 1) = ?s + length es"
      using assms(3,4) by (simp add: start_of_def take_Suc_conv_app_nth)
    show "\<forall>e \<in> set ?pre. uval (fst e) < ?s" using ids_member(2) [OF pre] by blast
  qed
qed

lemma after_memory_reads:
  assumes "reading F V q k n m files mq lg w" "i + 1 < length files" "uval f = k + i" "canonical f"
    and "prefetch = None \<or> prefetch = Some (prefetch_next_file F V q (uintn_increment f))"
    and "\<And>f' src w'. reading F V q k n m files mq lg w' \<Longrightarrow> uval f' = k + (i + 1) \<Longrightarrow> canonical f' \<Longrightarrow>
      reads F V step (ParseWalBytes (read_context_new q f' nx step u) (file_content (rf_ext F) (files ! (i + 1))) src) w' xs"
  shows "reads F V step (after_memory f (read_context_new q f nx step u) prefetch) w xs"
proof -
  let ?f = "uintn_increment f"
  have f: "uval ?f = k + (i + 1)" "canonical ?f" using assms(3,4) by (simp_all add: canonical_increment)
  have ctx: "with_file_id (read_context_new q f nx step u) ?f = read_context_new q ?f nx step u"
    by (simp add: with_file_id_def read_context_new_def)
  have "reads F V step (ReadFile (read_context_new q ?f nx step u)) w xs"
    by (rule opens_file [OF assms(1,2) f]) (use f assms(6) in \<open>auto simp: read_context_new_def\<close>)
  moreover have "readable_files F V q k n m files" using assms(1) by (simp add: reading_def)
  note prefetches_file [OF this assms(2) f]
  ultimately show ?thesis
    using assms(5) assms(6) [OF assms(1) f] by (auto simp: after_memory_def ctx)
qed

lemma next_file_reads:
  assumes "reading F V q k n m files mq lg w" "i < length files" "uval f = k + i" "canonical f"
    and "1 \<le> unat step" "start_of k n files (k + i + 1) \<le> uval nx"
    and "prefetch = None \<or> prefetch = Some (prefetch_next_file F V q (uintn_increment f))"
    and "\<And>f' src w'. reading F V q k n m files mq lg w' \<Longrightarrow> i + 1 < length files \<Longrightarrow> uval f' = k + (i + 1) \<Longrightarrow> canonical f' \<Longrightarrow>
      reads F V step (ParseWalBytes (read_context_new q f' nx step (Some e)) (file_content (rf_ext F) (files ! (i + 1))) src) w'
        (selected nx (Some e) (unat step) lg)"
  shows "reads F V step (ReadNextFile f (read_context_new q f nx step (Some e)) prefetch) w (selected nx (Some e) (unat step) lg)"
    (is "reads F V step ?s w ?xs")
proof -
  have w: "log_split n files (mq_inner mq) lg" "map_of (ms_queues (rw_mem w)) q = Some mq" "open_target (rw_sender w)"
    using assms(1) by (simp_all add: reading_def)
  obtain l where l: "mi_last_id (mq_inner mq) = Some l" "uval l + 1 = n + length lg" by (rule log_split_last [OF w(1)])
  have n: "n \<le> uval nx" using assms(6) by (simp add: start_of_def)
  have ctx [simp]: "rc_queue (read_context_new q f nx step (Some e)) = q" "rc_next_id (read_context_new q f nx step (Some e)) = nx"
    "rc_last_id (read_context_new q f nx step (Some e)) = Some e" "rc_step (read_context_new q f nx step (Some e)) = step"
    by (simp_all add: read_context_new_def)
  note [simp] = handle_read_next_file_def mem_store_get_last_id_def mem_get_last_id_def mem_store_read_full_def is_terminal_def
  show ?thesis
  proof (cases "uval l < uval nx")
    case True
    then have "?xs = []" using l(2) w(1) by (intro selected_beyond) (auto simp: log_split_def)
    then show ?thesis
      using reads_looked [of w ?s F V step Completed "[]"] True w l reads_completed by simp
  next
    case False
    have "unat step < 2 ^ 64" "open_target (rw_sender (looked w))" using unat_lt2p [of step] w(3) by simp_all
    from memory_serves [OF w(1) assms(5) this n, of e] show ?thesis
    proof (elim disjE exE conjE)
      fix tg'
      assume m: "mem_read_full mq nx e (unat step) (rw_sender (looked w)) =
          Ret (tg', \<lparr> mr_success = True, mr_start_id = None, mr_subscription_id = None \<rparr>)" "open_target tg'"
        "tg_sent tg' = tg_sent (rw_sender (looked w)) @ map (as_read Memory) ?xs"
      let ?w = "looked w \<lparr> rw_sender := tg' \<rparr>"
      have "delivered w (map (as_read Memory) ?xs) ?w" using m by (simp add: delivered_def)
      then show ?thesis
        using reads_step [of ?s F V step w ?w Completed "map (as_read Memory) ?xs" "[]"] False w l m reads_completed [of ?w] by simp
    next
      assume m: "mem_read_full mq nx e (unat step) (rw_sender (looked w)) = Ret (rw_sender (looked w), mem_read_result_fail)"
        "uval nx < n + length (logged files)"
      have "i + 1 < length files"
      proof (rule ccontr)
        assume "\<not> i + 1 < length files"
        then show False using assms(6) m(2) by (simp add: start_of_def)
      qed
      then have "reads F V step (after_memory f (read_context_new q f nx step (Some e)) prefetch) (looked w) ?xs"
        using after_memory_reads [OF _ _ assms(3,4,7)] assms(1,8) by simp
      then show ?thesis
        by (rule reads_looked [OF w(3), rotated 2])
           (use False w l m in \<open>simp_all add: mem_read_result_fail_def\<close>)
    qed
  qed
qed

lemma file_reads:
  assumes "1 \<le> unat step"
  shows "reading F V q k n m files mq lg w \<Longrightarrow> i < length files \<Longrightarrow> uval f = k + i \<Longrightarrow> canonical f \<Longrightarrow>
    start_of k n files (k + i) \<le> uval nx \<Longrightarrow>
    reads F V step (ParseWalBytes (read_context_new q f nx step (Some e)) (file_content (rf_ext F) (files ! i)) src) w
      (selected nx (Some e) (unat step) lg)"
proof (induction "length files - i" arbitrary: i f nx src w rule: less_induct)
  case less
  obtain g h es where g: "files ! i = (g, h, es)" by (cases "files ! i") auto
  have w: "readable_files F V q k n m files" "log_split n files (mq_inner mq) lg" "open_target (rw_sender w)"
    using less.prems(1) by (simp_all add: reading_def)
  then have "wal_chain (se_ext (rf_ext F)) k n files" by (simp add: readable_files_def chain_on_disk_def)
  from log_at_file [OF w(2) this less.prems(2) g] obtain pre post where lg: "lg = pre @ es @ post"
    "ids es = [start_of k n files (k + i)..<start_of k n files (k + i) + length es]"
    "\<forall>e \<in> set post. start_of k n files (k + i) + length es \<le> uval (fst e)"
    "start_of k n files (k + i + 1) = start_of k n files (k + i) + length es"
    "\<forall>e \<in> set pre. uval (fst e) < start_of k n files (k + i)" by metis
  let ?sel = "selected nx (Some e) (unat step) es" and ?ctx = "read_context_new q f nx step (Some e)"
  let ?nx = "next_read step nx ?sel"
  define w1 where "w1 = looked w \<lparr> rw_sender := after_range_read (rw_sender (looked w)) (map (as_read src) ?sel)
      (Ok (range_outcome nx (Some e) (unat step) es)) \<rparr>"
  have d: "delivered w (map (as_read src) ?sel) w1"
    using w(3) by (simp add: delivered_def w1_def after_range_read_def open_target_def looked_def)
  note p = parses_file [OF w(1) less.prems(2) g assms, of "rw_sender (looked w)"]
  have pre: "selected x (Some e) (unat step) lg = selected x (Some e) (unat step) es @ selected x (Some e) (unat step) post"
    if "start_of k n files (k + i) \<le> uval x" for x
    using lg(1,5) that by (auto intro!: selected_below)
  let ?s = "ParseWalBytes ?ctx (file_content (rf_ext F) (files ! i)) src"
  show ?case
  proof (cases "\<exists>x \<in> set es. reached_end (Some e) (fst x)")
    case True
    then have t: "transition F V ?s step w = Ret (w1, Ok Completed)"
      using p w(3) by (simp add: handle_parse_wal_bytes_def read_context_new_def range_outcome_def w1_def)
    have "selected nx (Some e) (unat step) post = []"
      using True lg(3) ids_member(2) [OF lg(2)] by (force intro!: selected_after_end)
    then show ?thesis
      using reads_step [OF _ t d, of "[]"] reads_completed [of w1 F V step] d pre [OF less.prems(5)] by (simp add: is_terminal_def delivered_def)
  next
    case False
    define prefetch where "prefetch = (if should_prefetch ?ctx then
        Some (prefetch_next_file F V q (uintn_increment f)) else None)"
    have t: "transition F V ?s step w = Ret (w1, Ok (ReadNextFile f (read_context_new q f ?nx step (Some e)) prefetch))"
      using p w(3) False
      by (simp add: handle_parse_wal_bytes_def read_context_new_def range_outcome_def w1_def with_next_id_def
          prefetch_def next_read_def Let_def)
    have nx: "start_of k n files (k + i + 1) \<le> uval ?nx"
      using next_read_beyond [OF assms lg(2) less.prems(5) False] lg(4) by simp
    have "reads F V step (ReadNextFile f (read_context_new q f ?nx step (Some e)) prefetch) w1
        (selected ?nx (Some e) (unat step) lg)"
      by (rule next_file_reads [OF reading_delivered [OF less.prems(1) d] less.prems(2-4) assms nx])
         (use less.hyps [of "i + 1" _ _ ?nx] nx in \<open>auto simp: prefetch_def\<close>)
    moreover have "selected nx (Some e) (unat step) lg = ?sel @ selected ?nx (Some e) (unat step) lg"
    proof -
      have "selected ?nx (Some e) (unat step) es = []"
        using ids_member(2) [OF lg(2)] nx lg(4) by (intro selected_below) fastforce
      then show ?thesis
        using pre [OF less.prems(5)] pre [of ?nx] nx lg(4) selected_next_read [OF assms lg(2,3), of nx "Some e"] by simp
    qed
    ultimately show ?thesis using reads_step [OF _ t d] by (simp add: is_terminal_def)
  qed
qed

section \<open>Reads with a limit\<close>

lemma last_requested_eq:
  assumes "0 < limit" "(unat limit - 1) * unat step < 2 ^ 64"
  obtains e where "last_requested start limit step = Ret e" "uval e = uval start + (unat limit - 1) * unat step"
proof -
  have l: "unat (limit - 1) = unat limit - 1" using assms(1) by (simp add: unat_minus_one word_neq_0_conv)
  then have "unat ((limit - 1) * step) = (unat limit - 1) * unat step"
    using assms(2) by (simp add: unat_word_ariths)
  then show thesis
    using that [of "uintn_add start (uintn_from_u64 ((limit - 1) * step))"] assms(2) l
    by (simp add: last_requested_def u64_mul_run_def)
qed

text \<open>The first \<open>j\<close> entries on the step are those before the \<open>j\<close>-th step.\<close>

lemma take_on_step:
  assumes "0 < step" "step < 2 ^ 64"
  shows "ids es = [n..<n + length es] \<Longrightarrow> aligned start step n c \<Longrightarrow>
    take j (filter (\<lambda>e. on_step start step (fst e)) es) =
    filter (\<lambda>e. uval (fst e) < uval c + j * step \<and> on_step start step (fst e)) es"
proof (induction es arbitrary: n c j)
  case (Cons e es)
  note e = upt_ids_Cons [OF Cons.prems(1)]
  note hit = aligned_hit [OF Cons.prems(2) conjunct1 [OF e]]
  show ?case
  proof (cases "uval c = n")
    case True
    note c = aligned_next(1) [OF Cons.prems(2) assms(2,1) True]
    show ?thesis
    proof (cases j)
      case 0
      have "\<forall>x \<in> set (e # es). \<not> uval (fst x) < uval c"
        using ids_member(1) [OF Cons.prems(1)] True by (simp add: not_less)
      then show ?thesis using 0 by (auto simp: filter_empty_conv)
    next
      case (Suc i)
      then show ?thesis
        using Cons.IH [OF conjunct2 [OF e] c, of i] hit True e assms by (simp add: add.assoc)
    qed
  next
    case False
    note c = aligned_next(2) [OF Cons.prems(2) assms(2,1) False]
    then show ?thesis using Cons.IH [OF conjunct2 [OF e] c, of j] hit False by simp
  qed
qed simp

lemma on_step_below:
  assumes "on_step start step i" "uval start \<le> uval i" "0 < j" "0 < step"
  shows "uval i < uval start + j * step \<longleftrightarrow> uval i \<le> uval start + (j - 1) * step"
proof -
  obtain d where "uval i - uval start = d * step" 
    using assms(1) by (metis on_step_def mod_eq_0_iff_dvd dvd_def mult.commute)
  then have d: "uval i = uval start + d * step" using assms(2) by simp
  have "d * step < j * step \<longleftrightarrow> d * step \<le> (j - 1) * step" using assms(3,4) by auto
  then show ?thesis using d by simp
qed

lemma tail_start_eq:
  obtains s where "tail_start l offset = Ret s" "uval s = uval l - uval offset"
proof (cases "uval l < uval offset")
  case True
  then show ?thesis using that [of uintn_zero] by (simp add: tail_start_def uintn_zero_def)
next
  case False
  then obtain b where "uintn_sub l offset = Ret (Ok b)" "uval b = uval l - uval offset"
    by (metis uintn_sub_Ok not_less)
  then show ?thesis using that [of b] False by (simp add: tail_start_def)
qed

text \<open>A read from the tail that is served from memory sends the same entries as a read of the range.\<close>

lemma negative_loop_range:
  assumes "inner_inv b inner log" "mi_first_id inner = Some first" "uval first \<le> uval start"
    and "uval start < b + length log" "0 < limit" "1 \<le> step" "step < 2 ^ 64" "length log < 2 ^ 64"
    and "uval e = uval start + (unat limit - 1) * step"
  shows "negative_loop step limit 0 start (from_start start (mi_entries inner)) = Ret (selected start (Some e) step log) \<and>
    selected start (Some e) step log \<noteq> []"
proof (rule inner_suffix [OF assms(1-3)])
  fix k
  assume k: "from_start start (mi_entries inner) = drop k log" "k = uval start - b"
    "ids (drop k log) = [b + k..<b + k + length (drop k log)]" "b \<le> uval start"
    "k < length log \<Longrightarrow> b + k = uval start"
  let ?es = "drop k log"
  have bk: "k < length log" "b + k = uval start" using k assms(4) by auto
  have pos: "0 < step" using assms(6) by simp
  then have al: "aligned start step (b + k) start" using bk by (simp add: aligned_def)
  have ge: "uval start \<le> uval (fst x)" if "x \<in> set ?es" for x using ids_member(1) [OF k(3) that] bk by simp
  have "negative_loop step limit 0 start ?es = Ret (take (unat limit) (filter (\<lambda>e. on_step start step (fst e)) ?es))"
    using negative_loop_spec [OF pos assms(7) k(3) al, of 0 limit] assms(5,8) by auto
  moreover have "take (unat limit) (filter (\<lambda>e. on_step start step (fst e)) ?es) = selected start (Some e) step ?es"
    unfolding take_on_step [OF pos assms(7) k(3) al] selected_def
  proof (rule filter_cong [OF refl])
    fix x assume x: "x \<in> set ?es"
    have "0 < unat limit" using assms(5) by (simp add: word_less_nat_alt)
    then show "uval (fst x) < uval start + unat limit * step \<and> on_step start step (fst x) \<longleftrightarrow>
        in_range start (Some e) (fst x) \<and> on_step start step (fst x)"
      using on_step_below [of start step "fst x" "unat limit"] ge [OF x] assms(6,9) by (auto simp: in_range_def)
  qed
  moreover have "selected start (Some e) step ?es \<noteq> []"
  proof -
    have "uval (fst (log ! k)) = uval start"
      using arg_cong [OF k(3), of hd] bk by (simp add: hd_map hd_drop_conv_nth)
    moreover have "log ! k \<in> set ?es" using bk(1) by (metis Cons_nth_drop_Suc list.set_intros(1))
    ultimately have "log ! k \<in> set (selected start (Some e) step ?es)"
      using assms(9) by (simp add: selected_def in_range_def on_step_def)
    then show ?thesis by auto
  qed
  moreover have "selected start (Some e) step log = selected start (Some e) step ?es"
    using selected_drop [of log b start] assms(1) k(2,4) by (simp add: inner_inv_def)
  ultimately show ?thesis using k(1) by simp
qed

lemma memory_serves_tail:
  assumes "log_split n files (mq_inner q) lg" "1 \<le> step" "step < 2 ^ 64" "open_target tg" "length lg < 2 ^ 64"
    and "mi_last_id (mq_inner q) = Some l" "tail_start l offset = Ret start" "n \<le> uval start" "uval start \<le> uval l"
    and "0 < limit" "uval e = uval start + (unat limit - 1) * step"
  shows "(\<exists>tg' r. mem_read_full_negative q offset step limit tg = Ret (tg', r) \<and> mr_success r \<and> open_target tg' \<and>
        tg_sent tg' = tg_sent tg @ map (as_read Memory) (selected start (Some e) step lg)) \<or>
     mem_read_full_negative q offset step limit tg =
       Ret (tg, \<lparr> mr_success = False, mr_start_id = Some start, mr_subscription_id = None \<rparr>)"
proof (cases "\<exists>first. mi_first_id (mq_inner q) = Some first \<and> uval first \<le> uval start")
  case True
  then obtain first where first: "mi_first_id (mq_inner q) = Some first" "uval first \<le> uval start" by blast
  obtain r where r: "r \<le> length lg" "inner_inv (n + r) (mq_inner q) (drop r lg)"
    "\<And>u step. selected start u step (drop r lg) = selected start u step lg"
    by (rule memory_part [OF assms(1) first]) (rule that)
  have "uval l + 1 = n + length lg" using log_split_last [OF assms(1)] assms(6) by (metis option.inject)
  then have "uval start < n + r + length (drop r lg)" using r(1) assms(9) by simp
  from negative_loop_range [OF r(2) first this assms(10,2,3) _ assms(11)] assms(5) r(3)
  have "negative_loop step limit 0 start (from_start start (mi_entries (mq_inner q))) = Ret (selected start (Some e) step lg)"
    "selected start (Some e) step lg \<noteq> []" by simp_all
  then show ?thesis
    using first assms(4,6,7)
    by (simp add: mem_read_full_negative_def target_send_all_open) (simp add: open_target_def)
next
  case False
  then show ?thesis using assms(6,7) by (auto simp: mem_read_full_negative_def Let_def split: option.splits)
qed

lemma lookup_reads:
  assumes "reading F V q k n m files mq lg w" "n \<le> uval start" "1 \<le> unat step"
  shows "reads F V step (LookupFile q start (Some e) step) w (selected start (Some e) (unat step) lg)"
proof -
  have w: "open_target (rw_sender w)" and r: "readable_files F V q k n m files" using assms(1) by (simp_all add: reading_def)
  then have c: "chain_on_disk (rf_ext F) V (rf_store F) q k n m files" "rf_wal_root F = ps_root (rf_store F)" "rf_s3 F = None"
    by (simp_all add: readable_files_def)
  obtain f where f: "find_file_with_s3 (lookup_env_of (rf_ext F) V (rf_store F) (ps_root (rf_store F)) q None) start = Ret (Ok (Some f))"
    "holds_target k (k + length files - 1) (start_of k n files) (uval start) f" "canonical f"
    by (rule lookup_chain [OF c(1) assms(2)])
  have "files \<noteq> []" using c(1) by (simp add: chain_on_disk_def)
  define i where "i = uval f - k"
  then have i: "uval f = k + i" "i < length files" "start_of k n files (k + i) \<le> uval start"
    using f(2) \<open>files \<noteq> []\<close> by (auto simp: holds_target_def length_greater_0_conv [symmetric] simp del: length_greater_0_conv)
  let ?ctx = "read_context_new q f start step (Some e)"
  have "reads F V step (ReadFile ?ctx) (looked w) (selected start (Some e) (unat step) lg)"
    by (rule opens_file [OF _ i(2,1) f(3), where mq = mq and lg = lg])
       (use assms(1) file_reads [OF assms(3) _ i(2,1) f(3) i(3)] in \<open>simp_all add: read_context_new_def\<close>)
  then show ?thesis
    by (rule reads_looked [OF w, rotated 2])
       (use w c f(1) in \<open>simp_all add: handle_lookup_file_def is_terminal_def\<close>)
qed

lemma positive_reads:
  assumes "reading F V q k n m files mq lg w" "n \<le> uval offset" "1 \<le> unat step" "0 < limit"
    and "last_requested offset limit step = Ret e"
  shows "reads F V step (LookupPositive q offset limit) w (selected offset (Some e) (unat step) lg)"
proof -
  let ?xs = "selected offset (Some e) (unat step) lg" and ?s = "LookupPositive q offset limit"
  have w: "open_target (rw_sender w)" "log_split n files (mq_inner mq) lg" "map_of (ms_queues (rw_mem w)) q = Some mq"
    using assms(1) by (simp_all add: reading_def)
  have "unat step < 2 ^ 64" "open_target (rw_sender (looked w))" using unat_lt2p [of step] w(1) by simp_all
  from memory_serves [OF w(2) assms(3) this assms(2), of e] show ?thesis
  proof (elim disjE exE conjE)
    fix tg'
    assume m: "mem_read_full mq offset e (unat step) (rw_sender (looked w)) =
        Ret (tg', \<lparr> mr_success = True, mr_start_id = None, mr_subscription_id = None \<rparr>)" "open_target tg'"
      "tg_sent tg' = tg_sent (rw_sender (looked w)) @ map (as_read Memory) ?xs"
    let ?w = "looked w \<lparr> rw_sender := tg' \<rparr>"
    have "delivered w (map (as_read Memory) ?xs) ?w" using m by (simp add: delivered_def)
    then show ?thesis
      using reads_step [of ?s F V step w ?w Completed "map (as_read Memory) ?xs" "[]"] w m assms(4,5) reads_completed [of ?w]
      by (simp add: handle_lookup_positive_def mem_store_read_full_def is_terminal_def)
  next
    assume m: "mem_read_full mq offset e (unat step) (rw_sender (looked w)) = Ret (rw_sender (looked w), mem_read_result_fail)"
    have "reads F V step (LookupFile q offset (Some e) step) (looked w) ?xs"
      using lookup_reads [OF _ assms(2,3)] assms(1) by simp
    then show ?thesis
      by (rule reads_looked [OF w(1), rotated 2])
         (use w m assms(4,5) in \<open>simp_all add: handle_lookup_positive_def mem_store_read_full_def
            mem_read_result_fail_def is_terminal_def\<close>)
  qed
qed

lemma negative_reads:
  assumes "reading F V q k n m files mq lg w" "1 \<le> unat step" "0 < limit" "length lg < 2 ^ 64"
    and "mi_last_id (mq_inner mq) = Some l" "tail_start l offset = Ret start" "n \<le> uval start" "uval start \<le> uval l"
    and "last_requested start limit step = Ret e" "uval e = uval start + (unat limit - 1) * unat step"
  shows "reads F V step (LookupNegative q offset limit) w (selected start (Some e) (unat step) lg)"
proof -
  let ?xs = "selected start (Some e) (unat step) lg" and ?s = "LookupNegative q offset limit"
  have w: "open_target (rw_sender w)" "log_split n files (mq_inner mq) lg" "map_of (ms_queues (rw_mem w)) q = Some mq"
    using assms(1) by (simp_all add: reading_def)
  have "unat step < 2 ^ 64" "open_target (rw_sender (looked w))" using unat_lt2p [of step] w(1) by simp_all
  from memory_serves_tail [OF w(2) assms(2) this assms(4-8,3,10)] show ?thesis
  proof (elim disjE exE conjE)
    fix tg' r
    assume m: "mem_read_full_negative mq offset (unat step) limit (rw_sender (looked w)) = Ret (tg', r)" "mr_success r"
      "open_target tg'" "tg_sent tg' = tg_sent (rw_sender (looked w)) @ map (as_read Memory) ?xs"
    let ?w = "looked w \<lparr> rw_sender := tg' \<rparr>"
    have "delivered w (map (as_read Memory) ?xs) ?w" using m by (simp add: delivered_def)
    then show ?thesis
      using reads_step [of ?s F V step w ?w Completed "map (as_read Memory) ?xs" "[]"] w m assms(3) reads_completed [of ?w]
      by (simp add: handle_lookup_negative_def mem_store_read_full_negative_def is_terminal_def)
  next
    assume m: "mem_read_full_negative mq offset (unat step) limit (rw_sender (looked w)) =
        Ret (rw_sender (looked w), \<lparr> mr_success = False, mr_start_id = Some start, mr_subscription_id = None \<rparr>)"
    have "reads F V step (LookupFile q start (Some e) step) (looked w) ?xs"
      using lookup_reads [OF _ assms(7,2)] assms(1) by simp
    then show ?thesis
      by (rule reads_looked [OF w(1), rotated 2])
         (use w m assms(3,9) in \<open>simp_all add: handle_lookup_negative_def mem_store_read_full_negative_def is_terminal_def\<close>)
  qed
qed

section \<open>A read without limit that ends in the files\<close>

lemma start_of_mono: "i \<le> j \<Longrightarrow> start_of k n files i \<le> start_of k n files j"
proof -
  assume "i \<le> j"
  then have "i - k \<le> j - k" by simp
  then have "take (j - k) files = take (i - k) files @ take (j - k - (i - k)) (drop (i - k) files)"
    by (metis le_add_diff_inverse take_add)
  then show ?thesis by (simp add: start_of_def)
qed

lemma last_file_reads:
  assumes "reading F V q k n m files mq lg w" "i + 1 = length files" "uval f = k + i" "lg = logged files"
    and "1 \<le> unat step" "start_of k n files (k + i) \<le> uval nx"
  shows "reads F V step (ParseWalBytes (read_context_new q f nx step None) (file_content (rf_ext F) (files ! i)) src) w
      (selected nx None (unat step) lg)"
proof -
  let ?ctx = "read_context_new q f nx step None"
  obtain g h es where g: "files ! i = (g, h, es)" by (cases "files ! i") auto
  have w: "readable_files F V q k n m files" "log_split n files (mq_inner mq) lg" "open_target (rw_sender w)"
    "map_of (ms_queues (rw_mem w)) q = Some mq" using assms(1) by (simp_all add: reading_def)
  have i: "i < length files" using assms(2) by simp
  have "wal_chain (se_ext (rf_ext F)) k n files" using w(1) by (simp add: readable_files_def chain_on_disk_def)
  from log_at_file [OF w(2) this i g] obtain pre post where lg: "lg = pre @ es @ post"
    "ids es = [start_of k n files (k + i)..<start_of k n files (k + i) + length es]"
    "\<forall>e \<in> set post. start_of k n files (k + i) + length es \<le> uval (fst e)"
    "start_of k n files (k + i + 1) = start_of k n files (k + i) + length es"
    "\<forall>e \<in> set pre. uval (fst e) < start_of k n files (k + i)" by metis
  have all: "start_of k n files (k + i) + length es = n + length lg"
    using assms(2,4) lg(4) by (simp add: start_of_def)
  have "post = []"
  proof (rule ccontr)
    assume "post \<noteq> []"
    then have p: "hd post \<in> set post" by simp
    have "uval (fst (hd post)) < n + length lg"
      using ids_member(2) [of lg n "n + length lg" "hd post"] w(2) lg(1) p by (simp add: log_split_def)
    then show False using lg(3) p all by force
  qed
  then have sel: "selected nx None (unat step) lg = selected nx None (unat step) es"
    using lg(1,5) assms(6) by (auto intro!: selected_below)
  let ?sel = "selected nx None (unat step) es"
  let ?nx = "next_read step nx ?sel"
  have nx: "n + length lg \<le> uval ?nx"
    using next_read_beyond [OF assms(5) lg(2) assms(6), of None] all by (simp add: reached_end_def)
  obtain l where l: "mi_last_id (mq_inner mq) = Some l" "uval l + 1 = n + length lg" by (rule log_split_last [OF w(2)])
  define w1 where "w1 = looked w \<lparr> rw_sender := after_range_read (rw_sender (looked w)) (map (as_read src) ?sel)
      (Ok (range_outcome nx None (unat step) es)) \<rparr>"
  have d: "delivered w (map (as_read src) ?sel) w1"
    using w(3) by (simp add: delivered_def w1_def after_range_read_def open_target_def looked_def)
  then have o: "open_target (rw_sender w1)" "rw_mem w1 = rw_mem w" by (simp_all add: delivered_def)
  obtain prefetch where t: "transition F V (ParseWalBytes ?ctx (file_content (rf_ext F) (files ! i)) src) step w =
      Ret (w1, Ok (ReadNextFile f (read_context_new q f ?nx step None) prefetch))"
    using parses_file [OF w(1) i g assms(5), of "rw_sender (looked w)"] w(3)
    by (simp add: handle_parse_wal_bytes_def read_context_new_def range_outcome_def w1_def with_next_id_def
        next_read_def Let_def reached_end_def)
  have "reads F V step (ReadNextFile f (read_context_new q f ?nx step None) prefetch) w1 []"
    by (rule reads_looked [OF o(1) _ _ reads_completed])
       (use o w(4) l nx in \<open>simp_all add: is_terminal_def handle_read_next_file_def read_context_new_def
          mem_store_get_last_id_def mem_get_last_id_def\<close>)
  then show ?thesis using reads_step [OF _ t d, of "[]"] sel by (simp add: is_terminal_def)
qed

lemma lookup_last_reads:
  assumes "reading F V q k n m files mq (logged files) w" "1 \<le> unat step"
    and "start_of k n files (k + length files - 1) \<le> uval offset"
  shows "reads F V step (LookupFile q offset None step) w (selected offset None (unat step) (logged files))"
proof -
  have w: "open_target (rw_sender w)" and r: "readable_files F V q k n m files" using assms(1) by (simp_all add: reading_def)
  then have c: "chain_on_disk (rf_ext F) V (rf_store F) q k n m files" "rf_wal_root F = ps_root (rf_store F)" "rf_s3 F = None"
    by (simp_all add: readable_files_def)
  have "n \<le> uval offset" using assms(3) by (simp add: start_of_def)
  then obtain f where f: "find_file_with_s3 (lookup_env_of (rf_ext F) V (rf_store F) (ps_root (rf_store F)) q None) offset = Ret (Ok (Some f))"
    "holds_target k (k + length files - 1) (start_of k n files) (uval offset) f" "canonical f"
    by (rule lookup_chain [OF c(1)])
  have "files \<noteq> []" using c(1) by (simp add: chain_on_disk_def)
  have "\<not> uval f < k + length files - 1"
  proof
    assume less: "uval f < k + length files - 1"
    then have "uval offset < start_of k n files (uval f + 1)" using f(2) by (simp add: holds_target_def)
    also have "\<dots> \<le> start_of k n files (k + length files - 1)" using less by (intro start_of_mono) simp
    finally show False using assms(3) by simp
  qed
  then have i: "uval f = k + (length files - 1)" "length files - 1 + 1 = length files" "length files - 1 < length files"
    "start_of k n files (k + (length files - 1)) \<le> uval offset"
    using f(2) assms(3) \<open>files \<noteq> []\<close> by (cases files; simp add: holds_target_def)+
  let ?ctx = "read_context_new q f offset step None"
  have "reads F V step (ReadFile ?ctx) (looked w) (selected offset None (unat step) (logged files))"
    by (rule opens_file [OF _ i(3,1) f(3), where mq = mq and lg = "logged files"])
       (use assms(1) last_file_reads [OF _ i(2,1) refl assms(2) i(4)] in \<open>simp_all add: read_context_new_def\<close>)
  then show ?thesis
    by (rule reads_looked [OF w, rotated 2])
       (use w c f(1) in \<open>simp_all add: handle_lookup_file_def is_terminal_def\<close>)
qed

section \<open>The type of the states\<close>

text \<open>
  What the handlers rely on: every context is one of the queue and the step of the read, a file from the cloud
  only appears when there is a cloud, bytes to be decoded come from the store or the cloud, and a file is
  prefetched only for step one.
\<close>

definition source_typed :: "reader_fsm \<Rightarrow> data_source \<Rightarrow> bool" where
  "source_typed F src \<longleftrightarrow> src \<noteq> Memory \<and> (src = Cloud \<longrightarrow> rf_s3 F \<noteq> None)"

definition context_typed :: "queue_id \<Rightarrow> u64 \<Rightarrow> read_context \<Rightarrow> bool" where
  "context_typed q step ctx \<longleftrightarrow> rc_queue ctx = q \<and> rc_step ctx = step"

definition prefetch_typed :: "reader_fsm \<Rightarrow> u64 \<Rightarrow> prefetched option \<Rightarrow> bool" where
  "prefetch_typed F step prefetch \<longleftrightarrow>
     (case prefetch of
        None \<Rightarrow> True
      | Some (Some (Ok (Some (_, src)))) \<Rightarrow> step = 1 \<and> source_typed F src
      | Some _ \<Rightarrow> step = 1)"

fun state_typed :: "reader_fsm \<Rightarrow> queue_id \<Rightarrow> u64 \<Rightarrow> reader_state \<Rightarrow> bool" where
  "state_typed F q step (LookupPositive queue _ _) \<longleftrightarrow> queue = q"
| "state_typed F q step (LookupNegative queue _ _) \<longleftrightarrow> queue = q"
| "state_typed F q step (LookupFile queue _ _ step') \<longleftrightarrow> queue = q \<and> step' = step"
| "state_typed F q step (ReadFile ctx) \<longleftrightarrow> context_typed q step ctx"
| "state_typed F q step (ReadStore ctx) \<longleftrightarrow> context_typed q step ctx"
| "state_typed F q step (ReadWal ctx) \<longleftrightarrow> context_typed q step ctx"
| "state_typed F q step (ReadS3 ctx) \<longleftrightarrow> context_typed q step ctx \<and> rf_s3 F \<noteq> None"
| "state_typed F q step (ExtractWalBytes ctx _ src) \<longleftrightarrow> context_typed q step ctx \<and> source_typed F src \<and> src \<noteq> DiskWal"
| "state_typed F q step (ParseWalBytes ctx _ src) \<longleftrightarrow> context_typed q step ctx \<and> source_typed F src"
| "state_typed F q step (ReadNextFile _ ctx prefetch) \<longleftrightarrow> context_typed q step ctx \<and> prefetch_typed F step prefetch"
| "state_typed F q step _ \<longleftrightarrow> True"

lemmas typed_defs = context_typed_def source_typed_def with_file_id_def with_next_id_def

lemma unless_closed_typed:
  assumes "unless_closed w handler = Ret (w', Ok s)" "\<And>w0. handler w0 = Ret (w', Ok s) \<Longrightarrow> state_typed F q step s"
  shows "state_typed F q step s"
  using assms by (auto simp: unless_closed_def Let_def split: prod.splits if_splits)

lemma decoded_typed:
  "source_typed F src \<Longrightarrow> step = 1 \<Longrightarrow> prefetch_typed F step (Some (decoded F q f bs src))"
  by (auto simp: prefetch_typed_def decoded_def split: option.splits result.splits bind_splits)

lemma prefetch_typed_simps [simp]:
  "prefetch_typed F step None" "prefetch_typed F step (Some (Ret (Err e))) \<longleftrightarrow> step = 1"
  "prefetch_typed F step (Some (Ret (Ok None))) \<longleftrightarrow> step = 1"
  "prefetch_typed F step (Some (Ret (Ok (Some (bs, src))))) \<longleftrightarrow> step = 1 \<and> source_typed F src"
  by (simp_all add: prefetch_typed_def)

lemma prefetch_next_file_typed: "step = 1 \<Longrightarrow> prefetch_typed F step (Some (prefetch_next_file F V q f))"
  unfolding prefetch_next_file_def
  by (auto simp: decoded_typed source_typed_def split: option.splits result.splits)

lemma after_memory_typed:
  "context_typed q step ctx \<Longrightarrow> prefetch_typed F step prefetch \<Longrightarrow> state_typed F q step (after_memory f ctx prefetch)"
  by (auto simp: after_memory_def Let_def typed_defs prefetch_typed_def split: option.splits result.splits)

lemma lookup_typed:
  "handle_lookup_positive q offset limit step w = Ret (w', Ok s) \<Longrightarrow> state_typed F q step s"
  "handle_lookup_negative q offset limit step w = Ret (w', Ok s) \<Longrightarrow> state_typed F q step s"
  "handle_lookup_file F V q start u step w = Ret (w', Ok s) \<Longrightarrow> state_typed F q step s"
  unfolding handle_lookup_positive_def handle_lookup_negative_def handle_lookup_file_def
  by (erule unless_closed_typed;
      auto simp: typed_defs read_context_new_def Let_def split: if_splits bind_splits option.splits result.splits)+

lemma read_typed:
  "context_typed q step ctx \<Longrightarrow> handle_read_file ctx w = Ret (w', Ok s) \<Longrightarrow> state_typed F q step s"
  "context_typed q step ctx \<Longrightarrow> handle_read_store F V ctx w = Ret (w', Ok s) \<Longrightarrow> state_typed F q step s"
  "context_typed q step ctx \<Longrightarrow> handle_read_wal F V ctx w = Ret (w', Ok s) \<Longrightarrow> state_typed F q step s"
  "context_typed q step ctx \<Longrightarrow> handle_read_s3 F ctx w = Ret (w', Ok s) \<Longrightarrow> state_typed F q step s"
  unfolding handle_read_file_def handle_read_store_def handle_read_wal_def handle_read_s3_def
  by (erule unless_closed_typed;
      auto simp: source_typed_def split: if_splits option.splits result.splits cloud_error.splits)+

lemma extract_typed:
  "context_typed q step ctx \<Longrightarrow> source_typed F src \<Longrightarrow>
   handle_extract_wal_bytes F ctx bs src w = Ret (w', Ok s) \<Longrightarrow> state_typed F q step s"
  unfolding handle_extract_wal_bytes_def
  by (erule unless_closed_typed; auto simp: Let_def split: bind_splits result.splits)

lemma parse_typed:
  assumes "context_typed q step ctx" "handle_parse_wal_bytes F V ctx bs src w = Ret (w', Ok s)"
  shows "state_typed F q step s"
proof -
  have "prefetch_typed F step (if should_prefetch ctx then
      Some (prefetch_next_file F V (rc_queue ctx) (uintn_increment (rc_file_id ctx))) else None)"
    using assms(1) by (auto simp: should_prefetch_def context_typed_def intro: prefetch_next_file_typed)
  then show ?thesis
    using assms(2) assms(1) unfolding handle_parse_wal_bytes_def
    by (elim unless_closed_typed)
       (auto simp: Let_def context_typed_def with_next_id_def split: bind_splits result.splits read_range_result.splits)
qed

lemma next_file_typed:
  "context_typed q step ctx \<Longrightarrow> prefetch_typed F step prefetch \<Longrightarrow>
   handle_read_next_file f ctx prefetch w = Ret (w', Ok s) \<Longrightarrow> state_typed F q step s"
  unfolding handle_read_next_file_def
  by (erule unless_closed_typed;
      auto simp: Let_def after_memory_typed split: if_splits bind_splits option.splits)

section \<open>Properties\<close>

definition first_requested :: "read_position \<Rightarrow> nat \<Rightarrow> nat" where
  "first_requested position l =
     (case position of Absolute offset \<Rightarrow> uval offset | ShiftFromTail offset \<Rightarrow> l - uval offset)"

lemma selected_cong: "uval a = uval b \<Longrightarrow> uval c = uval d \<Longrightarrow> selected a (Some c) step es = selected b (Some d) step es"
  by (simp add: selected_def in_range_def on_step_def)

lemma first_state_reads:
  assumes "reading F V q k n m files mq lg w" "0 < limit" "1 \<le> unat step" "(unat limit - 1) * unat step < 2 ^ 64"
    and "length lg < 2 ^ 64" "uval start = first_requested position (n + length lg - 1)" "n \<le> uval start"
    and "uval e = uval start + (unat limit - 1) * unat step"
  shows "reads F V step (first_state q position limit) w (selected start (Some e) (unat step) lg)"
proof (cases position)
  case (Absolute offset)
  obtain e' where "last_requested offset limit step = Ret e'" "uval e' = uval offset + (unat limit - 1) * unat step"
    by (rule last_requested_eq [OF assms(2,4)])
  then show ?thesis
    using positive_reads [OF assms(1) _ assms(3,2)] assms(6-8) Absolute selected_cong [of start offset e e']
    by (simp add: first_requested_def)
next
  case (ShiftFromTail offset)
  obtain l where l: "mi_last_id (mq_inner mq) = Some l" "uval l + 1 = n + length lg"
    using log_split_last [of n files "mq_inner mq" lg] assms(1) by (auto simp: reading_def)
  obtain s where s: "tail_start l offset = Ret s" "uval s = uval l - uval offset" by (rule tail_start_eq)
  obtain e' where e': "last_requested s limit step = Ret e'" "uval e' = uval s + (unat limit - 1) * unat step"
    by (rule last_requested_eq [OF assms(2,4)])
  have "n + length lg - 1 = uval l" using l(2) by simp
  then have "uval start = uval s" using assms(6) s(2) ShiftFromTail by (simp add: first_requested_def)
  then show ?thesis
    using negative_reads [OF assms(1,3,2,5) l(1) s(1) _ _ e'] assms(7,8) s(2) e'(2) ShiftFromTail selected_cong [of start s e e']
    by simp
qed

text \<open>
  C1. A read with a limit sends exactly the requested entries, wherever they are. The log of the queue is
  split over files in the store (compressed and encrypted), files in the WAL and the memory, with nothing
  missing in between and nothing changing meanwhile. From an absolute identifier, or counted back from the last one,
  the read terminates, reports that it is complete, and has sent the entries from the first requested identifier on
  that lie on the step, up to the limit, in order and each once.
\<close>

theorem reader_read_exact:
  assumes "reading F V q k n m files mq lg w" "0 < limit" "0 < step" "(unat limit - 1) * unat step < 2 ^ 64"
    and "length lg < 2 ^ 64" "uval start = first_requested position (n + length lg - 1)" "n \<le> uval start"
    and "uval e = uval start + (unat limit - 1) * unat step"
  shows "\<exists>w' es. reader_read F (\<lambda>_. V) (\<lambda>_ m. m) q position limit step w = Ret (w', Ok False) \<and>
    tg_sent (rw_sender w') = tg_sent (rw_sender w) @ es \<and>
    map (\<lambda>e. (re_id e, re_data e)) es = selected start (Some e) (unat step) lg"
proof -
  have o: "open_target (rw_sender w)" using assms(1) by (simp add: reading_def)
  have "1 \<le> unat step" using assms(3) by (simp add: word_less_nat_alt)
  with first_state_reads [OF _ assms(2) this assms(4-8), of F V q k m files mq "looked w"] assms(1)
  obtain es where es: "leads_to F V step (first_state q position limit) (looked w) Completed es"
    "entries_of es = selected start (Some e) (unat step) lg" by (auto simp: reads_def)
  from es(1) obtain w' where w': "quiet_run F V step 0 (first_state q position limit) (looked w) = Ret (w', Ok Completed)"
    "delivered (looked w) es w'" unfolding leads_to_def by blast
  have "reader_read F (\<lambda>_. V) (\<lambda>_ m. m) q position limit step w = Ret (w', Ok False)"
    using o w'(1) by (simp add: reader_read_def sender_is_closed_def open_target_def looked_def)
  moreover have "tg_sent (rw_sender w') = tg_sent (rw_sender w) @ es" using w'(2) by (simp add: delivered_def)
  ultimately show ?thesis using es(2) unfolding entries_of_def by blast
qed

text \<open>A queue with its first two entries in the store, the third in the WAL and the fourth in memory only.\<close>

definition sample_queue :: queue_id where
  "sample_queue = \<lparr> qid_path = ''/i/q'' \<rparr>"

definition sample_fsm :: reader_fsm where
  "sample_fsm = \<lparr> rf_ext = store_ext_ref, rf_wal_root = ''/d'', rf_store = sample_store, rf_s3 = None \<rparr>"

definition sample_mem_queue :: mem_queue where
  "sample_mem_queue = (mem_queue_new (Some (U8 3)) 100) \<lparr> mq_inner :=
     \<lparr> mi_entries = [(U8 3, [7])], mi_last_id = Some (U8 3), mi_first_id = Some (U8 3), mi_last_acked_id = None,
       mi_memory_usage = 1 \<rparr> \<rparr>"

definition sample_reader_world :: reader_world where
  "sample_reader_world =
     \<lparr> rw_mem = \<lparr> ms_queues = [(sample_queue, sample_mem_queue)], ms_max_memory_usage = 100 \<rparr>,
       rw_sender = \<lparr> tg_refuses = (\<lambda>_. False), tg_looks = 0, tg_sent = [] \<rparr> \<rparr>"

lemma sample_encoded:
  "encoded_in_store store_ext_ref sample_files sample_store sample_queue (sample_chain ! 0)"
  "plain_in_wal store_ext_ref sample_files sample_store sample_queue (sample_chain ! 1)"
proof -
  let ?c = "wal_file_bytes ext_ref wal_header_default [(U8 0, [10]), (U8 1, [])]"
  have data: "maybe_compress_and_encrypt store_ext_ref sample_context ?c sample_wal_file = Ok sample_store_data"
    using sample_compresses [of ?c] by (auto simp: sample_store_data_def)
  note r = sample_reads [folded sample_queue_def]
  have "wf_queue_id sample_wal_file = sample_queue" "wf_file_id sample_wal_file = uintn_from_ubig (uval (U8 1))"
    using canonical_from_uval [of "U8 1"] by (simp_all add: sample_wal_file_def sample_queue_def canonical_def)
  then show "encoded_in_store store_ext_ref sample_files sample_store sample_queue (sample_chain ! 0)"
    using data r(1)
    by (auto simp: sample_chain_def sample_store_def persist_store_new_def store_ext_ref_def sample_store_file_def
        intro!: exI [of _ sample_wal_file] exI [of _ sample_store_data])
  show "plain_in_wal store_ext_ref sample_files sample_store sample_queue (sample_chain ! 1)"
    using r(2,3) by (simp add: sample_chain_def sample_store_def persist_store_new_def store_ext_ref_def)
qed

lemma sample_content_length:
  "list_all (\<lambda>l. length (file_content store_ext_ref l) < 2 ^ 63) sample_chain"
proof -
  have v: "valid_sizes wal_header_default" "valid_sizes (wal_header_default \<lparr> wh_num_entries_before := U8 2 \<rparr>)"
    by (simp_all add: valid_sizes_def wal_header_default_def)
  show ?thesis
    using length_entry_enc [OF ext_ref_ok(1) v(1)] length_entry_enc [OF ext_ref_ok(1) v(2)]
    by (simp add: sample_chain_def file_content_def store_ext_ref_def wal_file_bytes_def wal_header_enc_eq uintn_enc_eq
        wal_header_default_def uintn_zero_def entry_ok_def canonical_def wal_entry_header_size_def WAL_ENTRY_HEADER_FIXED_OVERHEAD_def)
qed

lemma sample_reading:
  "reading sample_fsm sample_files sample_queue 1 0 1 sample_chain sample_mem_queue
     (logged sample_chain @ [(U8 3, [7])]) sample_reader_world"
proof -
  have "readable_files sample_fsm sample_files sample_queue 1 0 1 sample_chain"
    using sample_chain_on_disk sample_encoded sample_content_length
    by (simp add: readable_files_def sample_fsm_def sample_queue_def sample_store_def persist_store_new_def sample_chain_def)
  moreover have "inner_inv (0 + 3) (mq_inner sample_mem_queue) (drop 3 (logged sample_chain @ [(U8 3, [7])]))"
    by (auto simp: inner_inv_def sample_mem_queue_def sample_chain_def next_id_def first_of_def canonical_def
        intro!: exI [of _ "0 :: nat"])
  then have "log_split 0 sample_chain (mq_inner sample_mem_queue) (logged sample_chain @ [(U8 3, [7])])"
    by (auto simp: log_split_def sample_mem_queue_def sample_chain_def upt_conv_Cons intro!: exI [of _ 3])
  ultimately show ?thesis
    by (simp add: reading_def sample_reader_world_def open_target_def)
qed

theorem reader_read_exact_witness:
  "\<exists>w'. reader_read sample_fsm (\<lambda>_. sample_files) (\<lambda>_ m. m) sample_queue (ShiftFromTail (U8 2)) 5 1 sample_reader_world =
       Ret (w', Ok False) \<and>
     map (\<lambda>e. (re_id e, re_data e)) (tg_sent (rw_sender w')) = [(U8 1, []), (U8 2, [12]), (U8 3, [7])]"
proof -
  have "selected (U8 1) (Some (U8 5)) 1 (logged sample_chain @ [(U8 3, [7])]) = [(U8 1, []), (U8 2, [12]), (U8 3, [7])]"
    by (simp add: selected_def sample_chain_def in_range_def on_step_def)
  moreover have "tg_sent (rw_sender sample_reader_world) = []" by (simp add: sample_reader_world_def)
  ultimately show ?thesis
    using reader_read_exact [OF sample_reading, of 5 1 "U8 1" "ShiftFromTail (U8 2)" "U8 5"]
    by (simp add: first_requested_def sample_chain_def)
qed

text \<open>
  C11. The states of the reader keep their type. The first state is well typed, and every transition of a
  well-typed state, whatever the files and the memory hold at that moment, leads to a well-typed state: the contexts stay those of
  the queue and the step of the read, the cloud is read only when there is one, a file is decoded only when it comes
  from the store or the cloud, and prefetched only for step one.
\<close>

theorem reader_states_typed:
  "state_typed F q step (first_state q position limit) \<and>
   (\<forall>V s w w' s'. state_typed F q step s \<and> transition F V s step w = Ret (w', Ok s') \<longrightarrow> state_typed F q step s')"
proof (intro conjI allI impI)
  show "state_typed F q step (first_state q position limit)" by (cases position) simp_all
  show "state_typed F q step s'"
    if "state_typed F q step s \<and> transition F V s step w = Ret (w', Ok s')" for V s w w' s'
    using that by (cases s) (auto dest: lookup_typed read_typed extract_typed parse_typed next_file_typed)
qed

theorem reader_states_typed_witness:
  "state_typed sample_fsm sample_queue 1 (LookupPositive sample_queue (U8 1) 2) \<and>
   (\<exists>w' s'. transition sample_fsm sample_files (ReadFile (read_context_new sample_queue (U8 1) (U8 1) 1 None)) 1
       sample_reader_world = Ret (w', Ok s') \<and> state_typed sample_fsm sample_queue 1 s')"
proof
  show "state_typed sample_fsm sample_queue 1 (LookupPositive sample_queue (U8 1) 2)"
    using reader_states_typed [of sample_fsm sample_queue 1 "Absolute (U8 1)" 2] by simp
  let ?s = "ReadFile (read_context_new sample_queue (U8 1) (U8 1) 1 None)"
  have "state_typed sample_fsm sample_queue 1 ?s" by (simp add: context_typed_def read_context_new_def)
  moreover obtain w' s' where t: "transition sample_fsm sample_files ?s 1 sample_reader_world = Ret (w', Ok s')"
    by (simp add: handle_read_file_def open_target_def sample_reader_world_def)
  ultimately show "\<exists>w' s'. transition sample_fsm sample_files ?s 1 sample_reader_world = Ret (w', Ok s') \<and>
      state_typed sample_fsm sample_queue 1 s'"
    using reader_states_typed [of sample_fsm sample_queue 1 "Absolute (U8 1)" 2] by blast
qed

text \<open>
  C40. A read without limit may end without a subscription. When its first entry is no longer in memory, but in the last
  file, and that file holds everything enqueued so far, then the read sends the entries of the file and
  reports that it is complete: it is not subscribed, and the memory is left without a subscriber for it, so that no
  later entry is sent.
\<close>

theorem reader_follow_not_subscribed:
  assumes "reading F V q k n m files mq (logged files) w" "mi_first_id (mq_inner mq) = Some first" "offset < first"
    and "start_of k n files (k + length files - 1) \<le> uval offset" "0 < step"
  shows "\<exists>w' es. reader_read F (\<lambda>_. V) (\<lambda>_ m. m) q (Absolute offset) 0 step w = Ret (w', Ok False) \<and>
    tg_sent (rw_sender w') = tg_sent (rw_sender w) @ es \<and>
    map (\<lambda>e. (re_id e, re_data e)) es = selected offset None (unat step) (logged files) \<and>
    map_of (ms_queues (rw_mem w')) q = Some mq"
proof -
  have step: "1 \<le> unat step" using assms(5) by (simp add: word_less_nat_alt)
  have w: "open_target (rw_sender w)" "map_of (ms_queues (rw_mem w)) q = Some mq" "readable_files F V q k n m files"
    using assms(1) by (simp_all add: reading_def)
  define w1 where "w1 = looked (looked w) \<lparr> rw_mem := mem_store_put (rw_mem w) q mq \<rparr>"
  have r1: "reading F V q k n m files mq (logged files) w1" "map_of (ms_queues (rw_mem w1)) q = Some mq"
    "tg_sent (rw_sender w1) = tg_sent (rw_sender w)"
    using assms(1) by (simp_all add: reading_def w1_def mem_store_put_def open_target_def looked_def)
  have "mem_store_follow_full (rw_mem w) q offset offset (unat step) tg =
      Ret (mem_store_put (rw_mem w) q mq, tg, mem_read_result_fail)" for tg
    using w(2) assms(2,3) by (simp add: mem_store_follow_full_def mem_follow_full_def follow_snapshot_def)
  then have t: "transition F V (LookupPositive q offset 0) step (looked w) = Ret (w1, Ok (LookupFile q offset None step))"
    using w(1) by (simp add: handle_lookup_positive_def w1_def mem_read_result_fail_def)
  obtain es where es: "leads_to F V step (LookupFile q offset None step) w1 Completed es"
    "entries_of es = selected offset None (unat step) (logged files)"
    using lookup_last_reads [OF r1(1) step assms(4)] by (auto simp: reads_def)
  from es(1) obtain w' where w': "quiet_run F V step 1 (LookupFile q offset None step) w1 = Ret (w', Ok Completed)"
    "delivered w1 es w'" unfolding leads_to_def by blast
  have "quiet_run F V step 0 (LookupPositive q offset 0) (looked w) = Ret (w', Ok Completed)"
    using t w'(1) by (subst reader_run.simps) (simp add: is_terminal_def)
  then have "reader_read F (\<lambda>_. V) (\<lambda>_ m. m) q (Absolute offset) 0 step w = Ret (w', Ok False)"
    using w(1) by (simp add: reader_read_def sender_is_closed_def open_target_def looked_def)
  moreover have "tg_sent (rw_sender w') = tg_sent (rw_sender w) @ es" "map_of (ms_queues (rw_mem w')) q = Some mq"
    using w'(2) r1(2,3) by (simp_all add: delivered_def)
  ultimately show ?thesis using es(2) unfolding entries_of_def by blast
qed

text \<open>The queue when it had its first file only, with the second of its two entries still in memory.\<close>

definition followed_files :: fs_view where
  "followed_files = sample_files \<lparr> fv_tree :=
     (\<lambda>dir. if dir = queue_id_to_store_dir sample_queue ''/d'' then Some (Dir [(''001.store'', File [])]) else Some (Dir [])) \<rparr>"

definition followed_mem_queue :: mem_queue where
  "followed_mem_queue = (mem_queue_new (Some (U8 1)) 100) \<lparr> mq_inner :=
     \<lparr> mi_entries = [(U8 1, [])], mi_last_id = Some (U8 1), mi_first_id = Some (U8 1), mi_last_acked_id = Some (U8 1),
       mi_memory_usage = 0 \<rparr> \<rparr>"

definition followed_world :: reader_world where
  "followed_world = sample_reader_world \<lparr> rw_mem := \<lparr> ms_queues = [(sample_queue, followed_mem_queue)], ms_max_memory_usage = 100 \<rparr> \<rparr>"

lemma followed_chain: "chain_on_disk store_ext_ref followed_files sample_store sample_queue 1 0 1 [sample_chain ! 0]"
proof -
  have dirs: "created_dir followed_files (queue_id_to_store_dir sample_queue ''/d'') = Some (Dir [(''001.store'', File [])])"
    "created_dir followed_files (queue_id_to_wal_dir sample_queue ''/d'') = Some (Dir [])"
    by (simp_all add: created_dir_def followed_files_def sample_files_def sample_queue_def queue_id_to_store_dir_def
        queue_id_to_wal_dir_def path_push_def Let_def)
  have "lists_files ''wal'' (Some (Dir [])) 2 2" by (auto simp: lists_files_def tree_eval)
  moreover have "in_store store_ext_ref followed_files sample_store sample_queue (sample_chain ! 0)"
    using sample_stored(1) by (simp add: sample_chain_def followed_files_def sample_queue_def)
  moreover have "ps_root sample_store = ''/d''" "\<And>dir. fv_mkdir followed_files dir = Ok ()"
    "ps_range_store sample_store = range_store_new (ps_root sample_store) (ps_crypto_ctx sample_store)
       (swc_verify_signatures (ps_config sample_store))"
    by (simp_all add: sample_store_def persist_store_new_def followed_files_def sample_files_def Let_def)
  moreover have "wal_chain ext_ref 1 0 [sample_chain ! 0]"
    using sample_wal_chain by (simp add: sample_chain_def)
  ultimately show ?thesis
    using sample_listed(1) dirs store_ext_ref_ok
    unfolding chain_on_disk_def by (simp add: numeral_2_eq_2 store_ext_ref_def)
qed

lemma followed_reading:
  "reading sample_fsm followed_files sample_queue 1 0 1 [sample_chain ! 0] followed_mem_queue
     (logged [sample_chain ! 0]) followed_world"
proof -
  have "encoded_in_store store_ext_ref followed_files sample_store sample_queue (sample_chain ! 0)"
    using sample_encoded(1) by (simp add: sample_chain_def followed_files_def)
  then have "readable_files sample_fsm followed_files sample_queue 1 0 1 [sample_chain ! 0]"
    using followed_chain sample_content_length
    by (simp add: readable_files_def sample_fsm_def sample_store_def persist_store_new_def sample_chain_def)
  moreover have "inner_inv (0 + 1) (mq_inner followed_mem_queue) (drop 1 (logged [sample_chain ! 0]))"
    by (auto simp: inner_inv_def followed_mem_queue_def sample_chain_def next_id_def first_of_def canonical_def
        intro!: exI [of _ "0 :: nat"])
  then have "log_split 0 [sample_chain ! 0] (mq_inner followed_mem_queue) (logged [sample_chain ! 0])"
    by (auto simp: log_split_def followed_mem_queue_def sample_chain_def upt_conv_Cons intro!: exI [of _ 1])
  ultimately show ?thesis
    by (simp add: reading_def followed_world_def sample_reader_world_def open_target_def)
qed

theorem reader_follow_not_subscribed_witness:
  "\<exists>w'. reader_read sample_fsm (\<lambda>_. followed_files) (\<lambda>_ m. m) sample_queue (Absolute (U8 0)) 0 1 followed_world =
       Ret (w', Ok False) \<and>
     map (\<lambda>e. (re_id e, re_data e)) (tg_sent (rw_sender w')) = [(U8 0, [10]), (U8 1, [])] \<and>
     map_option mq_subscribers (map_of (ms_queues (rw_mem w')) sample_queue) = Some []"
proof -
  have "selected (U8 0) None 1 (logged [sample_chain ! 0]) = [(U8 0, [10]), (U8 1, [])]"
    by (simp add: selected_def sample_chain_def in_range_def on_step_def)
  moreover have "tg_sent (rw_sender followed_world) = []" by (simp add: followed_world_def sample_reader_world_def)
  moreover have "mi_first_id (mq_inner followed_mem_queue) = Some (U8 1)" "mq_subscribers followed_mem_queue = []"
    by (simp_all add: followed_mem_queue_def mem_queue_new_def)
  ultimately show ?thesis
    using reader_follow_not_subscribed [OF followed_reading, of "U8 1" "U8 0" 1]
    by (auto simp: start_of_def)
qed

end
