(* ===== verification/Spec2Isabelle.thy ===== *)
theory Spec2Isabelle
  imports UintN_Paths Disk_Monitor Reader_Correct
begin

text \<open>
  \<^bold>\<open>A verification development for NormFS.\<close>

  NormFS is a storage engine of append-only queues. (Header to be completed.)
\<close>

end
